(* ===== verification/Prelude.thy ===== *)
theory Prelude
  imports Main "HOL-Library.Char_ord" "HOL-Library.List_Lexorder"
begin

text \<open>
  Shared vocabulary of the development: byte strings and the characters the wire protocol
  treats specially, the pieces of the C and C++ standard library the sources call
  (\<open>std::isspace\<close>, \<open>std::to_string\<close>, \<open>c_str()\<close>, \<open>std::map\<close>), the update
  of the first matching element of a vector (a write through a pointer that a linear search
  returned), and the collections of facts the component theories feed to the simplifier.

  A \<open>std::string\<close> is a list of 8-bit characters; \<open>''...''\<close> literals stand for the C
  literals, and the bytes that cannot be written in one are given by their code.
\<close>

named_theorems frame_simps
named_theorems inv_intros
named_theorems cmd_defs
named_theorems input_simps

type_synonym uuid = string

section \<open>Bytes\<close>

abbreviation DQ :: char where "DQ \<equiv> CHR 0x22"
abbreviation BSL :: char where "BSL \<equiv> CHR 0x5C"
abbreviation SP :: char where "SP \<equiv> CHR 0x20"
abbreviation CR :: char where "CR \<equiv> CHR 0x0D"
abbreviation LF :: char where "LF \<equiv> CHR 0x0A"
abbreviation NUL :: char where "NUL \<equiv> CHR 0x00"

definition CRLF :: string where
  "CRLF = [CR, LF]"

text \<open>\<open>std::isspace\<close> in the C locale: space, tab, line feed, vertical tab, form feed,
  carriage return. The sources never call \<open>setlocale\<close> or \<open>imbue\<close>.\<close>

definition isspace :: "char \<Rightarrow> bool" where
  "isspace c \<longleftrightarrow> c = SP \<or> c = CHR 0x09 \<or> c = LF \<or> c = CHR 0x0B \<or> c = CHR 0x0C \<or> c = CR"

text \<open>What a C function sees of a \<open>std::string\<close> passed by \<open>c_str()\<close>: the bytes before the
  first NUL.\<close>

definition c_str :: "string \<Rightarrow> string" where
  "c_str s = takeWhile (\<lambda>c. c \<noteq> NUL) s"

lemma c_str_id: "NUL \<notin> set s \<Longrightarrow> c_str s = s"
  by (auto simp: c_str_def takeWhile_eq_all_conv)

section \<open>Decimal printing\<close>

text \<open>\<open>std::to_string\<close> on an integer type and \<open>operator<<\<close> of a stream: decimal digits,
  with a minus sign for a negative value.\<close>

fun nat_digits :: "nat \<Rightarrow> string" where
  "nat_digits n =
     (if n < 10 then [char_of (48 + n)] else nat_digits (n div 10) @ [char_of (48 + n mod 10)])"

declare nat_digits.simps [simp del]

definition to_string :: "int \<Rightarrow> string" where
  "to_string i = (if i < 0 then CHR ''-'' # nat_digits (nat (- i)) else nat_digits (nat i))"

lemma nat_digits_not_Nil [simp]: "nat_digits n \<noteq> []"
  by (subst nat_digits.simps) simp

lemma to_string_not_Nil [simp]: "to_string i \<noteq> []"
  by (simp add: to_string_def)

section \<open>Writing through a pointer that a linear search returned\<close>

text \<open>\<open>for (auto& x : xs) if (P(x)) return &x;\<close> followed by a mutation of the pointee changes
  the first element that satisfies \<open>P\<close>, and nothing when there is none.\<close>

fun update_first :: "('a \<Rightarrow> bool) \<Rightarrow> ('a \<Rightarrow> 'a) \<Rightarrow> 'a list \<Rightarrow> 'a list" where
  "update_first P f [] = []"
| "update_first P f (x # xs) = (if P x then f x # xs else x # update_first P f xs)"

lemma length_update_first [simp]: "length (update_first P f xs) = length xs"
  by (induction xs) auto

lemma update_first_absent: "find P xs = None \<Longrightarrow> update_first P f xs = xs"
  by (induction xs) (auto split: if_splits)

lemma map_update_first:
  "(\<And>x. g (f x) = g x) \<Longrightarrow> map g (update_first P f xs) = map g xs"
  by (induction xs) auto

lemma find_update_first_same:
  "(\<And>x. P x \<Longrightarrow> P (f x)) \<Longrightarrow> find P (update_first P f xs) = map_option f (find P xs)"
  by (induction xs) auto

lemma find_update_first_other:
  "(\<And>x. P x \<Longrightarrow> \<not> Q x) \<Longrightarrow> (\<And>x. P x \<Longrightarrow> \<not> Q (f x)) \<Longrightarrow>
   find Q (update_first P f xs) = find Q xs"
  by (induction xs) auto

lemma set_update_first_subset:
  "set (update_first P f xs) \<subseteq> set xs \<union> f ` {x \<in> set xs. P x}"
  by (induction xs) auto

lemma list_all_update_first:
  "list_all Q xs \<Longrightarrow> (\<And>x. x \<in> set xs \<Longrightarrow> Q x \<Longrightarrow> P x \<Longrightarrow> Q (f x)) \<Longrightarrow>
   list_all Q (update_first P f xs)"
  by (induction xs) auto

lemma find_Some_mem: "find P xs = Some x \<Longrightarrow> x \<in> set xs \<and> P x"
  by (induction xs) (auto split: if_splits)

lemma find_key_distinct:
  "distinct (map k xs) \<Longrightarrow> find (\<lambda>x. k x = key) xs = Some x \<longleftrightarrow> x \<in> set xs \<and> k x = key"
  by (induction xs) (auto simp: rev_image_eqI)

lemma find_key_None: "find (\<lambda>x. k x = key) xs = None \<longleftrightarrow> key \<notin> k ` set xs"
  by (induction xs) auto

lemma find_append: "find P (xs @ ys) = (case find P xs of None \<Rightarrow> find P ys | Some x \<Rightarrow> Some x)"
  by (induction xs) auto

lemma update_first_as_map:
  "distinct (map k xs) \<Longrightarrow>
   update_first (\<lambda>x. k x = key) f xs = map (\<lambda>x. if k x = key then f x else x) xs"
proof (induction xs)
  case (Cons x xs)
  show ?case
  proof (cases "k x = key")
    case True
    with Cons.prems have "\<forall>y \<in> set xs. k y \<noteq> key" by (auto simp: image_iff)
    then have "map (\<lambda>x. if k x = key then f x else x) xs = xs"
      by (intro map_idI) auto
    with True show ?thesis by simp
  next
    case False
    with Cons show ?thesis by simp
  qed
qed simp

section \<open>The ordered map of the standard library\<close>

text \<open>\<open>std::map<std::string, V>\<close>: the bindings in increasing key order, the order in which
  the range-for loops of the sources visit them. \<open>operator[]\<close> followed by a change of the
  value inserts a default value first when the key is new.\<close>

type_synonym 'v std_map = "(string \<times> 'v) list"

fun map_find :: "string \<Rightarrow> 'v std_map \<Rightarrow> 'v option" where
  "map_find k [] = None"
| "map_find k ((a, v) # m) = (if k = a then Some v else map_find k m)"

fun map_upsert :: "string \<Rightarrow> 'v \<Rightarrow> ('v \<Rightarrow> 'v) \<Rightarrow> 'v std_map \<Rightarrow> 'v std_map" where
  "map_upsert k d f [] = [(k, f d)]"
| "map_upsert k d f ((a, v) # m) =
     (if k < a then (k, f d) # (a, v) # m
      else if k = a then (a, f v) # m
      else (a, v) # map_upsert k d f m)"

definition map_ok :: "'v std_map \<Rightarrow> bool" where
  "map_ok m = sorted_wrt (<) (map fst m)"

lemma map_find_not_below: "sorted_wrt (<) (map fst m) \<Longrightarrow> \<forall>a \<in> fst ` set m. k < a \<Longrightarrow> map_find k m = None"
  by (induction m) auto

lemma keys_map_upsert: "fst ` set (map_upsert k d f m) = insert k (fst ` set m)"
  by (induction k d f m rule: map_upsert.induct) (simp_all add: insert_commute)

lemma map_ok_upsert [inv_intros]: "map_ok m \<Longrightarrow> map_ok (map_upsert k d f m)"
proof (unfold map_ok_def, induction m)
  case (Cons x m)
  obtain a v where [simp]: "x = (a, v)" by fastforce
  from Cons.prems have m: "sorted_wrt (<) (map fst m)" and lt: "\<forall>b \<in> fst ` set m. a < b" by auto
  consider "k < a" | "k = a" | "a < k" by (meson linorder_cases)
  then show ?case
  proof cases
    case 3
    then have "\<forall>b \<in> fst ` set (map_upsert k d f m). a < b"
      using lt by (simp add: keys_map_upsert)
    with 3 Cons.IH [OF m] show ?thesis by auto
  qed (use Cons.prems in auto)
qed simp

lemma map_find_upsert:
  "map_ok m \<Longrightarrow> map_find j (map_upsert k d f m) =
     (if j = k then Some (f (case map_find k m of None \<Rightarrow> d | Some v \<Rightarrow> v)) else map_find j m)"
proof (unfold map_ok_def, induction m)
  case (Cons x m)
  obtain a v where [simp]: "x = (a, v)" by fastforce
  from Cons.prems have m: "sorted_wrt (<) (map fst m)" and lt: "\<forall>b \<in> fst ` set m. a < b" by auto
  have "map_find k m = None" if "k < a"
    using that lt by (intro map_find_not_below [OF m]) (auto intro: order.strict_trans)
  with Cons.IH [OF m] show ?case by auto
qed simp

end
