(* ===== verification/Models.thy ===== *)
theory Models
  imports Prelude
begin

text \<open>
  The data model of the server (\<open>src/server/models\<close> and \<open>src/server/Context.hpp\<close>): one
  record per class, fields in the order of the source, and the member functions that are more
  than a getter or a setter. Default constructors are the \<open>new\<dots>\<close> constants. A
  \<open>time_t\<close> and the \<open>int\<close> connection counter are integers; that the counter stays
  within the number of open connections is proved in \<open>Session_Inv\<close>.
\<close>

section \<open>Records\<close>

record message =
  msg_senderUuid :: uuid
  msg_receiverUuid :: uuid
  msg_timestamp :: int
  msg_body :: string

record reply =
  rep_uuid :: uuid
  rep_userUuid :: uuid
  rep_timestamp :: int
  rep_body :: string

record thread =
  thr_uuid :: uuid
  thr_userUuid :: uuid
  thr_timestamp :: int
  thr_title :: string
  thr_body :: string
  thr_replies :: "reply list"

record channel =
  chn_uuid :: uuid
  chn_name :: string
  chn_description :: string
  chn_threads :: "thread list"

record team =
  team_uuid :: uuid
  team_name :: string
  team_description :: string
  team_subscriberUuids :: "uuid list"
  team_channels :: "channel list"

record user =
  usr_uuid :: uuid
  usr_name :: string
  usr_connectedCount :: int
  usr_teams :: "uuid list"
  usr_messages :: "message list std_map"

record ctx =
  ctx_teamUuid :: uuid
  ctx_channelUuid :: uuid
  ctx_threadUuid :: uuid

definition newMessage :: message where
  "newMessage = \<lparr>msg_senderUuid = [], msg_receiverUuid = [], msg_timestamp = 0, msg_body = []\<rparr>"

definition newReply :: reply where
  "newReply = \<lparr>rep_uuid = [], rep_userUuid = [], rep_timestamp = 0, rep_body = []\<rparr>"

definition newThread :: thread where
  "newThread = \<lparr>thr_uuid = [], thr_userUuid = [], thr_timestamp = 0, thr_title = [],
     thr_body = [], thr_replies = []\<rparr>"

definition newChannel :: channel where
  "newChannel = \<lparr>chn_uuid = [], chn_name = [], chn_description = [], chn_threads = []\<rparr>"

definition newTeam :: team where
  "newTeam = \<lparr>team_uuid = [], team_name = [], team_description = [],
     team_subscriberUuids = [], team_channels = []\<rparr>"

definition newUser :: user where
  "newUser = \<lparr>usr_uuid = [], usr_name = [], usr_connectedCount = 0, usr_teams = [],
     usr_messages = []\<rparr>"

definition emptyCtx :: ctx where
  "emptyCtx = \<lparr>ctx_teamUuid = [], ctx_channelUuid = [], ctx_threadUuid = []\<rparr>"

text \<open>A time that a \<open>time_t\<close> holds and that survives the \<open>double\<close> of the save file.\<close>

definition exact_time :: "int \<Rightarrow> bool" where
  "exact_time t \<longleftrightarrow> abs t < 2 ^ 53"

section \<open>Member functions of Team\<close>

definition isUserSubscribed :: "team \<Rightarrow> uuid \<Rightarrow> bool" where
  "isUserSubscribed t u \<longleftrightarrow> u \<in> set (team_subscriberUuids t)"

definition addSubscriber :: "uuid \<Rightarrow> team \<Rightarrow> bool \<times> team" where
  "addSubscriber u t =
     (if isUserSubscribed t u then (False, t)
      else (True, t\<lparr>team_subscriberUuids := team_subscriberUuids t @ [u]\<rparr>))"

text \<open>\<open>std::ranges::remove\<close> moves the kept elements to the front in order and returns the
  leftover range; erasing that range leaves the filtered list.\<close>

definition removeSubscriber :: "uuid \<Rightarrow> team \<Rightarrow> bool \<times> team" where
  "removeSubscriber u t =
     (let kept = filter (\<lambda>v. v \<noteq> u) (team_subscriberUuids t) in
      if length kept = length (team_subscriberUuids t) then (False, t)
      else (True, t\<lparr>team_subscriberUuids := kept\<rparr>))"

section \<open>Member functions of User\<close>

definition isConnected :: "user \<Rightarrow> bool" where
  "isConnected u \<longleftrightarrow> usr_connectedCount u > 0"

definition setConnectionCount :: "int \<Rightarrow> user \<Rightarrow> user" where
  "setConnectionCount n u = u\<lparr>usr_connectedCount := (if n < 0 then 0 else n)\<rparr>"

definition incrementConnection :: "user \<Rightarrow> user" where
  "incrementConnection u = u\<lparr>usr_connectedCount := usr_connectedCount u + 1\<rparr>"

definition decrementConnection :: "user \<Rightarrow> user" where
  "decrementConnection u =
     (if usr_connectedCount u > 0 then u\<lparr>usr_connectedCount := usr_connectedCount u - 1\<rparr> else u)"

definition addMessage :: "uuid \<Rightarrow> message \<Rightarrow> user \<Rightarrow> user" where
  "addMessage k m u = u\<lparr>usr_messages := map_upsert k [] (\<lambda>ms. ms @ [m]) (usr_messages u)\<rparr>"

section \<open>Facts about the member functions\<close>

lemma isUserSubscribed_addSubscriber [simp]:
  "isUserSubscribed (snd (addSubscriber u t)) v \<longleftrightarrow> v = u \<or> isUserSubscribed t v"
  by (auto simp: addSubscriber_def isUserSubscribed_def)

lemma isUserSubscribed_removeSubscriber [simp]:
  "isUserSubscribed (snd (removeSubscriber u t)) v \<longleftrightarrow> v \<noteq> u \<and> isUserSubscribed t v"
proof (cases "length (filter (\<lambda>v. v \<noteq> u) (team_subscriberUuids t)) = length (team_subscriberUuids t)")
  case True
  then have "filter (\<lambda>v. v \<noteq> u) (team_subscriberUuids t) = team_subscriberUuids t"
    by (metis filter_id_conv length_filter_less less_irrefl)
  then have "u \<notin> set (team_subscriberUuids t)"
    by (auto simp: filter_id_conv)
  with True show ?thesis by (auto simp: removeSubscriber_def isUserSubscribed_def)
next
  case False
  then show ?thesis by (auto simp: removeSubscriber_def isUserSubscribed_def)
qed

lemma fst_addSubscriber [simp]: "fst (addSubscriber u t) \<longleftrightarrow> \<not> isUserSubscribed t u"
  by (simp add: addSubscriber_def)

lemma fst_removeSubscriber [simp]: "fst (removeSubscriber u t) \<longleftrightarrow> isUserSubscribed t u"
proof -
  have "length (filter (\<lambda>v. v \<noteq> u) xs) = length xs \<longleftrightarrow> u \<notin> set xs" for xs
    by (metis (mono_tags, lifting) filter_True length_filter_less nat_less_le)
  then show ?thesis by (simp add: removeSubscriber_def isUserSubscribed_def Let_def)
qed

lemma distinct_addSubscriber [inv_intros]:
  "distinct (team_subscriberUuids t) \<Longrightarrow> distinct (team_subscriberUuids (snd (addSubscriber u t)))"
  by (simp add: addSubscriber_def isUserSubscribed_def)

lemma distinct_removeSubscriber [inv_intros]:
  "distinct (team_subscriberUuids t) \<Longrightarrow> distinct (team_subscriberUuids (snd (removeSubscriber u t)))"
  by (simp add: removeSubscriber_def Let_def)

lemma team_fields_addSubscriber [frame_simps]:
  "team_uuid (snd (addSubscriber u t)) = team_uuid t"
  "team_name (snd (addSubscriber u t)) = team_name t"
  "team_description (snd (addSubscriber u t)) = team_description t"
  "team_channels (snd (addSubscriber u t)) = team_channels t"
  by (simp_all add: addSubscriber_def)

lemma team_fields_removeSubscriber [frame_simps]:
  "team_uuid (snd (removeSubscriber u t)) = team_uuid t"
  "team_name (snd (removeSubscriber u t)) = team_name t"
  "team_description (snd (removeSubscriber u t)) = team_description t"
  "team_channels (snd (removeSubscriber u t)) = team_channels t"
  by (simp_all add: removeSubscriber_def Let_def)

lemma user_fields_incrementConnection [frame_simps]:
  "usr_uuid (incrementConnection u) = usr_uuid u"
  "usr_name (incrementConnection u) = usr_name u"
  "usr_messages (incrementConnection u) = usr_messages u"
  "usr_teams (incrementConnection u) = usr_teams u"
  by (simp_all add: incrementConnection_def)

lemma user_fields_decrementConnection [frame_simps]:
  "usr_uuid (decrementConnection u) = usr_uuid u"
  "usr_name (decrementConnection u) = usr_name u"
  "usr_messages (decrementConnection u) = usr_messages u"
  "usr_teams (decrementConnection u) = usr_teams u"
  by (simp_all add: decrementConnection_def)

lemma user_fields_addMessage [frame_simps]:
  "usr_uuid (addMessage k m u) = usr_uuid u"
  "usr_name (addMessage k m u) = usr_name u"
  "usr_connectedCount (addMessage k m u) = usr_connectedCount u"
  "usr_teams (addMessage k m u) = usr_teams u"
  by (simp_all add: addMessage_def)

text \<open>The conversation of a user with an interlocutor, empty when the map has no entry.\<close>

definition conversation :: "user \<Rightarrow> uuid \<Rightarrow> message list" where
  "conversation u k = (case map_find k (usr_messages u) of None \<Rightarrow> [] | Some ms \<Rightarrow> ms)"

lemma conversation_addMessage:
  "map_ok (usr_messages u) \<Longrightarrow>
   conversation (addMessage k m u) j = (if j = k then conversation u k @ [m] else conversation u j)"
  by (simp add: conversation_def addMessage_def map_find_upsert)

lemma conversation_connection [simp]:
  "conversation (incrementConnection u) = conversation u"
  "conversation (decrementConnection u) = conversation u"
  by (simp_all add: conversation_def fun_eq_iff frame_simps)

end
