(* ===== verification/Database.thy ===== *)
theory Database
  imports Models
begin

text \<open>
  \<open>src/server/database/Database.cpp\<close>: the tables of users and teams and the lookups that
  return a pointer or \<open>nullptr\<close>. A lookup is an \<open>option\<close>; the write through the pointer
  it returned is the \<open>modify\<dots>\<close> operation with the same arguments, which changes the element
  the lookup found. The contract of a lookup and its write is the locale \<open>keyed_table\<close>; with
  \<open>push_back\<close> it is \<open>growing_table\<close>.
\<close>

record database =
  db_users :: "user list"
  db_teams :: "team list"

definition emptyDb :: database where
  "emptyDb = \<lparr>db_users = [], db_teams = []\<rparr>"

section \<open>Users\<close>

definition findUser :: "database \<Rightarrow> uuid \<Rightarrow> user option" where
  "findUser db u = find (\<lambda>x. usr_uuid x = u) (db_users db)"

definition findUserByName :: "database \<Rightarrow> string \<Rightarrow> user option" where
  "findUserByName db n = find (\<lambda>x. usr_name x = n) (db_users db)"

definition modifyUser :: "uuid \<Rightarrow> (user \<Rightarrow> user) \<Rightarrow> database \<Rightarrow> database" where
  "modifyUser u f db = db\<lparr>db_users := update_first (\<lambda>x. usr_uuid x = u) f (db_users db)\<rparr>"

definition modifyUserByName :: "string \<Rightarrow> (user \<Rightarrow> user) \<Rightarrow> database \<Rightarrow> database" where
  "modifyUserByName n f db = db\<lparr>db_users := update_first (\<lambda>x. usr_name x = n) f (db_users db)\<rparr>"

definition pushUser :: "user \<Rightarrow> database \<Rightarrow> database" where
  "pushUser x db = db\<lparr>db_users := db_users db @ [x]\<rparr>"

section \<open>Teams and channels\<close>

definition findTeam :: "database \<Rightarrow> uuid \<Rightarrow> team option" where
  "findTeam db t = find (\<lambda>x. team_uuid x = t) (db_teams db)"

definition modifyTeam :: "uuid \<Rightarrow> (team \<Rightarrow> team) \<Rightarrow> database \<Rightarrow> database" where
  "modifyTeam t f db = db\<lparr>db_teams := update_first (\<lambda>x. team_uuid x = t) f (db_teams db)\<rparr>"

definition pushTeam :: "team \<Rightarrow> database \<Rightarrow> database" where
  "pushTeam x db = db\<lparr>db_teams := db_teams db @ [x]\<rparr>"

definition findChannel :: "database \<Rightarrow> uuid \<Rightarrow> uuid \<Rightarrow> channel option" where
  "findChannel db t c =
     (case findTeam db t of
        None \<Rightarrow> None
      | Some x \<Rightarrow> find (\<lambda>y. chn_uuid y = c) (team_channels x))"

definition modifyChannel :: "uuid \<Rightarrow> uuid \<Rightarrow> (channel \<Rightarrow> channel) \<Rightarrow> database \<Rightarrow> database" where
  "modifyChannel t c f =
     modifyTeam t (\<lambda>x. x\<lparr>team_channels := update_first (\<lambda>y. chn_uuid y = c) f (team_channels x)\<rparr>)"

section \<open>Threads\<close>

text \<open>The two nested loops of \<open>findThread\<close>: the inner one is over the channels of a team and
  returns from the function (\<open>Some\<close> of the result) at the first channel with the wanted uuid,
  whether or not the thread is in it; it falls through (\<open>None\<close>) when the team has none.\<close>

fun findThread_channels :: "uuid \<Rightarrow> uuid \<Rightarrow> channel list \<Rightarrow> thread option option" where
  "findThread_channels c th [] = None"
| "findThread_channels c th (x # xs) =
     (if chn_uuid x \<noteq> c then findThread_channels c th xs
      else Some (find (\<lambda>y. thr_uuid y = th) (chn_threads x)))"

fun findThread_teams :: "uuid \<Rightarrow> uuid \<Rightarrow> team list \<Rightarrow> thread option" where
  "findThread_teams c th [] = None"
| "findThread_teams c th (x # xs) =
     (case findThread_channels c th (team_channels x) of
        Some r \<Rightarrow> r
      | None \<Rightarrow> findThread_teams c th xs)"

definition findThread :: "database \<Rightarrow> uuid \<Rightarrow> uuid \<Rightarrow> thread option" where
  "findThread db c th = findThread_teams c th (db_teams db)"

definition has_channel :: "uuid \<Rightarrow> team \<Rightarrow> bool" where
  "has_channel c t \<longleftrightarrow> c \<in> chn_uuid ` set (team_channels t)"

definition modifyThread_team :: "uuid \<Rightarrow> uuid \<Rightarrow> (thread \<Rightarrow> thread) \<Rightarrow> team \<Rightarrow> team" where
  "modifyThread_team c th f t = t\<lparr>team_channels :=
     update_first (\<lambda>y. chn_uuid y = c)
       (\<lambda>y. y\<lparr>chn_threads := update_first (\<lambda>z. thr_uuid z = th) f (chn_threads y)\<rparr>)
       (team_channels t)\<rparr>"

definition modifyThread :: "uuid \<Rightarrow> uuid \<Rightarrow> (thread \<Rightarrow> thread) \<Rightarrow> database \<Rightarrow> database" where
  "modifyThread c th f db = db\<lparr>db_teams :=
     update_first (has_channel c) (modifyThread_team c th f) (db_teams db)\<rparr>"

section \<open>The contract of a lookup and the write through its result\<close>

locale keyed_table =
  fixes lookup :: "'s \<Rightarrow> 'k \<Rightarrow> 'v option"
    and modify :: "'k \<Rightarrow> ('v \<Rightarrow> 'v) \<Rightarrow> 's \<Rightarrow> 's"
    and key :: "'v \<Rightarrow> 'k"
  assumes lookup_key: "lookup s k = Some v \<Longrightarrow> key v = k"
    and lookup_modify_same:
      "(\<And>v. key (f v) = key v) \<Longrightarrow> lookup (modify k f s) k = map_option f (lookup s k)"
    and lookup_modify_other:
      "(\<And>v. key (f v) = key v) \<Longrightarrow> j \<noteq> k \<Longrightarrow> lookup (modify k f s) j = lookup s j"
    and modify_absent: "lookup s k = None \<Longrightarrow> modify k f s = s"
begin

lemma lookup_modify:
  "(\<And>v. key (f v) = key v) \<Longrightarrow>
   lookup (modify k f s) j = (if j = k then map_option f (lookup s k) else lookup s j)"
  by (simp add: lookup_modify_same lookup_modify_other)

lemma modify_keeps_domain:
  "(\<And>v. key (f v) = key v) \<Longrightarrow> lookup (modify k f s) j = None \<longleftrightarrow> lookup s j = None"
  by (simp add: lookup_modify)

lemma modify_invisible:
  assumes "\<And>v. key (f v) = key v" and "\<And>v. g (f v) = g v"
  shows "map_option g (lookup (modify k f s) j) = map_option g (lookup s j)"
  using assms by (simp add: lookup_modify option.map_comp o_def)

end

locale growing_table = keyed_table +
  fixes push :: "'v \<Rightarrow> 's \<Rightarrow> 's"
  assumes lookup_push:
    "lookup (push v s) k =
       (case lookup s k of Some x \<Rightarrow> Some x | None \<Rightarrow> if key v = k then Some v else None)"
begin

lemma lookup_push_fresh:
  "lookup s (key v) = None \<Longrightarrow> lookup (push v s) k = (if k = key v then Some v else lookup s k)"
  by (auto simp: lookup_push split: option.splits)

lemma lookup_push_mono: "lookup s k = Some x \<Longrightarrow> lookup (push v s) k = Some x"
  by (simp add: lookup_push)

end

interpretation users: growing_table findUser modifyUser usr_uuid pushUser
proof
  show "findUser s k = Some v \<Longrightarrow> usr_uuid v = k" for s k v
    by (auto simp: findUser_def dest: find_Some_mem)
  show "(\<And>v. usr_uuid (f v) = usr_uuid v) \<Longrightarrow>
      findUser (modifyUser k f s) k = map_option f (findUser s k)" for f k s
    by (simp add: findUser_def modifyUser_def find_update_first_same)
  show "(\<And>v. usr_uuid (f v) = usr_uuid v) \<Longrightarrow> j \<noteq> k \<Longrightarrow>
      findUser (modifyUser k f s) j = findUser s j" for f j k s
    by (simp add: findUser_def modifyUser_def find_update_first_other)
  show "findUser s k = None \<Longrightarrow> modifyUser k f s = s" for s k f
    by (simp add: findUser_def modifyUser_def update_first_absent)
  show "findUser (pushUser v s) k =
      (case findUser s k of Some x \<Rightarrow> Some x | None \<Rightarrow> if usr_uuid v = k then Some v else None)"
    for v s k
    by (simp add: findUser_def pushUser_def find_append split: option.splits)
qed

interpretation teams: growing_table findTeam modifyTeam team_uuid pushTeam
proof
  show "findTeam s k = Some v \<Longrightarrow> team_uuid v = k" for s k v
    by (auto simp: findTeam_def dest: find_Some_mem)
  show "(\<And>v. team_uuid (f v) = team_uuid v) \<Longrightarrow>
      findTeam (modifyTeam k f s) k = map_option f (findTeam s k)" for f k s
    by (simp add: findTeam_def modifyTeam_def find_update_first_same)
  show "(\<And>v. team_uuid (f v) = team_uuid v) \<Longrightarrow> j \<noteq> k \<Longrightarrow>
      findTeam (modifyTeam k f s) j = findTeam s j" for f j k s
    by (simp add: findTeam_def modifyTeam_def find_update_first_other)
  show "findTeam s k = None \<Longrightarrow> modifyTeam k f s = s" for s k f
    by (simp add: findTeam_def modifyTeam_def update_first_absent)
  show "findTeam (pushTeam v s) k =
      (case findTeam s k of Some x \<Rightarrow> Some x | None \<Rightarrow> if team_uuid v = k then Some v else None)"
    for v s k
    by (simp add: findTeam_def pushTeam_def find_append split: option.splits)
qed

section \<open>Frame facts\<close>

lemma db_frames [frame_simps]:
  "db_teams (modifyUser u f db) = db_teams db"
  "db_teams (modifyUserByName n f db) = db_teams db"
  "db_teams (pushUser x db) = db_teams db"
  "db_users (modifyTeam t g db) = db_users db"
  "db_users (pushTeam y db) = db_users db"
  "db_users (modifyChannel t c h db) = db_users db"
  "db_users (modifyThread c th k db) = db_users db"
  by (simp_all add: modifyUser_def modifyUserByName_def pushUser_def modifyTeam_def pushTeam_def
      modifyChannel_def modifyThread_def)

lemma find_frames:
  "db_users db' = db_users db \<Longrightarrow> findUser db' = findUser db"
  "db_users db' = db_users db \<Longrightarrow> findUserByName db' = findUserByName db"
  "db_teams db' = db_teams db \<Longrightarrow> findTeam db' = findTeam db"
  "db_teams db' = db_teams db \<Longrightarrow> findChannel db' = findChannel db"
  "db_teams db' = db_teams db \<Longrightarrow> findThread db' = findThread db"
  by (simp_all add: fun_eq_iff findUser_def findUserByName_def findTeam_def findChannel_def
      findThread_def)

section \<open>The nested search against a flat one\<close>

lemma findThread_channels_flat:
  "findThread_channels c th xs =
     map_option (\<lambda>x. find (\<lambda>y. thr_uuid y = th) (chn_threads x)) (find (\<lambda>y. chn_uuid y = c) xs)"
  by (induction xs) auto

lemma findThread_teams_flat:
  "findThread_teams c th ts =
     (case find (\<lambda>y. chn_uuid y = c) (concat (map team_channels ts)) of
        None \<Rightarrow> None
      | Some x \<Rightarrow> find (\<lambda>y. thr_uuid y = th) (chn_threads x))"
  by (induction ts) (auto simp: findThread_channels_flat find_append split: option.splits)

text \<open>The nested search of \<open>findThread\<close>, which leaves both loops at the first channel with the
  wanted uuid, is the search of the first such channel over all teams followed by the search of the
  thread in it.\<close>

theorem findThread_flat:
  "findThread db c th =
     (case find (\<lambda>y. chn_uuid y = c) (concat (map team_channels (db_teams db))) of
        None \<Rightarrow> None
      | Some x \<Rightarrow> find (\<lambda>y. thr_uuid y = th) (chn_threads x))"
  by (simp add: findThread_def findThread_teams_flat)

end
