(* ===== verification/Wire.thy ===== *)
theory Wire
  imports Prelude
begin

text \<open>
  The text level of the protocol: \<open>Utils::quoteProtocolField\<close>, which the server uses to
  write a field, and the two tokenizers, \<open>parseArgs\<close> of the server
  (\<open>src/server/commands/commandHandling/commandHandling.cpp\<close>) and \<open>TokenParser::parse\<close> of
  the client (\<open>src/client/protocol/TokenParser.cpp\<close>). Both read words with
  \<open>std::istringstream::operator>>\<close>. The reference semantics of the tokenizers is a function
  on the list of words of the line; the round trips of a rendered frame are proved there.

  A failure of the program that is not a value is \<open>exn\<close>: a thrown \<open>std::system_error\<close>
  with the name of the system call, or undefined behaviour of C++, which the model makes a
  result of its own instead of choosing an outcome for it.
\<close>

datatype exn = Undefined_behaviour | System_error string

section \<open>Reading words\<close>

definition getWord :: "string \<Rightarrow> (string \<times> string) option" where
  "getWord s = (let t = dropWhile isspace s in
     if t = [] then None
     else Some (takeWhile (\<lambda>c. \<not> isspace c) t, dropWhile (\<lambda>c. \<not> isspace c) t))"

lemma getWord_shorter: "getWord s = Some (w, r) \<Longrightarrow> length r < length s"
proof -
  assume a: "getWord s = Some (w, r)"
  define t where "t = dropWhile isspace s"
  from a have t: "t \<noteq> []" and r: "r = dropWhile (\<lambda>c. \<not> isspace c) t"
    by (auto simp: getWord_def t_def Let_def split: if_splits)
  have "\<not> isspace (hd t)" using t hd_dropWhile [of isspace s] by (simp add: t_def)
  with t have "length r < length t"
    unfolding r by (cases t) (auto intro: le_less_trans [OF length_dropWhile_le])
  also have "length t \<le> length s" by (simp add: t_def length_dropWhile_le)
  finally show ?thesis .
qed

lemma getWord_nonempty: "getWord s = Some (w, r) \<Longrightarrow> w \<noteq> []"
proof -
  assume a: "getWord s = Some (w, r)"
  define t where "t = dropWhile isspace s"
  from a have t: "t \<noteq> []" and w: "w = takeWhile (\<lambda>c. \<not> isspace c) t"
    by (auto simp: getWord_def t_def Let_def split: if_splits)
  have "\<not> isspace (hd t)" using t hd_dropWhile [of isspace s] by (simp add: t_def)
  with t w show ?thesis by (cases t) auto
qed

section \<open>The server's argument parser\<close>

text \<open>The inner loop: words are appended to the quoted argument until one ends in a double
  quote, which is then dropped; \<open>None\<close> when the stream is exhausted first.\<close>

function parseQuoted :: "string \<Rightarrow> string \<Rightarrow> (string \<times> string) option" where
  "parseQuoted q s =
     (case getWord s of
        None \<Rightarrow> None
      | Some (w, r) \<Rightarrow>
          if last w = DQ then Some (butlast (q @ SP # w), r) else parseQuoted (q @ SP # w) r)"
  by pat_completeness auto
termination
  by (relation "measure (\<lambda>(q, s). length s)") (auto dest: getWord_shorter)

lemma parseQuoted_shorter: "parseQuoted q s = Some (a, r) \<Longrightarrow> length r < length s"
proof (induction q s rule: parseQuoted.induct)
  case (1 q s)
  show ?case
  proof (cases "getWord s")
    case None
    with "1.prems" show ?thesis by (simp add: parseQuoted.simps [of q s])
  next
    case (Some p)
    obtain w r' where p: "p = (w, r')" by fastforce
    have short: "length r' < length s" using getWord_shorter Some p by blast
    show ?thesis
    proof (cases "last w = DQ")
      case True
      with "1.prems" Some p short show ?thesis by (auto simp: parseQuoted.simps [of q s])
    next
      case False
      with "1.prems" Some p have "parseQuoted (q @ SP # w) r' = Some (a, r)"
        by (simp add: parseQuoted.simps [of q s])
      with "1.IH" [OF Some p [symmetric] False] short show ?thesis by (simp add: p)
    qed
  qed
qed

lemma quoted_rest_shorter:
  "getWord s = Some (w, r) \<Longrightarrow> parseQuoted q r = Some (a, r') \<Longrightarrow> length r' < length s"
  using getWord_shorter parseQuoted_shorter by (blast intro: less_trans)

declare parseQuoted.simps [simp del]

text \<open>The outer loop. \<open>quotedArg.back()\<close> on the empty remainder of a word that is a lone
  double quote is undefined behaviour. An argument whose closing quote never comes is dropped.\<close>

function parseArgs_loop :: "string list \<Rightarrow> string \<Rightarrow> exn + string list" where
  "parseArgs_loop arguments s =
     (case getWord s of
        None \<Rightarrow> Inr arguments
      | Some (w, r) \<Rightarrow>
          if hd w = DQ then
            (let q = tl w in
             if q = [] then Inl Undefined_behaviour
             else if last q = DQ then parseArgs_loop (arguments @ [butlast q]) r
             else (case parseQuoted q r of
                     None \<Rightarrow> Inr arguments
                   | Some (a, r') \<Rightarrow> parseArgs_loop (arguments @ [a]) r'))
          else parseArgs_loop (arguments @ [w]) r)"
  by pat_completeness auto
termination
  by (relation "measure (\<lambda>(as, s). length s)")
    (auto dest: getWord_shorter quoted_rest_shorter)

declare parseArgs_loop.simps [simp del]

lemma parseArgs_loop_error: "parseArgs_loop as s = Inl x \<Longrightarrow> x = Undefined_behaviour"
proof (induction as s rule: parseArgs_loop.induct)
  case (1 as s)
  then show ?case
    by (subst (asm) (3) parseArgs_loop.simps)
      (auto simp: Let_def split: option.splits prod.splits if_splits)
qed

definition parseArgs :: "string \<Rightarrow> exn + string list" where
  "parseArgs rawCommand = parseArgs_loop [] rawCommand"

section \<open>The client's tokenizer\<close>

text \<open>Its inner loop is the same loop; \<open>!nextWord.empty()\<close> always holds for an extracted
  word.\<close>

function TokenParser_loop :: "string list \<Rightarrow> string \<Rightarrow> string list option" where
  "TokenParser_loop tokens s =
     (case getWord s of
        None \<Rightarrow> Some tokens
      | Some (w, r) \<Rightarrow>
          if hd w = DQ then
            (let q = tl w in
             if q \<noteq> [] \<and> last q = DQ then TokenParser_loop (tokens @ [butlast q]) r
             else (case parseQuoted q r of
                     None \<Rightarrow> None
                   | Some (a, r') \<Rightarrow> TokenParser_loop (tokens @ [a]) r'))
          else TokenParser_loop (tokens @ [w]) r)"
  by pat_completeness auto
termination
  by (relation "measure (\<lambda>(ts, s). length s)")
    (auto dest: getWord_shorter quoted_rest_shorter)

declare TokenParser_loop.simps [simp del]

definition TokenParser_parse :: "string \<Rightarrow> string list option" where
  "TokenParser_parse rawFrame = TokenParser_loop [] rawFrame"

section \<open>Writing a field\<close>

fun escape :: "string \<Rightarrow> string" where
  "escape [] = []"
| "escape (c # cs) = (if c = BSL \<or> c = DQ then BSL # c # escape cs else c # escape cs)"

definition quoteProtocolField :: "string \<Rightarrow> string" where
  "quoteProtocolField v = DQ # escape v @ [DQ]"

section \<open>Words and their rendering\<close>

function words :: "string \<Rightarrow> string list" where
  "words s = (case getWord s of None \<Rightarrow> [] | Some (w, r) \<Rightarrow> w # words r)"
  by pat_completeness auto
termination
  by (relation "measure length") (auto dest: getWord_shorter)

declare words.simps [simp del]

fun join_sp :: "string list \<Rightarrow> string" where
  "join_sp [] = []"
| "join_sp [w] = w"
| "join_sp (w # ws) = w @ SP # join_sp ws"

definition plain_word :: "string \<Rightarrow> bool" where
  "plain_word w \<longleftrightarrow> w \<noteq> [] \<and> list_all (\<lambda>c. \<not> isspace c) w"

text \<open>Text that survives quoting: single spaces between words, none at either end, and no word
  that ends in a double quote.\<close>

definition quotable :: "string \<Rightarrow> bool" where
  "quotable v \<longleftrightarrow> join_sp (words v) = v \<and> list_all (\<lambda>w. last w \<noteq> DQ) (words v)"

lemma isspace_SP [simp]: "isspace SP" by (simp add: isspace_def)
lemma isspace_DQ [simp]: "\<not> isspace DQ" by (simp add: isspace_def)
lemma isspace_BSL [simp]: "\<not> isspace BSL" by (simp add: isspace_def)

lemma getWord_SP [simp]: "getWord (SP # s) = getWord s"
  by (simp add: getWord_def)

lemma getWord_Nil [simp]: "getWord [] = None"
  by (simp add: getWord_def)

abbreviation at_break :: "string \<Rightarrow> bool" where
  "at_break r \<equiv> (r = [] \<or> isspace (hd r))"

lemma getWord_plain:
  assumes "plain_word w" and "at_break r"
  shows "getWord (w @ r) = Some (w, r)"
proof -
  from assms(1) have ne: "w \<noteq> []" and ns: "\<forall>c \<in> set w. \<not> isspace c"
    by (auto simp: plain_word_def list_all_iff)
  then have "dropWhile isspace (w @ r) = w @ r" by (cases w) auto
  moreover have "takeWhile (\<lambda>c. \<not> isspace c) (w @ r) = w"
    using ns assms(2) by (cases r) (auto simp: takeWhile_append2)
  moreover have "dropWhile (\<lambda>c. \<not> isspace c) (w @ r) = r"
    using ns assms(2) by (cases r) (auto simp: dropWhile_append2)
  ultimately show ?thesis using ne by (simp add: getWord_def)
qed

lemma words_plain: "list_all plain_word (words s)"
proof (induction s rule: words.induct)
  case (1 s)
  show ?case
  proof (cases "getWord s")
    case None
    then show ?thesis by (simp add: words.simps [of s])
  next
    case (Some p)
    obtain w r where p: "p = (w, r)" by fastforce
    have "w \<noteq> []" using getWord_nonempty Some p by blast
    moreover have "\<forall>c \<in> set w. \<not> isspace c"
      using Some p by (auto simp: getWord_def Let_def dest: set_takeWhileD split: if_splits)
    ultimately have "plain_word w" by (simp add: plain_word_def list_all_iff)
    with "1.IH" [OF Some p [symmetric]] Some p show ?thesis by (simp add: words.simps [of s])
  qed
qed

lemma join_sp_Cons: "ws \<noteq> [] \<Longrightarrow> join_sp (w # ws) = w @ SP # join_sp ws"
  by (cases ws) auto

section \<open>Both tokenizers on rendered text\<close>

lemma plain_word_quote [simp]: "list_all (\<lambda>c. \<not> isspace c) w \<Longrightarrow> plain_word (w @ [DQ])"
  by (simp add: plain_word_def)

lemma plain_word_DQ [simp]: "list_all (\<lambda>c. \<not> isspace c) w \<Longrightarrow> plain_word (DQ # w)"
  by (simp add: plain_word_def)

lemma parseQuoted_words:
  assumes "ws \<noteq> []" and "list_all plain_word ws" and "list_all (\<lambda>w. last w \<noteq> DQ) ws" and "at_break r"
  shows "parseQuoted q (SP # join_sp ws @ DQ # r) = Some (q @ SP # join_sp ws, r)"
  using assms(1-3)
proof (induction ws arbitrary: q rule: join_sp.induct)
  case (2 w)
  have "getWord (SP # (w @ [DQ]) @ r) = Some (w @ [DQ], r)"
    using getWord_plain [OF _ assms(4), of "w @ [DQ]"] "2.prems" by (simp add: plain_word_def)
  then show ?case by (simp add: parseQuoted.simps butlast_append)
next
  case (3 w v vs)
  have "getWord (SP # w @ SP # join_sp (v # vs) @ DQ # r) = Some (w, SP # join_sp (v # vs) @ DQ # r)"
    using getWord_plain [of w "SP # join_sp (v # vs) @ DQ # r"] "3.prems" by simp
  with "3.prems" "3.IH" [of "q @ SP # w"] show ?case
    by (simp add: parseQuoted.simps [of q])
qed simp

text \<open>One quoted field, as both loops see it: the first word decides, and the words after it are
  the business of \<open>parseQuoted\<close>.\<close>

lemma getWord_field_single:
  assumes "list_all (\<lambda>c. \<not> isspace c) w" and "at_break r"
  shows "getWord (DQ # w @ DQ # r) = Some (DQ # w @ [DQ], r)"
  using getWord_plain [of "DQ # w @ [DQ]" r] assms by (simp add: plain_word_def)

lemma getWord_field_multi:
  assumes "plain_word w"
  shows "getWord (DQ # w @ SP # r) = Some (DQ # w, SP # r)"
  using getWord_plain [of "DQ # w" "SP # r"] assms by (simp add: plain_word_def)

text \<open>
  The contract both tokenizer loops keep, and what follows from it for rendered text. The server
  and the client differ only in what they do with a lone quote and with a missing closing quote.
\<close>

datatype field = Bare string | Quoted string

fun render_field :: "field \<Rightarrow> string" where
  "render_field (Bare w) = w"
| "render_field (Quoted v) = DQ # v @ [DQ]"

fun field_token :: "field \<Rightarrow> string" where
  "field_token (Bare w) = w"
| "field_token (Quoted v) = v"

fun field_ok :: "field \<Rightarrow> bool" where
  "field_ok (Bare w) = (plain_word w \<and> hd w \<noteq> DQ)"
| "field_ok (Quoted v) = quotable v"

definition render :: "field list \<Rightarrow> string" where
  "render fs = join_sp (map render_field fs)"

locale tokenizer =
  fixes loop :: "string list \<Rightarrow> string \<Rightarrow> 'r"
    and final :: "string list \<Rightarrow> 'r"
  assumes loop_end: "loop ts [] = final ts"
    and loop_blank: "loop ts (SP # s) = loop ts s"
    and loop_bare: "getWord s = Some (w, r) \<Longrightarrow> hd w \<noteq> DQ \<Longrightarrow> loop ts s = loop (ts @ [w]) r"
    and loop_closed: "getWord s = Some (DQ # q @ [DQ], r) \<Longrightarrow> loop ts s = loop (ts @ [q]) r"
    and loop_open:
      "getWord s = Some (DQ # q, r) \<Longrightarrow> q \<noteq> [] \<Longrightarrow> last q \<noteq> DQ \<Longrightarrow>
       parseQuoted q r = Some (a, r') \<Longrightarrow> loop ts s = loop (ts @ [a]) r'"
begin

lemma loop_words:
  assumes "list_all plain_word ws" and "list_all (\<lambda>w. last w \<noteq> DQ) ws" and "at_break r"
  shows "loop ts (DQ # join_sp ws @ DQ # r) = loop (ts @ [join_sp ws]) r"
proof (cases ws rule: join_sp.cases)
  case 1
  with getWord_field_single [of "[]" r] assms(3) show ?thesis
    by (simp add: loop_closed [of _ "[]"])
next
  case (2 w)
  with assms have "list_all (\<lambda>c. \<not> isspace c) w" by (simp add: plain_word_def)
  from loop_closed [OF getWord_field_single [OF this assms(3)]] 2 show ?thesis by simp
next
  case (3 w v vs)
  with assms have w: "plain_word w" "last w \<noteq> DQ" "w \<noteq> []" by (auto simp: plain_word_def)
  have "parseQuoted w (SP # join_sp (v # vs) @ DQ # r) = Some (w @ SP # join_sp (v # vs), r)"
    using assms 3 by (intro parseQuoted_words) auto
  from loop_open [OF getWord_field_multi [OF w(1)] w(3,2) this] 3 show ?thesis by simp
qed

lemma loop_field:
  assumes "field_ok f" and "at_break r"
  shows "loop ts (render_field f @ r) = loop (ts @ [field_token f]) r"
proof (cases f)
  case (Bare w)
  with assms have "getWord (w @ r) = Some (w, r)" and "hd w \<noteq> DQ"
    by (auto intro: getWord_plain)
  with Bare show ?thesis by (simp add: loop_bare)
next
  case (Quoted v)
  with assms have "join_sp (words v) = v" and "list_all (\<lambda>w. last w \<noteq> DQ) (words v)"
    by (auto simp: quotable_def)
  with loop_words [OF words_plain this(2) assms(2)] Quoted show ?thesis by simp
qed

lemma loop_render:
  "list_all field_ok fs \<Longrightarrow> loop ts (render fs) = final (ts @ map field_token fs)"
proof (induction fs arbitrary: ts)
  case Nil
  then show ?case by (simp add: render_def loop_end)
next
  case (Cons f fs)
  show ?case
  proof (cases fs)
    case Nil
    with Cons.prems loop_field [of f "[]"] show ?thesis by (simp add: render_def loop_end)
  next
    case (Cons g gs)
    have "render (f # fs) = render_field f @ SP # render fs"
      by (simp add: render_def Cons)
    with Cons.prems Cons.IH loop_field [of f "SP # render fs"] show ?thesis
      by (simp add: loop_blank)
  qed
qed

end

lemma loop_blanks:
  "TokenParser_loop ts (SP # s) = TokenParser_loop ts s"
  "parseArgs_loop ts (SP # s) = parseArgs_loop ts s"
  by (simp_all add: TokenParser_loop.simps [of ts "SP # s"] TokenParser_loop.simps [of ts s]
      parseArgs_loop.simps [of ts "SP # s"] parseArgs_loop.simps [of ts s])

interpretation client_tok: tokenizer TokenParser_loop Some
proof
  fix ts s w r q a r'
  show "TokenParser_loop ts [] = Some ts" by (simp add: TokenParser_loop.simps)
  show "TokenParser_loop ts (SP # s) = TokenParser_loop ts s" by (rule loop_blanks)
  show "getWord s = Some (w, r) \<Longrightarrow> hd w \<noteq> DQ \<Longrightarrow> TokenParser_loop ts s = TokenParser_loop (ts @ [w]) r"
    by (simp add: TokenParser_loop.simps [of ts s])
  show "getWord s = Some (DQ # q @ [DQ], r) \<Longrightarrow> TokenParser_loop ts s = TokenParser_loop (ts @ [q]) r"
    by (simp add: TokenParser_loop.simps [of ts s])
  show "getWord s = Some (DQ # q, r) \<Longrightarrow> q \<noteq> [] \<Longrightarrow> last q \<noteq> DQ \<Longrightarrow> parseQuoted q r = Some (a, r') \<Longrightarrow>
      TokenParser_loop ts s = TokenParser_loop (ts @ [a]) r'"
    by (simp add: TokenParser_loop.simps [of ts s])
qed

interpretation server_tok: tokenizer parseArgs_loop Inr
proof
  fix ts s w r q a r'
  show "parseArgs_loop ts [] = Inr ts" by (simp add: parseArgs_loop.simps)
  show "parseArgs_loop ts (SP # s) = parseArgs_loop ts s" by (rule loop_blanks)
  show "getWord s = Some (w, r) \<Longrightarrow> hd w \<noteq> DQ \<Longrightarrow> parseArgs_loop ts s = parseArgs_loop (ts @ [w]) r"
    by (simp add: parseArgs_loop.simps [of ts s])
  show "getWord s = Some (DQ # q @ [DQ], r) \<Longrightarrow> parseArgs_loop ts s = parseArgs_loop (ts @ [q]) r"
    by (simp add: parseArgs_loop.simps [of ts s])
  show "getWord s = Some (DQ # q, r) \<Longrightarrow> q \<noteq> [] \<Longrightarrow> last q \<noteq> DQ \<Longrightarrow> parseQuoted q r = Some (a, r') \<Longrightarrow>
      parseArgs_loop ts s = parseArgs_loop (ts @ [a]) r'"
    by (simp add: parseArgs_loop.simps [of ts s])
qed

section \<open>Escaping\<close>

lemma escape_append [simp]: "escape (a @ b) = escape a @ escape b"
  by (induction a) auto

lemma escape_SP [simp]: "escape (SP # b) = SP # escape b"
  by simp

lemma escape_join_sp: "escape (join_sp ws) = join_sp (map escape ws)"
  by (induction ws rule: join_sp.induct) auto

lemma escape_Nil_iff [simp]: "escape w = [] \<longleftrightarrow> w = []"
  by (cases w) auto

lemma last_escape: "w \<noteq> [] \<Longrightarrow> last (escape w) = last w"
  by (induction w) auto

lemma nonspace_escape:
  "list_all (\<lambda>c. \<not> isspace c) w \<Longrightarrow> list_all (\<lambda>c. \<not> isspace c) (escape w)"
  by (induction w) auto

lemma plain_word_escape: "plain_word w \<Longrightarrow> plain_word (escape w)"
  by (simp add: plain_word_def nonspace_escape)

lemma escape_length: "length (escape v) = length v + length (filter (\<lambda>c. c = BSL \<or> c = DQ) v)"
  by (induction v) auto

lemma escape_id_iff: "escape v = v \<longleftrightarrow> BSL \<notin> set v \<and> DQ \<notin> set v"
proof
  assume "escape v = v"
  with escape_length [of v] have "filter (\<lambda>c. c = BSL \<or> c = DQ) v = []" by simp
  then show "BSL \<notin> set v \<and> DQ \<notin> set v" by (auto simp: filter_empty_conv)
qed (induction v, auto)

lemma words_join_sp: "list_all plain_word ws \<Longrightarrow> words (join_sp ws) = ws"
proof (induction ws rule: join_sp.induct)
  case (2 w)
  with getWord_plain [of w "[]"] show ?case by (simp add: words.simps)
next
  case (3 w v vs)
  have "words (SP # s) = words s" for s
    by (simp add: words.simps [of "SP # s"] words.simps [of s])
  with 3 getWord_plain [of w "SP # join_sp (v # vs)"] show ?case
    by (simp add: words.simps [of "w @ _"])
qed (simp add: words.simps)

lemma quotable_escape:
  assumes "quotable v"
  shows "quotable (escape v)"
proof -
  let ?ws = "words v"
  have plain: "list_all plain_word (map escape ?ws)"
    using words_plain [of v] plain_word_escape by (simp add: list_all_iff)
  from assms have v: "escape v = join_sp (map escape ?ws)"
    by (metis quotable_def escape_join_sp)
  have "list_all (\<lambda>w. last w \<noteq> DQ) (map escape ?ws)"
    using assms words_plain [of v] by (auto simp: quotable_def list_all_iff plain_word_def last_escape)
  with plain v show ?thesis by (simp add: quotable_def words_join_sp)
qed

lemma quoteProtocolField_render: "quoteProtocolField v = render_field (Quoted (escape v))"
  by (simp add: quoteProtocolField_def)

section \<open>Where the two tokenizers agree\<close>

lemma TokenParser_loop_acc: "TokenParser_loop ts s = map_option ((@) ts) (TokenParser_loop [] s)"
proof (induction s arbitrary: ts rule: measure_induct_rule [of length])
  case (less s)
  show ?case
  proof (cases "getWord s")
    case None
    then show ?thesis by (simp add: TokenParser_loop.simps [of _ s])
  next
    case (Some p)
    obtain w r where p: "p = (w, r)" by fastforce
    have r: "length r < length s" using getWord_shorter Some p by blast
    have r': "length r' < length s" if "parseQuoted q r = Some (a, r')" for q a r'
      using quoted_rest_shorter Some p that by blast
    have step: "TokenParser_loop (ts @ us) x = map_option ((@) ts) (TokenParser_loop us x)"
      if "length x < length s" for us x
      using less.IH [OF that, of "ts @ us"] less.IH [OF that, of us] by (simp add: option.map_comp comp_def)
    show ?thesis
      using step [OF r, of "[w]"] step [OF r, of "[butlast (tl w)]"] step [OF r']
      by (auto simp: TokenParser_loop.simps [of _ s] Some p Let_def split: option.split)
  qed
qed

text \<open>The server reads the tokens of the client, unless one of them begins with a blank: then a word is a lone
  double quote.\<close>

definition begins_blank :: "string \<Rightarrow> bool" where
  "begins_blank a \<longleftrightarrow> a \<noteq> [] \<and> isspace (hd a)"

lemma parseQuoted_hd: "parseQuoted q s = Some (a, r) \<Longrightarrow> a \<noteq> [] \<and> hd a = hd (q @ [SP])"
proof (induction q s rule: parseQuoted.induct)
  case (1 q s)
  then obtain w r' where g: "getWord s = Some (w, r')" by (auto simp: parseQuoted.simps [of q s] split: option.splits)
  show ?case
  proof (cases "last w = DQ")
    case True
    with "1.prems" g have "a = butlast (q @ SP # w)" by (simp add: parseQuoted.simps [of q s])
    with getWord_nonempty [OF g] show ?thesis by (cases q) (simp_all add: butlast_append)
  next
    case False
    with "1.prems" g have "parseQuoted (q @ SP # w) r' = Some (a, r)" by (simp add: parseQuoted.simps [of q s])
    with "1.IH" [OF g refl False] show ?thesis by (cases q) simp_all
  qed
qed

lemma getWord_plain_word:
  assumes "getWord s = Some (w, r)"
  shows "plain_word w"
proof -
  have "\<forall>c \<in> set w. \<not> isspace c" using assms by (auto simp: getWord_def Let_def dest: set_takeWhileD split: if_splits)
  then show ?thesis using getWord_nonempty [OF assms] by (simp add: plain_word_def list_all_iff)
qed

lemma plain_not_blank: "list_all (\<lambda>c. \<not> isspace c) w \<Longrightarrow> \<not> begins_blank w"
  by (cases w) (simp_all add: begins_blank_def)

lemma server_reads_loop:
  "TokenParser_loop ts s = Some (ts @ us) \<Longrightarrow>
   parseArgs_loop ts s = (if list_ex begins_blank us then Inl Undefined_behaviour else Inr (ts @ us))"
proof (induction ts s arbitrary: us rule: TokenParser_loop.induct)
  case (1 ts s)
  show ?case
  proof (cases "getWord s")
    case None
    with "1.prems" show ?thesis by (simp add: parseArgs_loop.simps TokenParser_loop.simps)
  next
    case (Some p)
    obtain w r where p: "p = (w, r)" by fastforce
    have w: "list_all (\<lambda>c. \<not> isspace c) w" using getWord_plain_word Some p by (simp add: plain_word_def)
    note unf = parseArgs_loop.simps [of ts s] TokenParser_loop.simps [of ts s] Some p Let_def
    consider (bare) "hd w \<noteq> DQ" | (closed) "hd w = DQ" "tl w \<noteq> [] \<and> last (tl w) = DQ"
      | (opened) "hd w = DQ" "\<not> (tl w \<noteq> [] \<and> last (tl w) = DQ)" by blast
    then show ?thesis
    proof cases
      case bare
      then have t: "TokenParser_loop (ts @ [w]) r = Some (ts @ us)" using "1.prems" by (simp add: unf)
      then obtain vs where "us = w # vs" using TokenParser_loop_acc [of "ts @ [w]" r] by auto
      with "1.IH"(3) [OF Some p [symmetric] bare, of vs] t bare plain_not_blank [OF w] show ?thesis by (simp add: unf)
    next
      case closed
      let ?a = "butlast (tl w)"
      have t: "TokenParser_loop (ts @ [?a]) r = Some (ts @ us)" using "1.prems" closed by (simp add: unf)
      then obtain vs where u: "us = ?a # vs" using TokenParser_loop_acc [of "ts @ [?a]" r] by auto
      have "list_all (\<lambda>c. \<not> isspace c) ?a" using w by (cases w) (auto simp: list_all_iff dest: in_set_butlastD)
      from plain_not_blank [OF this] "1.IH"(1) [OF Some p [symmetric] closed(1) refl closed(2), of vs] t u closed
      show ?thesis by (simp add: unf)
    next
      case opened
      with "1.prems" obtain a r' where q: "parseQuoted (tl w) r = Some (a, r')"
        and t: "TokenParser_loop (ts @ [a]) r' = Some (ts @ us)" by (auto simp: unf split: option.splits)
      then obtain vs where u: "us = a # vs" using TokenParser_loop_acc [of "ts @ [a]" r'] by auto
      have a: "begins_blank a \<longleftrightarrow> tl w = []"
        using parseQuoted_hd [OF q] w by (cases w; cases "tl w") (simp_all add: begins_blank_def)
      show ?thesis
      proof (cases "tl w = []")
        case True
        with a u opened show ?thesis by (simp add: unf)
      next
        case False
        with a u opened q t "1.IH"(2) [OF Some p [symmetric] opened(1) refl opened(2) q refl, of vs] show ?thesis
          by (simp add: unf)
      qed
    qed
  qed
qed

lemma server_reads:
  "TokenParser_parse s = Some us \<Longrightarrow>
   parseArgs s = (if list_ex begins_blank us then Inl Undefined_behaviour else Inr us)"
  using server_reads_loop [of "[]" s us] by (simp add: parseArgs_def TokenParser_parse_def)

section \<open>Round trips\<close>

text \<open>A frame written as bare words and quoted fields separated by single spaces is
  tokenized by the client into exactly those words and fields, when every quoted text is
  quotable.\<close>

theorem TokenParser_parse_render:
  assumes "list_all field_ok fs"
  shows "TokenParser_parse (render fs) = Some (map field_token fs)"
  using client_tok.loop_render [OF assms, of "[]"] by (simp add: TokenParser_parse_def)

theorem TokenParser_parse_render_witness:
  "list_all field_ok [Bare ''210'', Quoted ''u-1'', Quoted ''bob b'', Bare ''1''] \<and>
   TokenParser_parse (render [Bare ''210'', Quoted ''u-1'', Quoted ''bob b'', Bare ''1''])
     = Some [''210'', ''u-1'', ''bob b'', ''1'']"
proof -
  have ok: "list_all field_ok [Bare ''210'', Quoted ''u-1'', Quoted ''bob b'', Bare ''1'']"
    by code_simp
  from TokenParser_parse_render [OF ok] ok show ?thesis by simp
qed

text \<open>The server splits a command line of the same form into the command and exactly the
  arguments the client typed.\<close>

theorem parseArgs_render:
  assumes "list_all field_ok fs"
  shows "parseArgs (render fs) = Inr (map field_token fs)"
  using server_tok.loop_render [OF assms, of "[]"] by (simp add: parseArgs_def)

theorem parseArgs_render_witness:
  "list_all field_ok [Bare ''/send'', Quoted ''u-2'', Quoted ''hello beta''] \<and>
   parseArgs (render [Bare ''/send'', Quoted ''u-2'', Quoted ''hello beta''])
     = Inr [''/send'', ''u-2'', ''hello beta'']"
proof -
  have ok: "list_all field_ok [Bare ''/send'', Quoted ''u-2'', Quoted ''hello beta'']"
    by code_simp
  from parseArgs_render [OF ok] ok show ?thesis by simp
qed

text \<open>C38. Escaping is not undone at the other end: the client reads a field written with
  \<open>quoteProtocolField\<close> as the escaped text, so it gets the original back exactly when the field
  has no backslash and no double quote.\<close>

theorem quoteProtocolField_token:
  assumes "quotable v"
  shows "TokenParser_parse (quoteProtocolField v) = Some [escape v]
    \<and> (TokenParser_parse (quoteProtocolField v) = Some [v] \<longleftrightarrow> BSL \<notin> set v \<and> DQ \<notin> set v)"
proof -
  have "list_all field_ok [Quoted (escape v)]" using assms by (simp add: quotable_escape)
  from client_tok.loop_render [OF this, of "[]"]
  have "TokenParser_parse (quoteProtocolField v) = Some [escape v]"
    by (simp add: TokenParser_parse_def render_def quoteProtocolField_render)
  then show ?thesis by (simp add: escape_id_iff)
qed

theorem quoteProtocolField_token_witness:
  "quotable [CHR ''a'', BSL, CHR ''b''] \<and>
   TokenParser_parse (quoteProtocolField [CHR ''a'', BSL, CHR ''b''])
     = Some [[CHR ''a'', BSL, BSL, CHR ''b'']]"
proof -
  have q: "quotable [CHR ''a'', BSL, CHR ''b'']" by code_simp
  from quoteProtocolField_token [OF q] q show ?thesis by simp
qed

text \<open>The two tokenizers never disagree on a line both accept: if the server extracts a list
  of arguments and the client extracts tokens from the same text, they are the same list.\<close>

theorem tokenizers_agree:
  assumes "parseArgs s = Inr as" and "TokenParser_parse s = Some bs"
  shows "as = bs"
  using server_reads [OF assms(2)] assms(1) by (simp split: if_splits)

theorem tokenizers_agree_witness:
  "\<exists>as bs. parseArgs ''/user x'' = Inr as \<and> TokenParser_parse ''/user x'' = Some bs \<and> as = bs"
proof -
  have a: "parseArgs ''/user x'' = Inr [''/user'', ''x'']" by code_simp
  have b: "TokenParser_parse ''/user x'' = Some [''/user'', ''x'']" by code_simp
  from a b tokenizers_agree [OF a b] show ?thesis by blast
qed

text \<open>C39. A quoted argument that begins with a blank, or is a single blank, is accepted by the
  client and makes the server call \<open>back()\<close> on an empty string: on any line
  \<open>command " rest"\<close> the client's tokenizer yields the command and the argument, the server's
  reaches undefined behaviour.\<close>

theorem parseArgs_lone_quote:
  assumes "plain_word cmd" and "hd cmd \<noteq> DQ" and "quotable v" and "v \<noteq> []"
  shows "parseArgs (cmd @ SP # DQ # SP # v @ [DQ]) = Inl Undefined_behaviour \<and>
    TokenParser_parse (cmd @ SP # DQ # SP # v @ [DQ]) = Some [cmd, SP # v]"
proof (intro conjI)
  let ?r = "SP # DQ # SP # v @ [DQ]"
  have g: "getWord (cmd @ ?r) = Some (cmd, ?r)" by (rule getWord_plain [OF assms(1)]) simp
  have l: "getWord ?r = Some ([DQ], SP # v @ [DQ])"
    using getWord_plain [of "[DQ]" "SP # v @ [DQ]"] by (simp add: plain_word_def)
  show "parseArgs (cmd @ ?r) = Inl Undefined_behaviour"
    using g assms(2) l
    by (simp add: parseArgs_def parseArgs_loop.simps [of "[]"] parseArgs_loop.simps [of "[cmd]"])
  have ws: "join_sp (words v) = v" "list_all (\<lambda>w. last w \<noteq> DQ) (words v)" "words v \<noteq> []"
    using assms(3,4) by (auto simp: quotable_def)
  have "parseQuoted [] (SP # v @ [DQ]) = Some (SP # v, [])"
    using parseQuoted_words [OF ws(3) words_plain ws(2), of "[]" "[]"] ws(1) by simp
  with g l assms(2) show "TokenParser_parse (cmd @ ?r) = Some [cmd, SP # v]"
    by (simp add: TokenParser_parse_def TokenParser_loop.simps [of "[]"]
        TokenParser_loop.simps [of "[cmd]"] client_tok.loop_end)
qed

theorem parseArgs_lone_quote_witness:
  "parseArgs (''/login'' @ SP # DQ # SP # ''bob'' @ [DQ]) = Inl Undefined_behaviour \<and>
   TokenParser_parse (''/login'' @ SP # DQ # SP # ''bob'' @ [DQ]) = Some [''/login'', SP # ''bob'']"
proof -
  have a: "plain_word ''/login''" by code_simp
  have b: "hd ''/login'' \<noteq> DQ" by simp
  have c: "quotable ''bob''" by code_simp
  from parseArgs_lone_quote [OF a b c] show ?thesis by simp
qed

end
