(* ===== verification/Server_State.thy ===== *)
theory Server_State
  imports Database Wire "HOL-Library.Sublist"
begin

text \<open>
  The state of the server: \<open>src/server/client/client.hpp\<close> (a connection), the members of
  \<open>Server\<close> (\<open>src/server/server.hpp\<close>) and its delivery functions \<open>sendToClient\<close>,
  \<open>broadcast\<close>, \<open>sendToUser\<close>, \<open>notifySubscribers\<close> (\<open>src/server/server.cpp\<close>).

  \<open>_clients\<close> is a list of bindings with distinct keys, in the (unspecified) iteration order of
  the \<open>std::unordered_map\<close>; the loops over it treat every binding on its own, so no result
  depends on that order. A \<open>Client&\<close> handed to a command is the key of its binding: the command
  and a broadcast it makes act on the same object. The calls of the logging library, which are its
  only effect, are recorded in \<open>srv_log\<close> with the arguments as the library sees them.

  What the server takes from outside is a parameter: \<open>env_uuid\<close> is the text
  \<open>uuid_unparse_lower\<close> writes for the identifier the next \<open>uuid_generate\<close> produces, and
  \<open>env_time\<close> what \<open>std::time(nullptr)\<close> returns. No command calls either more than once.
\<close>

type_synonym fd = int

record env =
  env_uuid :: uuid
  env_time :: int

datatype log_event =
    server_event_team_created string string string
  | server_event_channel_created string string string
  | server_event_thread_created string string string string string
  | server_event_reply_created string string string
  | server_event_user_subscribed string string
  | server_event_user_unsubscribed string string
  | server_event_user_created string string
  | server_event_user_loaded string string
  | server_event_user_logged_in string
  | server_event_user_logged_out string
  | server_event_private_message_sended string string string

section \<open>Connections\<close>

record client =
  cl_fd :: fd
  cl_userUuid :: uuid
  cl_context :: ctx
  cl_readBuffer :: string
  cl_writeBuffer :: string
  cl_args :: "string list"
  cl_pollOutEnabled :: bool

definition newClient :: client where
  "newClient = \<lparr>cl_fd = -1, cl_userUuid = [], cl_context = emptyCtx, cl_readBuffer = [],
     cl_writeBuffer = [], cl_args = [], cl_pollOutEnabled = False\<rparr>"

definition appendToReadBuffer :: "string \<Rightarrow> client \<Rightarrow> client" where
  "appendToReadBuffer d c = c\<lparr>cl_readBuffer := cl_readBuffer c @ d\<rparr>"

definition consumeFromReadBuffer :: "nat \<Rightarrow> client \<Rightarrow> client" where
  "consumeFromReadBuffer n c = c\<lparr>cl_readBuffer := drop n (cl_readBuffer c)\<rparr>"

definition appendToWriteBuffer :: "string \<Rightarrow> client \<Rightarrow> client" where
  "appendToWriteBuffer d c = c\<lparr>cl_writeBuffer := cl_writeBuffer c @ d\<rparr>"

definition consumeFromWriteBuffer :: "nat \<Rightarrow> client \<Rightarrow> client" where
  "consumeFromWriteBuffer n c = c\<lparr>cl_writeBuffer := drop n (cl_writeBuffer c)\<rparr>"

section \<open>The server and its table of connections\<close>

record server =
  srv_fd :: fd
  srv_clients :: "(fd \<times> client) list"
  srv_db :: database
  srv_log :: "log_event list"

definition getClient :: "server \<Rightarrow> fd \<Rightarrow> client option" where
  "getClient s fd = map_of (srv_clients s) fd"

definition clientAt :: "server \<Rightarrow> fd \<Rightarrow> client" where
  "clientAt s fd = (case getClient s fd of Some c \<Rightarrow> c | None \<Rightarrow> newClient)"

definition map_clients :: "(fd \<Rightarrow> client \<Rightarrow> client) \<Rightarrow> server \<Rightarrow> server" where
  "map_clients f s = s\<lparr>srv_clients := map (\<lambda>(k, c). (k, f k c)) (srv_clients s)\<rparr>"

definition modifyClient :: "fd \<Rightarrow> (client \<Rightarrow> client) \<Rightarrow> server \<Rightarrow> server" where
  "modifyClient fd f = map_clients (\<lambda>k c. if k = fd then f c else c)"

definition modifyDb :: "(database \<Rightarrow> database) \<Rightarrow> server \<Rightarrow> server" where
  "modifyDb f s = s\<lparr>srv_db := f (srv_db s)\<rparr>"

definition logEvent :: "log_event \<Rightarrow> server \<Rightarrow> server" where
  "logEvent ev s = s\<lparr>srv_log := srv_log s @ [ev]\<rparr>"

definition setUserUuid :: "fd \<Rightarrow> uuid \<Rightarrow> server \<Rightarrow> server" where
  "setUserUuid fd u = modifyClient fd (\<lambda>c. c\<lparr>cl_userUuid := u\<rparr>)"

definition setContext :: "fd \<Rightarrow> ctx \<Rightarrow> server \<Rightarrow> server" where
  "setContext fd x = modifyClient fd (\<lambda>c. c\<lparr>cl_context := x\<rparr>)"

definition setArgs :: "fd \<Rightarrow> string list \<Rightarrow> server \<Rightarrow> server" where
  "setArgs fd as = modifyClient fd (\<lambda>c. c\<lparr>cl_args := as\<rparr>)"

section \<open>Delivery\<close>

definition sendToClient :: "string \<Rightarrow> fd \<Rightarrow> server \<Rightarrow> server" where
  "sendToClient msg fd = modifyClient fd (appendToWriteBuffer msg)"

definition broadcast :: "string \<Rightarrow> server \<Rightarrow> server" where
  "broadcast msg = map_clients (\<lambda>_ c. appendToWriteBuffer msg c)"

definition sendToUser :: "uuid \<Rightarrow> string \<Rightarrow> server \<Rightarrow> server" where
  "sendToUser u msg = map_clients (\<lambda>_ c. if cl_userUuid c = u then appendToWriteBuffer msg c else c)"

definition notifySubscribers :: "uuid \<Rightarrow> string \<Rightarrow> server \<Rightarrow> server" where
  "notifySubscribers t msg s =
     (if t = [] \<or> msg = [] then s
      else case findTeam (srv_db s) t of
        None \<Rightarrow> s
      | Some team \<Rightarrow>
          map_clients (\<lambda>_ c.
            if cl_userUuid c = [] then c
            else if cl_userUuid c \<notin> set (team_subscriberUuids team) then c
            else appendToWriteBuffer msg c) s)"

section \<open>Every delivery is a conditional append\<close>

definition deliver :: "(fd \<Rightarrow> client \<Rightarrow> bool) \<Rightarrow> string \<Rightarrow> server \<Rightarrow> server" where
  "deliver P msg = map_clients (\<lambda>k c. if P k c then appendToWriteBuffer msg c else c)"

lemma sendToClient_deliver: "sendToClient msg fd = deliver (\<lambda>k _. k = fd) msg"
  by (simp add: sendToClient_def modifyClient_def deliver_def)

lemma broadcast_deliver: "broadcast msg = deliver (\<lambda>_ _. True) msg"
  by (simp add: broadcast_def deliver_def)

lemma sendToUser_deliver: "sendToUser u msg = deliver (\<lambda>_ c. cl_userUuid c = u) msg"
  by (simp add: sendToUser_def deliver_def)

lemma appendToWriteBuffer_Nil [simp]: "appendToWriteBuffer [] c = c"
  by (simp add: appendToWriteBuffer_def)

lemma map_clients_id: "(\<And>k c. f k c = c) \<Longrightarrow> map_clients f s = s"
  by (simp add: map_clients_def)

lemma notifySubscribers_deliver:
  "notifySubscribers t msg s =
     deliver (\<lambda>_ c. t \<noteq> [] \<and> cl_userUuid c \<noteq> [] \<and>
       (\<exists>x. findTeam (srv_db s) t = Some x \<and> isUserSubscribed x (cl_userUuid c))) msg s"
proof (cases "t = [] \<or> msg = []")
  case True
  then show ?thesis by (auto simp: notifySubscribers_def deliver_def intro!: map_clients_id [symmetric])
next
  case False
  then show ?thesis
    by (auto simp: notifySubscribers_def deliver_def isUserSubscribed_def
        split: option.splits
        intro!: map_clients_id [symmetric] arg_cong [where f = "\<lambda>g. map_clients g s"] ext)
qed

lemmas delivery_defs = sendToClient_deliver broadcast_deliver sendToUser_deliver
  notifySubscribers_deliver

section \<open>Observing a state\<close>

definition fds :: "server \<Rightarrow> fd list" where
  "fds s = map fst (srv_clients s)"

definition sessions :: "server \<Rightarrow> (fd \<times> uuid \<times> ctx) list" where
  "sessions s = map (\<lambda>(k, c). (k, cl_userUuid c, cl_context c)) (srv_clients s)"

definition writeBufferAt :: "server \<Rightarrow> fd \<Rightarrow> string" where
  "writeBufferAt s k = cl_writeBuffer (clientAt s k)"

lemma getClient_map_clients [simp]: "getClient (map_clients f s) k = map_option (f k) (getClient s k)"
proof -
  have "map_of (map (\<lambda>(k, c). (k, f k c)) xs) k = map_option (f k) (map_of xs k)" for xs
    by (induction xs) auto
  then show ?thesis by (simp add: getClient_def map_clients_def)
qed

lemma getClient_Some: "getClient s k \<noteq> None \<longleftrightarrow> k \<in> set (fds s)"
  by (auto simp: getClient_def fds_def map_of_eq_None_iff)

lemma clientAt_map_clients: "k \<in> set (fds s) \<Longrightarrow> clientAt (map_clients f s) k = f k (clientAt s k)"
  using getClient_Some [of s k] by (auto simp: clientAt_def)

lemma modifyClient_cong:
  assumes "f (clientAt s fd) = g (clientAt s fd)" and "distinct (fds s)"
  shows "modifyClient fd f s = modifyClient fd g s"
proof -
  have "c = clientAt s fd" if "(fd, c) \<in> set (srv_clients s)" for c
    using assms(2) that by (simp add: clientAt_def getClient_def fds_def)
  then have "map (\<lambda>(k, c). (k, if k = fd then f c else c)) (srv_clients s) =
      map (\<lambda>(k, c). (k, if k = fd then g c else c)) (srv_clients s)"
    using assms(1) by (intro map_cong refl) auto
  then show ?thesis by (simp add: modifyClient_def map_clients_def)
qed

lemma clientAt_absent: "k \<notin> set (fds s) \<Longrightarrow> clientAt s k = newClient"
  using getClient_Some [of s k] by (auto simp: clientAt_def)

lemma clients_frames [frame_simps]:
  "srv_db (map_clients f s) = srv_db s" "srv_log (map_clients f s) = srv_log s"
  "srv_fd (map_clients f s) = srv_fd s" "fds (map_clients f s) = fds s"
  by (auto simp: map_clients_def fds_def)

lemma clientAt_frames [frame_simps]:
  "clientAt (modifyDb g s) = clientAt s" "clientAt (logEvent ev s) = clientAt s"
  "fds (modifyDb g s) = fds s" "fds (logEvent ev s) = fds s"
  "sessions (modifyDb g s) = sessions s" "sessions (logEvent ev s) = sessions s"
  "srv_fd (modifyDb g s) = srv_fd s" "srv_fd (logEvent ev s) = srv_fd s"
  "srv_db (modifyDb g s) = g (srv_db s)" "srv_db (logEvent ev s) = srv_db s"
  "srv_log (modifyDb g s) = srv_log s" "srv_log (logEvent ev s) = srv_log s @ [ev]"
  "srv_clients (modifyDb g s) = srv_clients s" "srv_clients (logEvent ev s) = srv_clients s"
  by (simp_all add: modifyDb_def logEvent_def clientAt_def getClient_def fds_def sessions_def fun_eq_iff)

lemma modifyClient_frames [frame_simps]:
  "srv_db (modifyClient fd f s) = srv_db s" "srv_log (modifyClient fd f s) = srv_log s"
  "srv_fd (modifyClient fd f s) = srv_fd s" "fds (modifyClient fd f s) = fds s"
  by (simp_all add: modifyClient_def frame_simps)

lemma deliver_frames [frame_simps]:
  "srv_db (deliver P msg s) = srv_db s" "srv_log (deliver P msg s) = srv_log s"
  "srv_fd (deliver P msg s) = srv_fd s" "fds (deliver P msg s) = fds s"
  by (simp_all add: deliver_def frame_simps)

lemma sessions_deliver [frame_simps]: "sessions (deliver P msg s) = sessions s"
  by (auto simp: deliver_def sessions_def map_clients_def appendToWriteBuffer_def)

lemma delivery_frames [frame_simps]:
  "srv_db (sendToClient msg fd s) = srv_db s" "srv_db (broadcast msg s) = srv_db s"
  "srv_db (sendToUser u msg s) = srv_db s" "srv_db (notifySubscribers t msg s) = srv_db s"
  "srv_log (sendToClient msg fd s) = srv_log s" "srv_log (broadcast msg s) = srv_log s"
  "srv_log (sendToUser u msg s) = srv_log s" "srv_log (notifySubscribers t msg s) = srv_log s"
  "sessions (sendToClient msg fd s) = sessions s" "sessions (broadcast msg s) = sessions s"
  "sessions (sendToUser u msg s) = sessions s" "sessions (notifySubscribers t msg s) = sessions s"
  "fds (sendToClient msg fd s) = fds s" "fds (broadcast msg s) = fds s"
  "fds (sendToUser u msg s) = fds s" "fds (notifySubscribers t msg s) = fds s"
  by (simp_all add: delivery_defs frame_simps)

lemma clientAt_deliver:
  "clientAt (deliver P msg s) k =
     (if k \<in> set (fds s) \<and> P k (clientAt s k) then appendToWriteBuffer msg (clientAt s k)
      else clientAt s k)"
  by (cases "k \<in> set (fds s)")
    (auto simp: deliver_def clientAt_map_clients clientAt_absent frame_simps)

lemma writeBufferAt_deliver:
  "writeBufferAt (deliver P msg s) k =
     writeBufferAt s k @ (if k \<in> set (fds s) \<and> P k (clientAt s k) then msg else [])"
  by (simp add: writeBufferAt_def clientAt_deliver appendToWriteBuffer_def)

lemma writeBufferAt_modify: "(\<And>c. cl_writeBuffer (f c) = cl_writeBuffer c) \<Longrightarrow> writeBufferAt (modifyClient k f s) j = writeBufferAt s j"
  by (cases "j = k"; cases "j \<in> set (fds s)")
    (simp_all add: writeBufferAt_def modifyClient_def clientAt_map_clients clientAt_absent frame_simps)

lemma session_deliver [frame_simps]:
  "cl_userUuid (clientAt (deliver P msg s) k) = cl_userUuid (clientAt s k)"
  "cl_context (clientAt (deliver P msg s) k) = cl_context (clientAt s k)"
  "cl_args (clientAt (deliver P msg s) k) = cl_args (clientAt s k)"
  "cl_readBuffer (clientAt (deliver P msg s) k) = cl_readBuffer (clientAt s k)"
  by (simp_all add: clientAt_deliver appendToWriteBuffer_def)

text \<open>Two sends to the same connection are one send of the concatenation, so a loop of sends is one
  send of all its lines.\<close>

lemma sendToClient_twice [simp]:
  "sendToClient b fd (sendToClient a fd s) = sendToClient (a @ b) fd s"
  by (simp add: sendToClient_def modifyClient_def map_clients_def appendToWriteBuffer_def o_def
      split_def if_distrib cong: if_cong)

lemma sendToClient_Nil [simp]: "sendToClient [] fd s = s"
  by (simp add: sendToClient_def modifyClient_def map_clients_id)

lemma fold_sendToClient:
  "fold (\<lambda>x. sendToClient (g x) fd) xs s = sendToClient (concat (map g xs)) fd s"
  by (induction xs arbitrary: s) auto

section \<open>What a command may do to the connections\<close>

text \<open>The frame of a command issued on connection \<open>fd\<close>: no connection appears or disappears, no
  read buffer, descriptor, argument vector or poll flag changes, nothing already queued for writing
  is lost, the log only grows, and the login and context of every other connection stay.\<close>

definition client_frame :: "bool \<Rightarrow> client \<Rightarrow> client \<Rightarrow> bool" where
  "client_frame own c d \<longleftrightarrow> cl_fd d = cl_fd c \<and> cl_readBuffer d = cl_readBuffer c \<and>
     cl_args d = cl_args c \<and> cl_pollOutEnabled d = cl_pollOutEnabled c \<and>
     prefix (cl_writeBuffer c) (cl_writeBuffer d) \<and>
     (own \<or> cl_userUuid d = cl_userUuid c \<and> cl_context d = cl_context c)"

definition cmd_frame :: "fd \<Rightarrow> server \<Rightarrow> server \<Rightarrow> bool" where
  "cmd_frame fd s t \<longleftrightarrow> srv_fd t = srv_fd s \<and> prefix (srv_log s) (srv_log t) \<and>
     list_all2 (\<lambda>(k, c) (j, d). j = k \<and> client_frame (k = fd) c d) (srv_clients s) (srv_clients t)"

lemma client_frame_refl [simp]: "client_frame own c c"
  by (simp add: client_frame_def)

lemma client_frame_trans: "client_frame own c d \<Longrightarrow> client_frame own d e \<Longrightarrow> client_frame own c e"
  by (auto simp: client_frame_def)

lemma cmd_frame_refl [simp]: "cmd_frame fd s s"
  by (auto simp: cmd_frame_def intro!: list.rel_refl)

lemma cmd_frame_trans:
  assumes "cmd_frame fd r s" and "cmd_frame fd s t"
  shows "cmd_frame fd r t"
proof -
  let ?R = "\<lambda>(k, c) (j, d). j = k \<and> client_frame (k = fd) c d"
  have "list_all2 ?R (srv_clients r) (srv_clients t)"
    by (rule list_all2_trans [where ?P1.0 = ?R and ?P2.0 = ?R and bs = "srv_clients s"])
      (use assms in \<open>auto simp: cmd_frame_def intro: client_frame_trans\<close>)
  with assms show ?thesis by (auto simp: cmd_frame_def)
qed

lemma cmd_frame_map_clients:
  assumes "\<And>k c. client_frame (k = fd) c (f k c)"
  shows "cmd_frame fd s (map_clients f s)"
  using assms by (auto simp: cmd_frame_def map_clients_def list.rel_map intro!: list.rel_refl)

lemma client_frame_append [simp]: "client_frame own c (appendToWriteBuffer msg c)"
  by (simp add: client_frame_def appendToWriteBuffer_def)

lemma cmd_frame_intros [inv_intros]:
  "cmd_frame fd r s \<Longrightarrow> cmd_frame fd r (deliver P msg s)"
  "cmd_frame fd r s \<Longrightarrow> cmd_frame fd r (modifyDb g s)"
  "cmd_frame fd r s \<Longrightarrow> cmd_frame fd r (logEvent ev s)"
  "cmd_frame fd r s \<Longrightarrow> cmd_frame fd r (setUserUuid fd u s)"
  "cmd_frame fd r s \<Longrightarrow> cmd_frame fd r (setContext fd x s)"
  subgoal by (erule cmd_frame_trans, unfold deliver_def, rule cmd_frame_map_clients) simp
  subgoal by (auto simp: cmd_frame_def modifyDb_def)
  subgoal by (auto simp: cmd_frame_def logEvent_def intro: prefix_order.trans)
  subgoal by (erule cmd_frame_trans, unfold setUserUuid_def modifyClient_def, rule cmd_frame_map_clients)
      (auto simp: client_frame_def)
  subgoal by (erule cmd_frame_trans, unfold setContext_def modifyClient_def, rule cmd_frame_map_clients)
      (auto simp: client_frame_def)
  done

lemma cmd_frame_delivery [inv_intros]:
  "cmd_frame fd r s \<Longrightarrow> cmd_frame fd r (sendToClient msg j s)"
  "cmd_frame fd r s \<Longrightarrow> cmd_frame fd r (broadcast msg s)"
  "cmd_frame fd r s \<Longrightarrow> cmd_frame fd r (sendToUser u msg s)"
  "cmd_frame fd r s \<Longrightarrow> cmd_frame fd r (notifySubscribers t msg s)"
  by (simp_all add: delivery_defs cmd_frame_intros(1))

text \<open>What the frame says of one connection.\<close>

lemma cmd_frame_lookup:
  assumes "cmd_frame fd s t"
  shows "fds t = fds s" and "client_frame (k = fd) (clientAt s k) (clientAt t k)"
proof -
  let ?R = "\<lambda>(k, c) (j, d). j = k \<and> client_frame (k = fd) c d"
  have R: "list_all2 ?R (srv_clients s) (srv_clients t)" using assms by (simp add: cmd_frame_def)
  have "map fst ys = map fst xs" if "list_all2 ?R xs ys" for xs ys
    using that by (induction rule: list_all2_induct) auto
  with R show "fds t = fds s" by (simp add: fds_def)
  have "rel_option (client_frame (k = fd)) (map_of xs k) (map_of ys k)" if "list_all2 ?R xs ys" for xs ys
    using that by (induction rule: list_all2_induct) auto
  from this [OF R] show "client_frame (k = fd) (clientAt s k) (clientAt t k)"
    by (auto simp: clientAt_def getClient_def split: option.splits)
qed

lemma cmd_frame_writeBuffer:
  "cmd_frame fd s t \<Longrightarrow> \<exists>m. writeBufferAt t k = writeBufferAt s k @ m"
  using cmd_frame_lookup(2) [of fd s t k] by (auto simp: client_frame_def writeBufferAt_def prefix_def)

lemma cmd_frame_readBuffer:
  "cmd_frame fd s t \<Longrightarrow> cl_readBuffer (clientAt t k) = cl_readBuffer (clientAt s k)"
  using cmd_frame_lookup(2) [of fd s t k] by (simp add: client_frame_def)

section \<open>Unparsed input\<close>

text \<open>Replacing the unparsed input of a connection commutes with everything a command does.\<close>

definition setReadBuffer :: "fd \<Rightarrow> string \<Rightarrow> server \<Rightarrow> server" where
  "setReadBuffer k x = modifyClient k (\<lambda>c. c\<lparr>cl_readBuffer := x\<rparr>)"

lemma map_clients_comm:
  "(\<And>k c. f k (g k c) = g k (f k c)) \<Longrightarrow> map_clients f (map_clients g s) = map_clients g (map_clients f s)"
  by (simp add: map_clients_def o_def split_def)

lemma setReadBuffer_frames [input_simps]:
  "srv_db (setReadBuffer k x s) = srv_db s" "srv_log (setReadBuffer k x s) = srv_log s"
  "fds (setReadBuffer k x s) = fds s"
  by (simp_all add: setReadBuffer_def frame_simps)

lemma setReadBuffer_client [input_simps]:
  "cl_userUuid (clientAt (setReadBuffer k x s) j) = cl_userUuid (clientAt s j)"
  "cl_context (clientAt (setReadBuffer k x s) j) = cl_context (clientAt s j)"
  "cl_args (clientAt (setReadBuffer k x s) j) = cl_args (clientAt s j)"
  "cl_writeBuffer (clientAt (setReadBuffer k x s) j) = cl_writeBuffer (clientAt s j)"
  by (cases "j \<in> set (fds s)";
      simp add: setReadBuffer_def modifyClient_def clientAt_map_clients clientAt_absent frame_simps)+

lemma setReadBuffer_ops [input_simps]:
  "deliver P m (setReadBuffer k x s) = setReadBuffer k x (deliver P m s)"
  if "\<And>j c y. P j (c\<lparr>cl_readBuffer := y\<rparr>) = P j c" for P
  unfolding deliver_def setReadBuffer_def modifyClient_def
  by (rule map_clients_comm) (simp add: appendToWriteBuffer_def that)

lemma setReadBuffer_delivery [input_simps]:
  "sendToClient m fd (setReadBuffer k x s) = setReadBuffer k x (sendToClient m fd s)"
  "broadcast m (setReadBuffer k x s) = setReadBuffer k x (broadcast m s)"
  "sendToUser u m (setReadBuffer k x s) = setReadBuffer k x (sendToUser u m s)"
  "notifySubscribers t m (setReadBuffer k x s) = setReadBuffer k x (notifySubscribers t m s)"
  by (simp_all add: delivery_defs input_simps)

lemma setReadBuffer_writes [input_simps]:
  "modifyDb g (setReadBuffer k x s) = setReadBuffer k x (modifyDb g s)"
  "logEvent ev (setReadBuffer k x s) = setReadBuffer k x (logEvent ev s)"
  "setUserUuid fd u (setReadBuffer k x s) = setReadBuffer k x (setUserUuid fd u s)"
  "setContext fd y (setReadBuffer k x s) = setReadBuffer k x (setContext fd y s)"
  "setArgs fd as (setReadBuffer k x s) = setReadBuffer k x (setArgs fd as s)"
  by (simp_all add: setReadBuffer_def modifyClient_def map_clients_def modifyDb_def logEvent_def
      setUserUuid_def setContext_def setArgs_def split_def)

section \<open>Fixed replies\<close>

abbreviation R200 :: string where "R200 \<equiv> ''200 OK'' @ CRLF"
abbreviation R400 :: string where "R400 \<equiv> ''400 BAD_REQUEST'' @ CRLF"
abbreviation R401 :: string where "R401 \<equiv> ''401 UNAUTHORIZED'' @ CRLF"
abbreviation R403 :: string where "R403 \<equiv> ''403 FORBIDDEN'' @ CRLF"
abbreviation R409 :: string where "R409 \<equiv> ''409 ALREADY_EXISTS'' @ CRLF"

end
