(* ===== verification/Cmd_Session.thy ===== *)
theory Cmd_Session
  imports Server_State
begin

text \<open>
  The session commands: \<open>/login\<close>, \<open>/logout\<close>, \<open>/users\<close>, \<open>/user\<close>
  (\<open>src/server/commands/login\<close>, \<open>logout\<close>, \<open>users\<close>, \<open>user\<close>). Each definition is
  one function of the source; effects are in the order of the source.
\<close>

definition MAX_NAME_LENGTH :: nat where "MAX_NAME_LENGTH = 32"

section \<open>/login\<close>

definition createNewUser :: "env \<Rightarrow> fd \<Rightarrow> string \<Rightarrow> server \<Rightarrow> server" where
  "createNewUser e fd username s =
     (let u1 = incrementConnection (newUser\<lparr>usr_name := username\<rparr>);
          u = u1\<lparr>usr_uuid := env_uuid e\<rparr>;
          s1 = modifyDb (pushUser u) s;
          s2 = setUserUuid fd (usr_uuid u) s1;
          s3 = sendToClient (''200 OK '' @ DQ # usr_uuid u @ DQ # SP # DQ # usr_name u @ DQ # CRLF) fd s2;
          s4 = logEvent (server_event_user_created (c_str (usr_uuid u)) (c_str (usr_name u))) s3;
          s5 = logEvent (server_event_user_logged_in (c_str (usr_uuid u))) s4
      in broadcast (''EVENT USER_LOGGED_IN '' @ quoteProtocolField (usr_uuid u) @ '' '' @
           quoteProtocolField (usr_name u) @ CRLF) s5)"

definition logUserIn :: "fd \<Rightarrow> string \<Rightarrow> server \<Rightarrow> server" where
  "logUserIn fd username s =
     (case findUserByName (srv_db s) username of
        None \<Rightarrow> sendToClient (''404 NOT_FOUND'' @ CRLF) fd s
      | Some u \<Rightarrow>
          (let s1 = modifyDb (modifyUserByName username incrementConnection) s;
               s2 = setUserUuid fd (usr_uuid u) s1;
               s3 = sendToClient
                 (''200 OK '' @ DQ # usr_uuid u @ DQ # SP # DQ # usr_name u @ DQ # CRLF) fd s2;
               s4 = logEvent (server_event_user_logged_in (c_str (usr_uuid u))) s3
           in broadcast (''EVENT USER_LOGGED_IN '' @ quoteProtocolField (usr_uuid u) @ '' '' @
                quoteProtocolField (usr_name u) @ CRLF) s4))"

definition Login_execute :: "env \<Rightarrow> fd \<Rightarrow> server \<Rightarrow> server" where
  "Login_execute e fd s =
     (let args = cl_args (clientAt s fd) in
      if length args < 2 then sendToClient R400 fd s
      else if cl_userUuid (clientAt s fd) \<noteq> [] then sendToClient R401 fd s
      else
        (let username = args ! 1 in
         if username = [] \<or> length username > MAX_NAME_LENGTH then sendToClient R400 fd s
         else if findUserByName (srv_db s) username = None then createNewUser e fd username s
         else logUserIn fd username s))"

section \<open>/logout\<close>

definition userLoggedOut :: "user \<Rightarrow> string" where
  "userLoggedOut u = ''EVENT USER_LOGGED_OUT '' @ quoteProtocolField (usr_uuid u) @ '' '' @
     quoteProtocolField (usr_name u) @ CRLF"

definition Logout_execute :: "env \<Rightarrow> fd \<Rightarrow> server \<Rightarrow> server" where
  "Logout_execute e fd s =
     (if cl_userUuid (clientAt s fd) = [] then sendToClient R401 fd s
      else
        (let userUuid = cl_userUuid (clientAt s fd);
             s1 = (case findUser (srv_db s) userUuid of
                     None \<Rightarrow> s
                   | Some u \<Rightarrow>
                       (let t = modifyDb (modifyUser userUuid decrementConnection) s in
                        if \<not> isConnected (decrementConnection u)
                        then logEvent (server_event_user_logged_out (c_str userUuid))
                               (broadcast (userLoggedOut u) t)
                        else t));
             s2 = setUserUuid fd [] s1
         in sendToClient R200 fd s2))"

section \<open>/users and /user\<close>

definition connectedFlag :: "user \<Rightarrow> string" where
  "connectedFlag u = to_string (if isConnected u then 1 else 0)"

definition userLine :: "string \<Rightarrow> user \<Rightarrow> string" where
  "userLine code u = code @ quoteProtocolField (usr_uuid u) @ '' '' @ quoteProtocolField (usr_name u) @
     '' '' @ connectedFlag u @ CRLF"

definition UsersCommand_execute :: "env \<Rightarrow> fd \<Rightarrow> server \<Rightarrow> server" where
  "UsersCommand_execute e fd s =
     (if cl_userUuid (clientAt s fd) = [] then sendToClient R401 fd s
      else
        (let s1 = sendToClient (''210-BEGIN USERS'' @ CRLF) fd s;
             s2 = fold (\<lambda>u. sendToClient (userLine ''210 '' u) fd) (db_users (srv_db s)) s1
         in sendToClient (''210-END USERS'' @ CRLF) fd s2))"

definition UserCommand_execute :: "env \<Rightarrow> fd \<Rightarrow> server \<Rightarrow> server" where
  "UserCommand_execute e fd s =
     (let args = cl_args (clientAt s fd) in
      if cl_userUuid (clientAt s fd) = [] then sendToClient R401 fd s
      else if length args < 2 then sendToClient R400 fd s
      else case findUser (srv_db s) (args ! 1) of
        None \<Rightarrow> sendToClient (''404 NOT_FOUND '' @ quoteProtocolField (args ! 1) @ CRLF) fd s
      | Some u \<Rightarrow> sendToClient (userLine ''200 USER '' u) fd s)"

lemmas session_cmd_defs [cmd_defs] = createNewUser_def logUserIn_def Login_execute_def Logout_execute_def
  UsersCommand_execute_def UserCommand_execute_def

section \<open>Frames\<close>

lemma session_frames:
  "cmd_frame fd s (Login_execute e fd s)"
  "cmd_frame fd s (Logout_execute e fd s)"
  "cmd_frame fd s (UsersCommand_execute e fd s)"
  "cmd_frame fd s (UserCommand_execute e fd s)"
  by (auto simp: session_cmd_defs Let_def fold_sendToClient intro!: inv_intros split: option.splits)

end
