(* ===== verification/Cmd_Subscription.thy ===== *)
theory Cmd_Subscription
  imports Cmd_Session
begin

text \<open>
  Team membership: \<open>/subscribe\<close>, \<open>/unsubscribe\<close>, \<open>/subscribed\<close>
  (\<open>src/server/commands/subscribe\<close>, \<open>unsubscribe\<close>, \<open>subscribed\<close>).
\<close>

definition notFoundTeam :: "uuid \<Rightarrow> string" where
  "notFoundTeam t = ''404 NOT_FOUND TEAM '' @ quoteProtocolField t @ CRLF"

section \<open>/subscribe\<close>

definition subscribeOk :: "uuid \<Rightarrow> uuid \<Rightarrow> string" where
  "subscribeOk u t = ''200 SUBSCRIBE '' @ quoteProtocolField u @ '' '' @ quoteProtocolField t @ CRLF"

definition Subscribe_execute :: "env \<Rightarrow> fd \<Rightarrow> server \<Rightarrow> server" where
  "Subscribe_execute e fd s =
     (let u = cl_userUuid (clientAt s fd); args = cl_args (clientAt s fd) in
      if u = [] then sendToClient R401 fd s
      else if length args < 2 \<or> args ! 1 = [] then sendToClient R400 fd s
      else
        (let teamUuid = args ! 1 in
         case findTeam (srv_db s) teamUuid of
           None \<Rightarrow> sendToClient (notFoundTeam teamUuid) fd s
         | Some team \<Rightarrow>
             if isUserSubscribed team u then sendToClient (subscribeOk u teamUuid) fd s
             else
               (let s1 = modifyDb (modifyTeam teamUuid (\<lambda>x. snd (addSubscriber u x))) s in
                if \<not> fst (addSubscriber u team) then sendToClient R400 fd s1
                else
                  (let s2 = logEvent (server_event_user_subscribed (c_str teamUuid) (c_str u)) s1;
                       s3 = notifySubscribers teamUuid
                         (''user_subscribed '' @ DQ # teamUuid @ DQ # SP # DQ # u @ DQ # CRLF) s2
                   in sendToClient (subscribeOk u teamUuid) fd s3))))"

section \<open>/unsubscribe\<close>

definition Unsubscribe_execute :: "env \<Rightarrow> fd \<Rightarrow> server \<Rightarrow> server" where
  "Unsubscribe_execute e fd s =
     (let u = cl_userUuid (clientAt s fd); args = cl_args (clientAt s fd) in
      if u = [] then sendToClient R401 fd s
      else if length args < 2 \<or> args ! 1 = [] then sendToClient R400 fd s
      else
        (let teamUuid = args ! 1 in
         case findTeam (srv_db s) teamUuid of
           None \<Rightarrow> sendToClient (notFoundTeam teamUuid) fd s
         | Some team \<Rightarrow>
             if \<not> isUserSubscribed team u then sendToClient R403 fd s
             else
               (let s1 = modifyDb (modifyTeam teamUuid (\<lambda>x. snd (removeSubscriber u x))) s in
                if \<not> fst (removeSubscriber u team) then sendToClient R400 fd s1
                else
                  (let s2 = logEvent (server_event_user_unsubscribed (c_str teamUuid) (c_str u)) s1;
                       s3 = notifySubscribers teamUuid
                         (''user_unsubscribed '' @ DQ # teamUuid @ DQ # SP # DQ # u @ DQ # CRLF) s2
                   in sendToClient (''200 UNSUBSCRIBE '' @ quoteProtocolField u @ '' '' @
                        quoteProtocolField teamUuid @ CRLF) fd s3))))"

section \<open>/subscribed\<close>

definition teamLine :: "string \<Rightarrow> team \<Rightarrow> string" where
  "teamLine code t = code @ quoteProtocolField (team_uuid t) @ '' '' @ quoteProtocolField (team_name t) @
     '' '' @ quoteProtocolField (team_description t) @ CRLF"

definition listAllTeams :: "fd \<Rightarrow> server \<Rightarrow> server" where
  "listAllTeams fd s =
     (let s1 = sendToClient (''210-BEGIN TEAMS'' @ CRLF) fd s;
          s2 = fold (\<lambda>t. if isUserSubscribed t (cl_userUuid (clientAt s fd))
                          then sendToClient (teamLine ''210 '' t) fd else id)
                 (db_teams (srv_db s)) s1
      in sendToClient (''210-END TEAMS'' @ CRLF) fd s2)"

definition listSubscribedUsers :: "fd \<Rightarrow> uuid \<Rightarrow> server \<Rightarrow> server" where
  "listSubscribedUsers fd teamUuid s =
     (case findTeam (srv_db s) teamUuid of
        None \<Rightarrow> sendToClient (notFoundTeam teamUuid) fd s
      | Some team \<Rightarrow>
          (let s1 = sendToClient (''210-BEGIN USERS'' @ CRLF) fd s;
               s2 = fold (\<lambda>v. case findUser (srv_db s) v of
                               None \<Rightarrow> id
                             | Some u \<Rightarrow> sendToClient (''210 '' @ quoteProtocolField (usr_uuid u) @
                                 '' '' @ quoteProtocolField (usr_name u) @ '' '' @
                                 (if isConnected u then ''1'' else ''0'') @ CRLF) fd)
                      (team_subscriberUuids team) s1
           in sendToClient (''210-END USERS'' @ CRLF) fd s2))"

definition Subscribed_execute :: "env \<Rightarrow> fd \<Rightarrow> server \<Rightarrow> server" where
  "Subscribed_execute e fd s =
     (let args = cl_args (clientAt s fd) in
      if cl_userUuid (clientAt s fd) = [] then sendToClient R401 fd s
      else if length args < 2 then listAllTeams fd s
      else if length args = 2 then
        (let teamUuid = args ! 1 in
         if teamUuid = [] then sendToClient R400 fd s else listSubscribedUsers fd teamUuid s)
      else sendToClient R400 fd s)"

lemmas subscription_cmd_defs [cmd_defs] = Subscribe_execute_def Unsubscribe_execute_def
  listAllTeams_def listSubscribedUsers_def Subscribed_execute_def

section \<open>Loops of conditional sends\<close>

lemma fold_sendToClient_if:
  "fold (\<lambda>x. if P x then sendToClient (g x) fd else id) xs s =
     sendToClient (concat (map g (filter P xs))) fd s"
  by (induction xs arbitrary: s) auto

lemma fold_sendToClient_option:
  "fold (\<lambda>x. case f x of None \<Rightarrow> id | Some y \<Rightarrow> sendToClient (g y) fd) xs s =
     sendToClient (concat (map g (List.map_filter f xs))) fd s"
  by (induction xs arbitrary: s) (auto simp: map_filter_simps split: option.splits)

lemma subscription_frames:
  "cmd_frame fd s (Subscribe_execute e fd s)"
  "cmd_frame fd s (Unsubscribe_execute e fd s)"
  "cmd_frame fd s (Subscribed_execute e fd s)"
  by (auto simp: subscription_cmd_defs Let_def fold_sendToClient_if fold_sendToClient_option
      intro!: inv_intros split: option.splits)

end
