(* ===== verification/Cmd_Context.thy ===== *)
theory Cmd_Context
  imports Cmd_Subscription
begin

text \<open>
  The context of a connection and the commands that read it: \<open>/use\<close>, \<open>/list\<close>,
  \<open>/info\<close> (\<open>src/server/commands/use\<close>, \<open>list\<close>, \<open>info\<close>). A helper of
  \<open>/use\<close> that takes \<open>Context&\<close> and returns \<open>bool\<close> is a function to the truth value,
  the context and the server state.
\<close>

definition notFoundChannel :: "uuid \<Rightarrow> string" where
  "notFoundChannel c = ''404 NOT_FOUND CHANNEL '' @ quoteProtocolField c @ CRLF"

definition notFoundThread :: "uuid \<Rightarrow> string" where
  "notFoundThread th = ''404 NOT_FOUND THREAD '' @ quoteProtocolField th @ CRLF"

section \<open>/use\<close>

definition validateAndSetTeam ::
  "string list \<Rightarrow> ctx \<Rightarrow> fd \<Rightarrow> server \<Rightarrow> bool \<times> ctx \<times> server" where
  "validateAndSetTeam args x fd s =
     (if length args < 2 then (True, emptyCtx, sendToClient R200 fd s)
      else
        (let teamUuid = args ! 1 in
         case findTeam (srv_db s) teamUuid of
           None \<Rightarrow> (False, x, sendToClient (notFoundTeam teamUuid) fd s)
         | Some team \<Rightarrow>
             if \<not> isUserSubscribed team (cl_userUuid (clientAt s fd))
             then (False, x, sendToClient R403 fd s)
             else (True,
                   x\<lparr>ctx_teamUuid := teamUuid, ctx_channelUuid := [], ctx_threadUuid := []\<rparr>,
                   sendToClient R200 fd s)))"

definition validateAndSetChannel ::
  "string list \<Rightarrow> ctx \<Rightarrow> fd \<Rightarrow> server \<Rightarrow> bool \<times> ctx \<times> server" where
  "validateAndSetChannel args x fd s =
     (if length args < 3 then (True, x, s)
      else
        (let channelUuid = args ! 2 in
         if findChannel (srv_db s) (ctx_teamUuid x) channelUuid = None
         then (False, x, sendToClient (notFoundChannel channelUuid) fd s)
         else (True, x\<lparr>ctx_channelUuid := channelUuid, ctx_threadUuid := []\<rparr>,
               sendToClient R200 fd s)))"

definition validateAndSetThread ::
  "string list \<Rightarrow> ctx \<Rightarrow> fd \<Rightarrow> server \<Rightarrow> bool \<times> ctx \<times> server" where
  "validateAndSetThread args x fd s =
     (if length args < 4 then (True, x, s)
      else
        (let threadUuid = args ! 3 in
         if findThread (srv_db s) (ctx_channelUuid x) threadUuid = None
         then (False, x, sendToClient (notFoundThread threadUuid) fd s)
         else (True, x\<lparr>ctx_threadUuid := threadUuid\<rparr>, sendToClient R200 fd s)))"

definition Use_execute :: "env \<Rightarrow> fd \<Rightarrow> server \<Rightarrow> server" where
  "Use_execute e fd s =
     (let args = cl_args (clientAt s fd) in
      if cl_userUuid (clientAt s fd) = [] then sendToClient R401 fd s
      else if length args > 4 then sendToClient R400 fd s
      else
        (case validateAndSetTeam args emptyCtx fd s of (ok1, x1, s1) \<Rightarrow>
         if \<not> ok1 then s1
         else case validateAndSetChannel args x1 fd s1 of (ok2, x2, s2) \<Rightarrow>
         if \<not> ok2 then s2
         else case validateAndSetThread args x2 fd s2 of (ok3, x3, s3) \<Rightarrow>
         if \<not> ok3 then s3 else setContext fd x3 s3))"

section \<open>/list\<close>

definition replyLine :: "uuid \<Rightarrow> reply \<Rightarrow> string" where
  "replyLine th r = ''210 '' @ quoteProtocolField th @ '' '' @ quoteProtocolField (rep_userUuid r) @
     '' '' @ to_string (rep_timestamp r) @ '' '' @ quoteProtocolField (rep_body r) @ CRLF"

definition threadFields :: "thread \<Rightarrow> string" where
  "threadFields th = quoteProtocolField (thr_uuid th) @ '' '' @ quoteProtocolField (thr_userUuid th) @
     '' '' @ to_string (thr_timestamp th) @ '' '' @ quoteProtocolField (thr_title th) @ '' '' @
     quoteProtocolField (thr_body th) @ CRLF"

definition channelFields :: "channel \<Rightarrow> string" where
  "channelFields c = quoteProtocolField (chn_uuid c) @ '' '' @ quoteProtocolField (chn_name c) @
     '' '' @ quoteProtocolField (chn_description c) @ CRLF"

definition List_executeReply :: "fd \<Rightarrow> server \<Rightarrow> server" where
  "List_executeReply fd s =
     (let x = cl_context (clientAt s fd) in
      case findThread (srv_db s) (ctx_channelUuid x) (ctx_threadUuid x) of
        None \<Rightarrow> sendToClient (notFoundThread (ctx_threadUuid x)) fd s
      | Some th \<Rightarrow>
          (let s1 = sendToClient (''210-BEGIN REPLIES'' @ CRLF) fd s;
               s2 = fold (\<lambda>r. sendToClient (replyLine (thr_uuid th) r) fd) (thr_replies th) s1
           in sendToClient (''210-END REPLIES'' @ CRLF) fd s2))"

definition List_executeThread :: "fd \<Rightarrow> server \<Rightarrow> server" where
  "List_executeThread fd s =
     (let x = cl_context (clientAt s fd) in
      case findChannel (srv_db s) (ctx_teamUuid x) (ctx_channelUuid x) of
        None \<Rightarrow> sendToClient (notFoundChannel (ctx_channelUuid x)) fd s
      | Some c \<Rightarrow>
          (let s1 = sendToClient (''210-BEGIN THREADS'' @ CRLF) fd s;
               s2 = fold (\<lambda>th. sendToClient (''210 '' @ threadFields th) fd) (chn_threads c) s1
           in sendToClient (''210-END THREADS'' @ CRLF) fd s2))"

definition List_executeChannel :: "fd \<Rightarrow> server \<Rightarrow> server" where
  "List_executeChannel fd s =
     (let x = cl_context (clientAt s fd) in
      case findTeam (srv_db s) (ctx_teamUuid x) of
        None \<Rightarrow> sendToClient (notFoundTeam (ctx_teamUuid x)) fd s
      | Some t \<Rightarrow>
          (let s1 = sendToClient (''210-BEGIN CHANNELS'' @ CRLF) fd s;
               s2 = fold (\<lambda>c. sendToClient (''210 '' @ channelFields c) fd) (team_channels t) s1
           in sendToClient (''210-END CHANNELS'' @ CRLF) fd s2))"

definition List_executeTeam :: "fd \<Rightarrow> server \<Rightarrow> server" where
  "List_executeTeam fd s =
     (let s1 = sendToClient (''210-BEGIN TEAMS'' @ CRLF) fd s;
          s2 = fold (\<lambda>t. sendToClient (teamLine ''210 '' t) fd) (db_teams (srv_db s)) s1
      in sendToClient (''210-END TEAMS'' @ CRLF) fd s2)"

text \<open>The check \<open>/list\<close> and \<open>/info\<close> make before they look at the context: the reply that
  ends the command, if any.\<close>

definition teamGate :: "fd \<Rightarrow> server \<Rightarrow> string option" where
  "teamGate fd s =
     (let t = ctx_teamUuid (cl_context (clientAt s fd)) in
      if t = [] then None
      else case findTeam (srv_db s) t of
        None \<Rightarrow> Some (notFoundTeam t)
      | Some team \<Rightarrow>
          if \<not> isUserSubscribed team (cl_userUuid (clientAt s fd)) then Some R403 else None)"

definition List_execute :: "env \<Rightarrow> fd \<Rightarrow> server \<Rightarrow> server" where
  "List_execute e fd s =
     (let x = cl_context (clientAt s fd) in
      if cl_userUuid (clientAt s fd) = [] then sendToClient R401 fd s
      else case teamGate fd s of
        Some r \<Rightarrow> sendToClient r fd s
      | None \<Rightarrow>
          if ctx_channelUuid x \<noteq> [] \<and> ctx_threadUuid x \<noteq> [] \<and> ctx_teamUuid x \<noteq> []
          then List_executeReply fd s
          else if ctx_channelUuid x \<noteq> [] \<and> ctx_teamUuid x \<noteq> [] then List_executeThread fd s
          else if ctx_teamUuid x \<noteq> [] then List_executeChannel fd s
          else List_executeTeam fd s)"

section \<open>/info\<close>

definition Info_executeTeam :: "fd \<Rightarrow> server \<Rightarrow> server" where
  "Info_executeTeam fd s =
     (let t = ctx_teamUuid (cl_context (clientAt s fd)) in
      case findTeam (srv_db s) t of
        None \<Rightarrow> sendToClient (notFoundTeam t) fd s
      | Some team \<Rightarrow> sendToClient (teamLine ''200 INFO TEAM '' team) fd s)"

definition Info_executeChannel :: "fd \<Rightarrow> server \<Rightarrow> server" where
  "Info_executeChannel fd s =
     (let x = cl_context (clientAt s fd) in
      case findChannel (srv_db s) (ctx_teamUuid x) (ctx_channelUuid x) of
        None \<Rightarrow> sendToClient (notFoundChannel (ctx_channelUuid x)) fd s
      | Some c \<Rightarrow> sendToClient (''200 INFO CHANNEL '' @ channelFields c) fd s)"

definition Info_executeThread :: "fd \<Rightarrow> server \<Rightarrow> server" where
  "Info_executeThread fd s =
     (let x = cl_context (clientAt s fd) in
      case findThread (srv_db s) (ctx_channelUuid x) (ctx_threadUuid x) of
        None \<Rightarrow> sendToClient (notFoundThread (ctx_threadUuid x)) fd s
      | Some th \<Rightarrow> sendToClient (''200 INFO THREAD '' @ threadFields th) fd s)"

definition Info_executeUser :: "fd \<Rightarrow> server \<Rightarrow> server" where
  "Info_executeUser fd s =
     (let u = cl_userUuid (clientAt s fd) in
      if u = [] then sendToClient R401 fd s
      else case findUser (srv_db s) u of
        None \<Rightarrow> sendToClient (''404 NOT_FOUND USER '' @ quoteProtocolField u @ CRLF) fd s
      | Some user \<Rightarrow> sendToClient (userLine ''200 INFO USER '' user) fd s)"

definition Info_execute :: "env \<Rightarrow> fd \<Rightarrow> server \<Rightarrow> server" where
  "Info_execute e fd s =
     (let x = cl_context (clientAt s fd) in
      if cl_userUuid (clientAt s fd) = [] then sendToClient R401 fd s
      else case teamGate fd s of
        Some r \<Rightarrow> sendToClient r fd s
      | None \<Rightarrow>
          if ctx_threadUuid x \<noteq> [] then Info_executeThread fd s
          else if ctx_channelUuid x \<noteq> [] then Info_executeChannel fd s
          else if ctx_teamUuid x \<noteq> [] then Info_executeTeam fd s
          else Info_executeUser fd s)"

lemmas use_defs = validateAndSetTeam_def validateAndSetChannel_def validateAndSetThread_def
  Use_execute_def

lemmas context_cmd_defs [cmd_defs] = use_defs List_executeReply_def List_executeThread_def
  List_executeChannel_def List_executeTeam_def List_execute_def Info_executeTeam_def
  Info_executeChannel_def Info_executeThread_def Info_executeUser_def Info_execute_def

text \<open>Each step of \<open>/use\<close> only appends a reply for the issuing connection.\<close>

lemma validate_only_sends:
  "validateAndSetTeam args x fd s = (b, y, t) \<Longrightarrow> \<exists>m. t = sendToClient m fd s"
  "validateAndSetChannel args x fd s = (b, y, t) \<Longrightarrow> \<exists>m. t = sendToClient m fd s"
  "validateAndSetThread args x fd s = (b, y, t) \<Longrightarrow> \<exists>m. t = sendToClient m fd s"
  subgoal by (auto simp: validateAndSetTeam_def Let_def split: option.splits if_splits)
  subgoal by (auto simp: validateAndSetChannel_def Let_def intro: exI [of _ "[]"] split: if_splits)
  subgoal by (auto simp: validateAndSetThread_def Let_def intro: exI [of _ "[]"] split: if_splits)
  done

lemma Use_execute_shape:
  "(\<exists>m. Use_execute e fd s = sendToClient m fd s) \<or>
   (\<exists>m x. Use_execute e fd s = setContext fd x (sendToClient m fd s))"
proof -
  obtain b1 x1 s1 where t: "validateAndSetTeam (cl_args (clientAt s fd)) emptyCtx fd s = (b1, x1, s1)"
    by (meson prod_cases3)
  obtain b2 x2 s2 where c: "validateAndSetChannel (cl_args (clientAt s fd)) x1 fd s1 = (b2, x2, s2)"
    by (meson prod_cases3)
  obtain b3 x3 s3 where h: "validateAndSetThread (cl_args (clientAt s fd)) x2 fd s2 = (b3, x3, s3)"
    by (meson prod_cases3)
  obtain m1 where s1: "s1 = sendToClient m1 fd s" using validate_only_sends(1) [OF t] by blast
  obtain m2 where s2: "s2 = sendToClient m2 fd s1" using validate_only_sends(2) [OF c] by blast
  obtain m3 where s3: "s3 = sendToClient m3 fd s2" using validate_only_sends(3) [OF h] by blast
  have "Use_execute e fd s \<in> {sendToClient R401 fd s, sendToClient R400 fd s, s1, s2, s3,
      setContext fd x3 s3}"
    unfolding Use_execute_def Let_def t c h prod.case by simp
  then show ?thesis by (auto simp: s3 s2 s1)
qed

lemma use_frame: "cmd_frame fd s (Use_execute e fd s)"
  using Use_execute_shape [of e fd s] by (auto intro!: inv_intros)

lemma list_step_frames [inv_intros]:
  "cmd_frame fd s (List_executeReply fd s)"
  "cmd_frame fd s (List_executeThread fd s)"
  "cmd_frame fd s (List_executeChannel fd s)"
  "cmd_frame fd s (List_executeTeam fd s)"
  by (simp_all add: List_executeReply_def List_executeThread_def List_executeChannel_def
      List_executeTeam_def Let_def fold_sendToClient inv_intros split: option.split)

lemma info_step_frames [inv_intros]:
  "cmd_frame fd s (Info_executeTeam fd s)"
  "cmd_frame fd s (Info_executeChannel fd s)"
  "cmd_frame fd s (Info_executeThread fd s)"
  "cmd_frame fd s (Info_executeUser fd s)"
  by (simp_all add: Info_executeTeam_def Info_executeChannel_def Info_executeThread_def
      Info_executeUser_def Let_def inv_intros split: option.split)

lemma list_frame: "cmd_frame fd s (List_execute e fd s)"
  by (simp add: List_execute_def Let_def inv_intros split: option.split)

lemma info_frame: "cmd_frame fd s (Info_execute e fd s)"
  by (simp add: Info_execute_def Let_def inv_intros split: option.split)

end
