(* ===== verification/Cmd_Messaging.thy ===== *)
theory Cmd_Messaging
  imports Server_State
begin

text \<open>
  Private messages: \<open>/send\<close> and \<open>/messages\<close> (\<open>src/server/commands/send\<close>,
  \<open>messages\<close>). The sender and the receiver are pointers into the same vector; when a user writes
  to itself they are the same pointer, and both \<open>addMessage\<close> calls append to one conversation.
\<close>

definition MAX_BODY_LENGTH :: nat where "MAX_BODY_LENGTH = 512"

definition Send_execute :: "env \<Rightarrow> fd \<Rightarrow> server \<Rightarrow> server" where
  "Send_execute e fd s =
     (let args = cl_args (clientAt s fd) in
      if length args < 3 then sendToClient R400 fd s
      else if args ! 1 = [] \<or> args ! 2 = [] \<or> length (args ! 2) > MAX_BODY_LENGTH
      then sendToClient R400 fd s
      else case findUser (srv_db s) (cl_userUuid (clientAt s fd)) of
        None \<Rightarrow> sendToClient R401 fd s
      | Some senderUser \<Rightarrow>
          (case findUser (srv_db s) (args ! 1) of
             None \<Rightarrow>
               sendToClient (''404 NOT_FOUND USER '' @ quoteProtocolField (args ! 1) @ CRLF) fd s
           | Some receiverUser \<Rightarrow>
               (let messageBody = args ! 2;
                    message = newMessage\<lparr>msg_senderUuid := usr_uuid senderUser,
                      msg_receiverUuid := usr_uuid receiverUser, msg_timestamp := env_time e,
                      msg_body := messageBody\<rparr>;
                    s1 = modifyDb (modifyUser (cl_userUuid (clientAt s fd))
                           (addMessage (usr_uuid receiverUser) message)) s;
                    s2 = modifyDb (modifyUser (args ! 1)
                           (addMessage (usr_uuid senderUser) message)) s1;
                    s3 = logEvent (server_event_private_message_sended (c_str (usr_uuid senderUser))
                           (c_str (usr_uuid receiverUser)) (c_str messageBody)) s2;
                    s4 = sendToUser (usr_uuid receiverUser)
                           (''EVENT PRIVATE_MESSAGE '' @ quoteProtocolField (usr_uuid senderUser) @
                            '' '' @ quoteProtocolField messageBody @ CRLF) s3
                in sendToClient R200 fd s4)))"

definition messageLine :: "message \<Rightarrow> string" where
  "messageLine m = ''210 '' @ quoteProtocolField (msg_senderUuid m) @ '' '' @
     to_string (msg_timestamp m) @ '' '' @ quoteProtocolField (msg_body m) @ CRLF"

definition sendMessageLine :: "fd \<Rightarrow> message \<Rightarrow> server \<Rightarrow> server" where
  "sendMessageLine fd m = sendToClient (messageLine m) fd"

definition Messages_execute :: "env \<Rightarrow> fd \<Rightarrow> server \<Rightarrow> server" where
  "Messages_execute e fd s =
     (let args = cl_args (clientAt s fd) in
      if cl_userUuid (clientAt s fd) = [] then sendToClient R401 fd s
      else if length args < 2 then sendToClient R400 fd s
      else if args ! 1 = [] then sendToClient R400 fd s
      else case findUser (srv_db s) (cl_userUuid (clientAt s fd)) of
        None \<Rightarrow> sendToClient R401 fd s
      | Some senderUser \<Rightarrow>
          (case findUser (srv_db s) (args ! 1) of
             None \<Rightarrow>
               sendToClient (''404 NOT_FOUND USER '' @ quoteProtocolField (args ! 1) @ CRLF) fd s
           | Some receiverUser \<Rightarrow>
               (case map_find (args ! 1) (usr_messages senderUser) of
                  None \<Rightarrow>
                    (let s1 = sendToClient (''210-BEGIN MESSAGES'' @ CRLF) fd s
                     in sendToClient (''210-END MESSAGES'' @ CRLF) fd s1)
                | Some ms \<Rightarrow>
                    (let s1 = sendToClient (''210-BEGIN MESSAGES'' @ CRLF) fd s;
                         s2 = fold (sendMessageLine fd) ms s1
                     in sendToClient (''210-END MESSAGES'' @ CRLF) fd s2))))"

lemmas messaging_cmd_defs [cmd_defs] = Send_execute_def Messages_execute_def

lemma fold_sendMessageLine:
  "fold (sendMessageLine fd) ms s = sendToClient (concat (map messageLine ms)) fd s"
  using fold_sendToClient [of messageLine fd ms s] by (simp add: sendMessageLine_def [abs_def])

lemma messaging_frames:
  "cmd_frame fd s (Send_execute e fd s)"
  "cmd_frame fd s (Messages_execute e fd s)"
  by (auto simp: messaging_cmd_defs Let_def fold_sendMessageLine intro!: inv_intros split: option.splits)

end
