(* ===== verification/Cmd_Create.thy ===== *)
theory Cmd_Create
  imports Cmd_Context Cmd_Messaging
begin

text \<open>
  \<open>/create\<close> (\<open>src/server/commands/create\<close>): which resource is created depends on the
  context of the connection. A lookup helper that replies and returns \<open>nullptr\<close> is a sum: the
  reply on the left, the resource on the right.
\<close>

definition MAX_DESCRIPTION_LENGTH :: nat where "MAX_DESCRIPTION_LENGTH = 255"

definition isInvalidLength :: "string \<Rightarrow> nat \<Rightarrow> bool" where
  "isInvalidLength v maxLength \<longleftrightarrow> v = [] \<or> length v > maxLength"

section \<open>Lookups that reply\<close>

definition notFound :: "uuid \<Rightarrow> string" where
  "notFound u = ''404 NOT_FOUND '' @ quoteProtocolField u @ CRLF"

definition findAccessibleTeam :: "fd \<Rightarrow> uuid \<Rightarrow> server \<Rightarrow> string + team" where
  "findAccessibleTeam fd teamUuid s =
     (case findTeam (srv_db s) teamUuid of
        None \<Rightarrow> Inl (notFound teamUuid)
      | Some team \<Rightarrow>
          if \<not> isUserSubscribed team (cl_userUuid (clientAt s fd)) then Inl R403 else Inr team)"

definition findChannelOrSend404 :: "uuid \<Rightarrow> uuid \<Rightarrow> server \<Rightarrow> string + channel" where
  "findChannelOrSend404 teamUuid channelUuid s =
     (case findChannel (srv_db s) teamUuid channelUuid of
        None \<Rightarrow> Inl (notFound channelUuid)
      | Some c \<Rightarrow> Inr c)"

definition findThreadOrSend404 :: "uuid \<Rightarrow> uuid \<Rightarrow> server \<Rightarrow> string + thread" where
  "findThreadOrSend404 channelUuid threadUuid s =
     (case findThread (srv_db s) channelUuid threadUuid of
        None \<Rightarrow> Inl (notFound threadUuid)
      | Some th \<Rightarrow> Inr th)"

section \<open>Announcing what was created\<close>

definition emitTeamCreated :: "fd \<Rightarrow> team \<Rightarrow> server \<Rightarrow> server" where
  "emitTeamCreated fd t s =
     (let s1 = sendToClient (teamLine ''201 CREATED TEAM '' t) fd s;
          s2 = logEvent (server_event_team_created (c_str (team_uuid t)) (c_str (team_name t))
                 (c_str (cl_userUuid (clientAt s fd)))) s1
      in broadcast (teamLine ''EVENT TEAM_CREATED '' t) s2)"

definition emitChannelCreated :: "fd \<Rightarrow> uuid \<Rightarrow> channel \<Rightarrow> server \<Rightarrow> server" where
  "emitChannelCreated fd teamUuid c s =
     (let s1 = sendToClient (''201 CREATED CHANNEL '' @ channelFields c) fd s;
          s2 = logEvent (server_event_channel_created (c_str teamUuid) (c_str (chn_uuid c))
                 (c_str (chn_name c))) s1
      in notifySubscribers teamUuid (''EVENT CHANNEL_CREATED '' @ channelFields c) s2)"

definition emitThreadCreated :: "fd \<Rightarrow> uuid \<Rightarrow> uuid \<Rightarrow> thread \<Rightarrow> server \<Rightarrow> server" where
  "emitThreadCreated fd teamUuid channelUuid th s =
     (let s1 = sendToClient (''201 CREATED THREAD '' @ threadFields th) fd s;
          s2 = logEvent (server_event_thread_created (c_str channelUuid) (c_str (thr_uuid th))
                 (c_str (cl_userUuid (clientAt s fd))) (c_str (thr_title th)) (c_str (thr_body th))) s1
      in notifySubscribers teamUuid (''EVENT THREAD_CREATED '' @ threadFields th) s2)"

definition emitReplyCreated :: "fd \<Rightarrow> uuid \<Rightarrow> uuid \<Rightarrow> reply \<Rightarrow> server \<Rightarrow> server" where
  "emitReplyCreated fd teamUuid threadUuid r s =
     (let s1 = sendToClient (''201 CREATED REPLY '' @ quoteProtocolField threadUuid @ '' '' @
                 quoteProtocolField (rep_userUuid r) @ '' '' @ to_string (rep_timestamp r) @ '' '' @
                 quoteProtocolField (rep_body r) @ CRLF) fd s;
          s2 = logEvent (server_event_reply_created (c_str threadUuid)
                 (c_str (cl_userUuid (clientAt s fd))) (c_str (rep_body r))) s1
      in notifySubscribers teamUuid (''EVENT REPLY_CREATED '' @ quoteProtocolField teamUuid @ '' '' @
           quoteProtocolField threadUuid @ '' '' @ quoteProtocolField (rep_userUuid r) @ '' '' @
           quoteProtocolField (rep_body r) @ CRLF) s2)"

section \<open>Creating\<close>

definition Create_executeTeam :: "env \<Rightarrow> fd \<Rightarrow> server \<Rightarrow> server" where
  "Create_executeTeam e fd s =
     (let args = cl_args (clientAt s fd) in
      if length args < 3 then sendToClient R400 fd s
      else
        (let teamName = args ! 1; teamDescription = args ! 2 in
         if isInvalidLength teamName MAX_NAME_LENGTH \<or>
            isInvalidLength teamDescription MAX_DESCRIPTION_LENGTH
         then sendToClient R400 fd s
         else if \<exists>t \<in> set (db_teams (srv_db s)). team_name t = teamName
         then sendToClient R409 fd s
         else
           (let t1 = newTeam\<lparr>team_uuid := env_uuid e, team_name := teamName,
                       team_description := teamDescription\<rparr>;
                t2 = (if cl_userUuid (clientAt s fd) \<noteq> []
                      then snd (addSubscriber (cl_userUuid (clientAt s fd)) t1) else t1)
            in emitTeamCreated fd t2 (modifyDb (pushTeam t2) s))))"

definition Create_executeChannel :: "env \<Rightarrow> fd \<Rightarrow> server \<Rightarrow> server" where
  "Create_executeChannel e fd s =
     (let x = cl_context (clientAt s fd); args = cl_args (clientAt s fd) in
      case findAccessibleTeam fd (ctx_teamUuid x) s of
        Inl r \<Rightarrow> sendToClient r fd s
      | Inr team \<Rightarrow>
          if length args < 3 then sendToClient R400 fd s
          else
            (let channelName = args ! 1; channelDescription = args ! 2 in
             if isInvalidLength channelName MAX_NAME_LENGTH \<or>
                isInvalidLength channelDescription MAX_DESCRIPTION_LENGTH
             then sendToClient R400 fd s
             else if \<exists>c \<in> set (team_channels team). chn_name c = channelName
             then sendToClient R409 fd s
             else
               (let c = newChannel\<lparr>chn_uuid := env_uuid e, chn_name := channelName,
                          chn_description := channelDescription\<rparr>;
                    s1 = modifyDb (modifyTeam (ctx_teamUuid x)
                           (\<lambda>t. t\<lparr>team_channels := team_channels t @ [c]\<rparr>)) s
                in emitChannelCreated fd (ctx_teamUuid x) c s1)))"

definition Create_executeThread :: "env \<Rightarrow> fd \<Rightarrow> server \<Rightarrow> server" where
  "Create_executeThread e fd s =
     (let x = cl_context (clientAt s fd); args = cl_args (clientAt s fd) in
      case findAccessibleTeam fd (ctx_teamUuid x) s of
        Inl r \<Rightarrow> sendToClient r fd s
      | Inr team \<Rightarrow>
      case findChannelOrSend404 (ctx_teamUuid x) (ctx_channelUuid x) s of
        Inl r \<Rightarrow> sendToClient r fd s
      | Inr c \<Rightarrow>
          if length args < 3 then sendToClient R400 fd s
          else
            (let threadTitle = args ! 1; threadMessage = args ! 2 in
             if isInvalidLength threadTitle MAX_NAME_LENGTH \<or>
                isInvalidLength threadMessage MAX_BODY_LENGTH
             then sendToClient R400 fd s
             else if \<exists>th \<in> set (chn_threads c). thr_title th = threadTitle
             then sendToClient R409 fd s
             else
               (let th = newThread\<lparr>thr_uuid := env_uuid e,
                          thr_userUuid := cl_userUuid (clientAt s fd), thr_title := threadTitle,
                          thr_body := threadMessage, thr_timestamp := env_time e\<rparr>;
                    s1 = modifyDb (modifyChannel (ctx_teamUuid x) (ctx_channelUuid x)
                           (\<lambda>y. y\<lparr>chn_threads := chn_threads y @ [th]\<rparr>)) s
                in emitThreadCreated fd (ctx_teamUuid x) (ctx_channelUuid x) th s1)))"

definition Create_executeReply :: "env \<Rightarrow> fd \<Rightarrow> server \<Rightarrow> server" where
  "Create_executeReply e fd s =
     (let x = cl_context (clientAt s fd); args = cl_args (clientAt s fd) in
      case findAccessibleTeam fd (ctx_teamUuid x) s of
        Inl r \<Rightarrow> sendToClient r fd s
      | Inr team \<Rightarrow>
      case findChannelOrSend404 (ctx_teamUuid x) (ctx_channelUuid x) s of
        Inl r \<Rightarrow> sendToClient r fd s
      | Inr c \<Rightarrow>
      case findThreadOrSend404 (ctx_channelUuid x) (ctx_threadUuid x) s of
        Inl r \<Rightarrow> sendToClient r fd s
      | Inr th \<Rightarrow>
          if length args < 2 then sendToClient R400 fd s
          else
            (let replyMessage = args ! 1 in
             if isInvalidLength replyMessage MAX_BODY_LENGTH then sendToClient R400 fd s
             else
               (let r = newReply\<lparr>rep_uuid := env_uuid e,
                          rep_userUuid := cl_userUuid (clientAt s fd), rep_body := replyMessage,
                          rep_timestamp := env_time e\<rparr>;
                    s1 = modifyDb (modifyThread (ctx_channelUuid x) (ctx_threadUuid x)
                           (\<lambda>y. y\<lparr>thr_replies := thr_replies y @ [r]\<rparr>)) s
                in emitReplyCreated fd (ctx_teamUuid x) (ctx_threadUuid x) r s1)))"

definition Create_execute :: "env \<Rightarrow> fd \<Rightarrow> server \<Rightarrow> server" where
  "Create_execute e fd s =
     (let x = cl_context (clientAt s fd) in
      if cl_userUuid (clientAt s fd) = [] then sendToClient R401 fd s
      else if ctx_teamUuid x = [] then Create_executeTeam e fd s
      else if ctx_channelUuid x = [] then Create_executeChannel e fd s
      else if ctx_threadUuid x = [] then Create_executeThread e fd s
      else Create_executeReply e fd s)"

lemmas emit_defs = emitTeamCreated_def emitChannelCreated_def emitThreadCreated_def
  emitReplyCreated_def

lemmas create_step_defs = Create_executeTeam_def Create_executeChannel_def Create_executeThread_def
  Create_executeReply_def

lemmas create_cmd_defs [cmd_defs] = create_step_defs Create_execute_def

lemma emit_frames [inv_intros]:
  "cmd_frame fd r s \<Longrightarrow> cmd_frame fd r (emitTeamCreated fd t s)"
  "cmd_frame fd r s \<Longrightarrow> cmd_frame fd r (emitChannelCreated fd tu c s)"
  "cmd_frame fd r s \<Longrightarrow> cmd_frame fd r (emitThreadCreated fd tu cu th s)"
  "cmd_frame fd r s \<Longrightarrow> cmd_frame fd r (emitReplyCreated fd tu thu rp s)"
  by (auto simp: emit_defs Let_def intro!: inv_intros)

lemma create_step_frames [inv_intros]:
  "cmd_frame fd s (Create_executeTeam e fd s)"
  "cmd_frame fd s (Create_executeChannel e fd s)"
  "cmd_frame fd s (Create_executeThread e fd s)"
  "cmd_frame fd s (Create_executeReply e fd s)"
  by (auto simp: create_step_defs Let_def intro!: inv_intros split: sum.splits)

lemma create_frame: "cmd_frame fd s (Create_execute e fd s)"
  by (auto simp: Create_execute_def Let_def intro!: inv_intros)

lemma emit_state [frame_simps]:
  "srv_db (emitTeamCreated fd t s) = srv_db s" "sessions (emitTeamCreated fd t s) = sessions s"
  "srv_db (emitChannelCreated fd tu c s) = srv_db s"
  "sessions (emitChannelCreated fd tu c s) = sessions s"
  "srv_db (emitThreadCreated fd tu cu th s) = srv_db s"
  "sessions (emitThreadCreated fd tu cu th s) = sessions s"
  "srv_db (emitReplyCreated fd tu thu r s) = srv_db s"
  "sessions (emitReplyCreated fd tu thu r s) = sessions s"
  by (simp_all add: emit_defs Let_def frame_simps)

end
