(* ===== verification/Db_Inv.thy ===== *)
theory Db_Inv
  imports Database
begin

text \<open>
  Well-formedness of the database: identifiers and names are unique where lookups rely on it,
  lengths are within the limits the commands enforce, subscribers are users, and private
  conversations are stored symmetrically. \<open>db_ok\<close> is executable. The lemmas show that each kind
  of write the commands make keeps it.
\<close>

section \<open>Predicates\<close>

definition within :: "nat \<Rightarrow> string \<Rightarrow> bool" where
  "within n v \<longleftrightarrow> v \<noteq> [] \<and> length v \<le> n"

definition reply_ok :: "reply \<Rightarrow> bool" where
  "reply_ok r \<longleftrightarrow> within 512 (rep_body r)"

definition thread_ok :: "thread \<Rightarrow> bool" where
  "thread_ok th \<longleftrightarrow> thr_uuid th \<noteq> [] \<and> within 32 (thr_title th) \<and> within 512 (thr_body th) \<and>
     list_all reply_ok (thr_replies th)"

definition channel_ok :: "channel \<Rightarrow> bool" where
  "channel_ok c \<longleftrightarrow> chn_uuid c \<noteq> [] \<and> within 32 (chn_name c) \<and> within 255 (chn_description c) \<and>
     distinct (map thr_uuid (chn_threads c)) \<and> distinct (map thr_title (chn_threads c)) \<and>
     list_all thread_ok (chn_threads c)"

definition team_ok :: "uuid set \<Rightarrow> team \<Rightarrow> bool" where
  "team_ok us t \<longleftrightarrow> team_uuid t \<noteq> [] \<and> within 32 (team_name t) \<and> within 255 (team_description t) \<and>
     distinct (team_subscriberUuids t) \<and> set (team_subscriberUuids t) \<subseteq> us \<and>
     distinct (map chn_name (team_channels t)) \<and> list_all channel_ok (team_channels t)"

definition message_ok :: "uuid \<Rightarrow> uuid \<Rightarrow> message \<Rightarrow> bool" where
  "message_ok u k m \<longleftrightarrow> within 512 (msg_body m) \<and>
     (msg_senderUuid m = u \<and> msg_receiverUuid m = k \<or> msg_senderUuid m = k \<and> msg_receiverUuid m = u)"

definition user_ok :: "uuid set \<Rightarrow> user \<Rightarrow> bool" where
  "user_ok us u \<longleftrightarrow> usr_uuid u \<noteq> [] \<and> within 32 (usr_name u) \<and> map_ok (usr_messages u) \<and>
     list_all (\<lambda>(k, ms). k \<in> us \<and> list_all (message_ok (usr_uuid u) k) ms) (usr_messages u)"

definition mirrored :: "user list \<Rightarrow> bool" where
  "mirrored us \<longleftrightarrow> list_all (\<lambda>u. list_all (\<lambda>v.
     usr_uuid u \<noteq> usr_uuid v \<longrightarrow> conversation u (usr_uuid v) = conversation v (usr_uuid u)) us) us"

definition user_ids :: "database \<Rightarrow> uuid list" where
  "user_ids db = map usr_uuid (db_users db)"

definition channel_ids :: "team list \<Rightarrow> uuid list" where
  "channel_ids ts = concat (map (\<lambda>t. map chn_uuid (team_channels t)) ts)"

definition users_ok :: "database \<Rightarrow> bool" where
  "users_ok db \<longleftrightarrow> distinct (user_ids db) \<and> distinct (map usr_name (db_users db)) \<and>
     list_all (user_ok (set (user_ids db))) (db_users db) \<and> mirrored (db_users db)"

definition teams_ok :: "uuid set \<Rightarrow> team list \<Rightarrow> bool" where
  "teams_ok us ts \<longleftrightarrow> distinct (map team_uuid ts) \<and> distinct (map team_name ts) \<and>
     distinct (channel_ids ts) \<and> list_all (team_ok us) ts"

definition db_ok :: "database \<Rightarrow> bool" where
  "db_ok db \<longleftrightarrow> users_ok db \<and> teams_ok (set (user_ids db)) (db_teams db)"

text \<open>What the server relies on from the identifier generator: a non-empty identifier that no
  stored resource has.\<close>

definition thread_ids :: "team list \<Rightarrow> uuid list" where
  "thread_ids ts = concat (map (\<lambda>t. concat (map (\<lambda>c. map thr_uuid (chn_threads c)) (team_channels t))) ts)"

definition all_ids :: "database \<Rightarrow> uuid list" where
  "all_ids db = user_ids db @ map team_uuid (db_teams db) @ channel_ids (db_teams db) @ thread_ids (db_teams db)"

definition fresh_uuid :: "uuid \<Rightarrow> database \<Rightarrow> bool" where
  "fresh_uuid v db \<longleftrightarrow> v \<noteq> [] \<and> v \<notin> set (all_ids db)"

lemma fresh_uuid_iff:
  "fresh_uuid v db \<longleftrightarrow> v \<noteq> [] \<and> v \<notin> set (user_ids db) \<and> v \<notin> team_uuid ` set (db_teams db) \<and>
     v \<notin> set (channel_ids (db_teams db)) \<and> v \<notin> set (thread_ids (db_teams db))"
  by (simp add: fresh_uuid_def all_ids_def)

section \<open>Writes to the teams\<close>

lemma channel_ids_simps [simp]:
  "channel_ids [] = []"
  "channel_ids (t # ts) = map chn_uuid (team_channels t) @ channel_ids ts"
  by (simp_all add: channel_ids_def)

lemma channel_ids_update_first:
  assumes "\<And>t. map chn_uuid (team_channels (f t)) = map chn_uuid (team_channels t)"
  shows "channel_ids (update_first P f ts) = channel_ids ts"
  using map_update_first [of "\<lambda>t. map chn_uuid (team_channels t)" f P ts] assms
  by (simp add: channel_ids_def)

lemma channel_ids_snoc:
  assumes "\<And>t. map chn_uuid (team_channels (f t)) = map chn_uuid (team_channels t) @ [v]"
    and "distinct (channel_ids ts)" and "v \<notin> set (channel_ids ts)"
  shows "distinct (channel_ids (update_first P f ts))
    \<and> set (channel_ids (update_first P f ts)) \<subseteq> insert v (set (channel_ids ts))"
  using assms(2,3)
proof (induction ts)
  case (Cons t ts)
  let ?A = "set (map chn_uuid (team_channels t))" and ?B = "set (channel_ids ts)"
  let ?B' = "set (channel_ids (update_first P f ts))"
  from Cons.prems have d: "?A \<inter> ?B = {}" "v \<notin> ?A" "v \<notin> ?B" by auto
  show ?case
  proof (cases "P t")
    case True
    with Cons.prems assms(1) [of t] show ?thesis by auto
  next
    case False
    from Cons have IH: "distinct (channel_ids (update_first P f ts))" "?B' \<subseteq> insert v ?B"
      by auto
    with d have "?A \<inter> ?B' = {}" by blast
    with False Cons.prems IH show ?thesis by auto
  qed
qed simp

lemma teams_ok_update_first:
  assumes "teams_ok us ts"
    and "\<And>t. team_uuid (f t) = team_uuid t" and "\<And>t. team_name (f t) = team_name t"
    and "\<And>t. t \<in> set ts \<Longrightarrow> P t \<Longrightarrow> team_ok us t \<Longrightarrow> team_ok us (f t)"
    and "distinct (channel_ids (update_first P f ts))"
  shows "teams_ok us (update_first P f ts)"
  using assms by (auto simp: teams_ok_def map_update_first intro!: list_all_update_first)

lemma teams_ok_mono: "teams_ok us ts \<Longrightarrow> us \<subseteq> vs \<Longrightarrow> teams_ok vs ts"
  by (auto simp: teams_ok_def team_ok_def list_all_iff)

lemma db_ok_teams:
  assumes "db_ok db" and "teams_ok (set (user_ids db)) (db_teams db')" and "db_users db' = db_users db"
  shows "db_ok db'"
  using assms by (simp add: db_ok_def users_ok_def user_ids_def)

lemma db_ok_addSubscriber:
  assumes "db_ok db" and "u \<in> set (user_ids db)"
  shows "db_ok (modifyTeam k (\<lambda>t. snd (addSubscriber u t)) db)"
proof -
  have "teams_ok (set (user_ids db)) (update_first (\<lambda>t. team_uuid t = k) (\<lambda>t. snd (addSubscriber u t)) (db_teams db))"
  proof (rule teams_ok_update_first)
    show "team_ok (set (user_ids db)) (snd (addSubscriber u t))" if "team_ok (set (user_ids db)) t" for t
      using that assms(2) by (auto simp: team_ok_def addSubscriber_def isUserSubscribed_def)
  qed (use assms in \<open>auto simp: db_ok_def teams_ok_def frame_simps channel_ids_update_first\<close>)
  then show ?thesis by (intro db_ok_teams [OF assms(1)]) (simp_all add: modifyTeam_def)
qed

lemma db_ok_removeSubscriber:
  assumes "db_ok db"
  shows "db_ok (modifyTeam k (\<lambda>t. snd (removeSubscriber u t)) db)"
proof -
  have "teams_ok (set (user_ids db)) (update_first (\<lambda>t. team_uuid t = k) (\<lambda>t. snd (removeSubscriber u t)) (db_teams db))"
  proof (rule teams_ok_update_first)
    show "team_ok (set (user_ids db)) (snd (removeSubscriber u t))" if "team_ok (set (user_ids db)) t" for t
      using that by (auto simp: team_ok_def removeSubscriber_def Let_def)
  qed (use assms in \<open>auto simp: db_ok_def teams_ok_def frame_simps channel_ids_update_first\<close>)
  then show ?thesis by (intro db_ok_teams [OF assms]) (simp_all add: modifyTeam_def)
qed

lemma db_ok_pushTeam:
  assumes "db_ok db" and "team_ok (set (user_ids db)) t" and "team_channels t = []"
    and "team_uuid t \<notin> team_uuid ` set (db_teams db)" and "team_name t \<notin> team_name ` set (db_teams db)"
  shows "db_ok (pushTeam t db)"
  by (rule db_ok_teams [OF assms(1)])
    (use assms in \<open>auto simp: pushTeam_def db_ok_def teams_ok_def channel_ids_def\<close>)

lemma db_ok_pushChannel:
  assumes "db_ok db" and "channel_ok c" and "chn_uuid c \<notin> set (channel_ids (db_teams db))"
    and "\<And>t. findTeam db k = Some t \<Longrightarrow> chn_name c \<notin> chn_name ` set (team_channels t)"
  shows "db_ok (modifyTeam k (\<lambda>t. t\<lparr>team_channels := team_channels t @ [c]\<rparr>) db)"
proof -
  let ?f = "\<lambda>t. t\<lparr>team_channels := team_channels t @ [c]\<rparr>"
  have us: "distinct (map team_uuid (db_teams db))" using assms(1) by (simp add: db_ok_def teams_ok_def)
  have "teams_ok (set (user_ids db)) (update_first (\<lambda>t. team_uuid t = k) ?f (db_teams db))"
  proof (rule teams_ok_update_first)
    show "team_ok (set (user_ids db)) (?f t)"
      if t: "t \<in> set (db_teams db)" "team_uuid t = k" and ok: "team_ok (set (user_ids db)) t" for t
    proof -
      have "findTeam db k = Some t" using t find_key_distinct [OF us] by (simp add: findTeam_def)
      with assms(2,4) ok show ?thesis by (auto simp: team_ok_def)
    qed
    show "distinct (channel_ids (update_first (\<lambda>t. team_uuid t = k) ?f (db_teams db)))"
      using assms(1,3) channel_ids_snoc [of ?f "chn_uuid c"] by (simp add: db_ok_def teams_ok_def)
  qed (use assms(1) in \<open>auto simp: db_ok_def\<close>)
  then show ?thesis by (intro db_ok_teams [OF assms(1)]) (simp_all add: modifyTeam_def)
qed

lemma distinct_channels:
  "teams_ok us ts \<Longrightarrow> t \<in> set ts \<Longrightarrow> distinct (map chn_uuid (team_channels t))"
  by (auto simp: teams_ok_def channel_ids_def distinct_concat_iff)

lemma distinct_channels_iff:
  assumes "distinct (channel_ids ts)"
  shows "t \<in> set ts \<Longrightarrow> distinct (map chn_uuid (team_channels t))"
  using assms by (induction ts) auto

text \<open>A write to the channel with uuid \<open>c\<close> of a team that keeps its uuid and name.\<close>

lemma team_ok_update_channel:
  assumes "team_ok us t" and "\<And>y. chn_uuid (g y) = chn_uuid y" and "\<And>y. chn_name (g y) = chn_name y"
    and "\<And>y. y \<in> set (team_channels t) \<Longrightarrow> chn_uuid y = c \<Longrightarrow> channel_ok y \<Longrightarrow> channel_ok (g y)"
  shows "team_ok us (t\<lparr>team_channels := update_first (\<lambda>y. chn_uuid y = c) g (team_channels t)\<rparr>)"
  using assms by (auto simp: team_ok_def map_update_first intro!: list_all_update_first)

lemma db_ok_pushThread:
  assumes "db_ok db" and "thread_ok th" and "thr_uuid th \<notin> set (thread_ids (db_teams db))"
    and title: "\<And>y. findChannel db k c = Some y \<Longrightarrow> thr_title th \<notin> thr_title ` set (chn_threads y)"
  shows "db_ok (modifyChannel k c (\<lambda>y. y\<lparr>chn_threads := chn_threads y @ [th]\<rparr>) db)"
proof -
  let ?g = "\<lambda>y. y\<lparr>chn_threads := chn_threads y @ [th]\<rparr>"
  let ?f = "\<lambda>t. t\<lparr>team_channels := update_first (\<lambda>y. chn_uuid y = c) ?g (team_channels t)\<rparr>"
  have ts: "teams_ok (set (user_ids db)) (db_teams db)" using assms(1) by (simp add: db_ok_def)
  then have us: "distinct (map team_uuid (db_teams db))" and cs: "distinct (channel_ids (db_teams db))"
    by (simp_all add: teams_ok_def)
  have "teams_ok (set (user_ids db)) (update_first (\<lambda>t. team_uuid t = k) ?f (db_teams db))"
  proof (rule teams_ok_update_first [OF ts])
    fix t assume t: "t \<in> set (db_teams db)" "team_uuid t = k" "team_ok (set (user_ids db)) t"
    then have ft: "findTeam db k = Some t" using find_key_distinct [OF us] by (simp add: findTeam_def)
    show "team_ok (set (user_ids db)) (?f t)"
    proof (rule team_ok_update_channel [OF t(3)])
      fix y assume y: "y \<in> set (team_channels t)" "chn_uuid y = c" "channel_ok y"
      then have "findChannel db k c = Some y"
        using ft find_key_distinct [OF distinct_channels_iff [OF cs t(1)]] by (simp add: findChannel_def)
      from title [OF this] have "thr_title th \<notin> thr_title ` set (chn_threads y)" .
      moreover have "thr_uuid th \<notin> thr_uuid ` set (chn_threads y)"
        using assms(3) t(1) y(1) by (auto simp: thread_ids_def)
      ultimately show "channel_ok (?g y)" using y(3) assms(2) by (auto simp: channel_ok_def)
    qed auto
  qed (use cs in \<open>auto simp: channel_ids_update_first map_update_first\<close>)
  then show ?thesis
    by (intro db_ok_teams [OF assms(1)]) (simp_all add: modifyChannel_def modifyTeam_def)
qed

lemma channel_ok_update_thread:
  assumes "channel_ok y" and "\<And>z. thr_uuid (f z) = thr_uuid z" and "\<And>z. thr_title (f z) = thr_title z"
    and "\<And>z. thread_ok z \<Longrightarrow> thread_ok (f z)"
  shows "channel_ok (y\<lparr>chn_threads := update_first (\<lambda>z. thr_uuid z = th) f (chn_threads y)\<rparr>)"
  using assms by (auto simp: channel_ok_def map_update_first intro!: list_all_update_first)

lemma db_ok_pushReply:
  assumes "db_ok db" and "reply_ok r"
  shows "db_ok (modifyThread c th (\<lambda>z. z\<lparr>thr_replies := thr_replies z @ [r]\<rparr>) db)"
proof -
  let ?h = "\<lambda>z. z\<lparr>thr_replies := thr_replies z @ [r]\<rparr>"
  have ts: "teams_ok (set (user_ids db)) (db_teams db)" using assms(1) by (simp add: db_ok_def)
  have "teams_ok (set (user_ids db))
      (update_first (has_channel c) (modifyThread_team c th ?h) (db_teams db))"
  proof (rule teams_ok_update_first [OF ts])
    show "team_ok (set (user_ids db)) (modifyThread_team c th ?h t)" if "team_ok (set (user_ids db)) t" for t
      unfolding modifyThread_team_def using that
      by (rule team_ok_update_channel)
        (use assms(2) in \<open>auto intro!: channel_ok_update_thread simp: thread_ok_def\<close>)
    show "distinct (channel_ids (update_first (has_channel c) (modifyThread_team c th ?h) (db_teams db)))"
      using ts by (simp add: teams_ok_def channel_ids_update_first modifyThread_team_def map_update_first)
  qed (simp_all add: modifyThread_team_def)
  then show ?thesis
    by (intro db_ok_teams [OF assms(1)]) (simp_all add: modifyThread_def)
qed

section \<open>Writes to the users\<close>

lemma user_ok_mono: "user_ok us u \<Longrightarrow> us \<subseteq> vs \<Longrightarrow> user_ok vs u"
  by (auto simp: user_ok_def list_all_iff)

lemma map_find_keys: "k \<notin> fst ` set m \<Longrightarrow> map_find k m = None"
  by (induction m) auto

lemma conversation_unknown:
  "user_ok us u \<Longrightarrow> k \<notin> us \<Longrightarrow> conversation u k = []"
proof -
  assume "user_ok us u" and "k \<notin> us"
  then have "k \<notin> fst ` set (usr_messages u)" by (auto simp: user_ok_def list_all_iff)
  then show ?thesis by (simp add: conversation_def map_find_keys)
qed

lemma db_ok_pushUser:
  assumes "db_ok db" and "usr_uuid u \<noteq> []" and "usr_uuid u \<notin> set (user_ids db)"
    and "usr_name u \<notin> usr_name ` set (db_users db)" and "within 32 (usr_name u)" and "usr_messages u = []"
  shows "db_ok (pushUser u db)"
proof -
  let ?us = "set (user_ids db)"
  have old: "list_all (user_ok ?us) (db_users db)" using assms(1) by (simp add: db_ok_def users_ok_def)
  have "conversation v (usr_uuid u) = []" if "v \<in> set (db_users db)" for v
    using old that assms(3) by (auto simp: list_all_iff intro: conversation_unknown)
  moreover have "conversation u k = []" for k by (simp add: conversation_def assms(6))
  ultimately have "mirrored (db_users db @ [u])"
    using assms(1) by (auto simp: mirrored_def db_ok_def users_ok_def list_all_iff)
  moreover have "list_all (user_ok (insert (usr_uuid u) ?us)) (db_users db @ [u])"
  proof -
    have "user_ok (insert (usr_uuid u) ?us) u" using assms by (simp add: user_ok_def map_ok_def)
    moreover have "user_ok (insert (usr_uuid u) ?us) v" if "v \<in> set (db_users db)" for v
      using old that by (auto simp: list_all_iff intro: user_ok_mono)
    ultimately show ?thesis by (simp add: list_all_iff)
  qed
  ultimately have "users_ok (pushUser u db)"
    using assms by (auto simp: users_ok_def db_ok_def pushUser_def user_ids_def)
  moreover have "teams_ok (insert (usr_uuid u) ?us) (db_teams db)"
    using assms(1) by (auto simp: db_ok_def intro: teams_ok_mono)
  ultimately show ?thesis by (simp add: db_ok_def pushUser_def user_ids_def)
qed

text \<open>A write that keeps identity, name and conversations (the connection counter).\<close>

lemma mirrored_update:
  assumes "mirrored us" and "\<And>u. usr_uuid (f u) = usr_uuid u" and "\<And>u. conversation (f u) = conversation u"
  shows "mirrored (update_first P f us)"
proof -
  have "\<exists>y \<in> set us. usr_uuid x = usr_uuid y \<and> conversation x = conversation y"
    if "x \<in> set (update_first P f us)" for x
  proof -
    from that set_update_first_subset [of P f us] have "x \<in> set us \<or> (\<exists>y \<in> set us. x = f y)" by blast
    then show ?thesis using assms(2,3) by auto
  qed
  then show ?thesis using assms(1) unfolding mirrored_def list_all_iff by metis
qed

lemma db_ok_connection:
  assumes "db_ok db" and f: "\<And>u. usr_uuid (f u) = usr_uuid u" "\<And>u. usr_name (f u) = usr_name u"
    "\<And>u. usr_messages (f u) = usr_messages u"
  shows "db_ok (db\<lparr>db_users := update_first P f (db_users db)\<rparr>)"
proof -
  have ids: "map usr_uuid (update_first P f (db_users db)) = user_ids db"
    using f by (simp add: map_update_first user_ids_def)
  have "conversation (f u) = conversation u" for u by (simp add: conversation_def f fun_eq_iff)
  then have "mirrored (update_first P f (db_users db))"
    using assms(1) f by (intro mirrored_update) (auto simp: db_ok_def users_ok_def)
  moreover have "list_all (user_ok (set (user_ids db))) (update_first P f (db_users db))"
    using assms(1) f by (intro list_all_update_first) (auto simp: db_ok_def users_ok_def user_ok_def)
  ultimately show ?thesis
    using assms(1) f by (simp add: db_ok_def users_ok_def ids user_ids_def map_update_first)
qed

text \<open>The two \<open>addMessage\<close> calls of \<open>/send\<close> together.\<close>

lemma list_all_map_upsert:
  "list_all P m \<Longrightarrow> P (k, f d) \<Longrightarrow> (\<And>v. P (k, v) \<Longrightarrow> P (k, f v)) \<Longrightarrow> list_all P (map_upsert k d f m)"
  by (induction k d f m rule: map_upsert.induct) auto

lemma user_ok_addMessage:
  assumes "user_ok us u" and "k \<in> us" and "message_ok (usr_uuid u) k m"
  shows "user_ok us (addMessage k m u)"
  using assms
  by (auto simp: user_ok_def addMessage_def map_ok_upsert intro!: list_all_map_upsert)

definition exchanged :: "uuid \<Rightarrow> uuid \<Rightarrow> message \<Rightarrow> database \<Rightarrow> database" where
  "exchanged a b m db = modifyUser b (addMessage a m) (modifyUser a (addMessage b m) db)"

definition exchange :: "uuid \<Rightarrow> uuid \<Rightarrow> message \<Rightarrow> user \<Rightarrow> user" where
  "exchange a b m u =
     (let v = (if usr_uuid u = a then addMessage b m u else u)
      in if usr_uuid v = b then addMessage a m v else v)"

lemma exchange_fields [simp]:
  "usr_uuid (exchange a b m u) = usr_uuid u" "usr_name (exchange a b m u) = usr_name u"
  "usr_connectedCount (exchange a b m u) = usr_connectedCount u"
  by (simp_all add: exchange_def Let_def frame_simps)

lemma exchanged_users:
  assumes "distinct (user_ids db)"
  shows "exchanged a b m db = db\<lparr>db_users := map (exchange a b m) (db_users db)\<rparr>"
proof -
  let ?f = "\<lambda>u. if usr_uuid u = a then addMessage b m u else u"
  have d: "distinct (map usr_uuid (db_users db))" using assms by (simp add: user_ids_def)
  then have d': "distinct (map usr_uuid (map ?f (db_users db)))"
    by (simp add: o_def if_distrib [of usr_uuid] frame_simps cong: if_cong)
  have "map (\<lambda>u. if usr_uuid u = b then addMessage a m u else u) (map ?f (db_users db)) =
      map (exchange a b m) (db_users db)"
    by (simp add: exchange_def [abs_def] Let_def o_def)
  then have "update_first (\<lambda>u. usr_uuid u = b) (addMessage a m) (map ?f (db_users db)) =
      map (exchange a b m) (db_users db)"
    by (simp only: update_first_as_map [OF d'])
  then show ?thesis
    by (simp add: exchanged_def modifyUser_def update_first_as_map [OF d])
qed

lemma conversation_exchange:
  assumes "map_ok (usr_messages u)"
  shows "conversation (exchange a b m u) k = conversation u k @
    (if usr_uuid u = a \<and> k = b then [m] else []) @ (if usr_uuid u = b \<and> k = a then [m] else [])"
proof -
  have "map_ok (usr_messages (addMessage b m u))"
    using assms by (simp add: addMessage_def map_ok_upsert)
  with assms show ?thesis
    by (cases "usr_uuid u = a"; cases "usr_uuid u = b")
      (simp_all add: exchange_def Let_def frame_simps conversation_addMessage)
qed

lemma user_ok_exchange:
  assumes "user_ok us u" and "a \<in> us" and "b \<in> us" and "message_ok a b m"
  shows "user_ok us (exchange a b m u)"
proof -
  have sym: "message_ok b a m" using assms(4) by (auto simp: message_ok_def)
  define v where "v = (if usr_uuid u = a then addMessage b m u else u)"
  have "user_ok us v" using assms by (auto simp: v_def intro: user_ok_addMessage)
  moreover have "usr_uuid v = usr_uuid u" by (simp add: v_def frame_simps)
  ultimately show ?thesis
    using assms(2) sym by (auto simp: exchange_def Let_def v_def [symmetric] intro: user_ok_addMessage)
qed

lemma db_ok_exchanged:
  assumes "db_ok db" and "a \<in> set (user_ids db)" and "b \<in> set (user_ids db)" and "message_ok a b m"
  shows "db_ok (exchanged a b m db)"
proof -
  let ?us = "db_users db"
  have us: "distinct (user_ids db)" "list_all (user_ok (set (user_ids db))) ?us" "mirrored ?us"
    using assms(1) by (simp_all add: db_ok_def users_ok_def)
  have mo: "map_ok (usr_messages u)" if "u \<in> set ?us" for u
    using us(2) that by (auto simp: list_all_iff user_ok_def)
  have mir: "conversation (exchange a b m u) (usr_uuid v) = conversation (exchange a b m v) (usr_uuid u)"
    if "u \<in> set ?us" "v \<in> set ?us" "usr_uuid u \<noteq> usr_uuid v" for u v
  proof -
    define p q where "p = (usr_uuid u = a \<and> usr_uuid v = b)" and "q = (usr_uuid u = b \<and> usr_uuid v = a)"
    have eq: "conversation u (usr_uuid v) = conversation v (usr_uuid u)"
      using us(3) that by (simp add: mirrored_def list_all_iff)
    have "conversation (exchange a b m u) (usr_uuid v) =
        conversation v (usr_uuid u) @ (if p then [m] else []) @ (if q then [m] else [])"
      unfolding p_def q_def eq [symmetric] by (rule conversation_exchange [OF mo [OF that(1)]])
    moreover have "conversation (exchange a b m v) (usr_uuid u) =
        conversation v (usr_uuid u) @ (if q then [m] else []) @ (if p then [m] else [])"
      using conversation_exchange [OF mo [OF that(2)], of a b m "usr_uuid u"]
      unfolding p_def q_def by (simp only: conj_commute)
    ultimately show ?thesis by simp
  qed
  have "mirrored (map (exchange a b m) ?us)"
    unfolding mirrored_def list_all_iff set_map
  proof (intro ballI impI, elim imageE)
    fix x y u v assume "x = exchange a b m u" "u \<in> set ?us" "y = exchange a b m v" "v \<in> set ?us"
      and "usr_uuid x \<noteq> usr_uuid y"
    with mir [of u v] show "conversation x (usr_uuid y) = conversation y (usr_uuid x)" by simp
  qed
  moreover have "list_all (user_ok (set (user_ids db))) (map (exchange a b m) ?us)"
    using us(2) assms(2-4) by (auto simp: list_all_iff intro: user_ok_exchange)
  ultimately show ?thesis
    using assms(1) by (simp add: exchanged_users [OF us(1)] db_ok_def users_ok_def user_ids_def o_def)
qed

section \<open>What stays findable\<close>

text \<open>Resources are never deleted: every write the commands make keeps users, and keeps the uuids of
  teams, channels and threads under the same path.\<close>

definition channel_le :: "channel \<Rightarrow> channel \<Rightarrow> bool" where
  "channel_le c d \<longleftrightarrow> chn_uuid d = chn_uuid c \<and> thr_uuid ` set (chn_threads c) \<subseteq> thr_uuid ` set (chn_threads d)"

definition team_le :: "team \<Rightarrow> team \<Rightarrow> bool" where
  "team_le t t' \<longleftrightarrow> team_uuid t' = team_uuid t \<and>
     (\<forall>c \<in> set (team_channels t). \<exists>d \<in> set (team_channels t'). channel_le c d)"

definition grows :: "database \<Rightarrow> database \<Rightarrow> bool" where
  "grows db db' \<longleftrightarrow> set (user_ids db) \<subseteq> set (user_ids db') \<and>
     (\<forall>t \<in> set (db_teams db). \<exists>t' \<in> set (db_teams db'). team_le t t')"

lemma channel_le_refl [simp]: "channel_le c c"
  by (simp add: channel_le_def)

lemma team_le_channels: "set (team_channels t) \<subseteq> set (team_channels t') \<Longrightarrow> team_uuid t' = team_uuid t \<Longrightarrow> team_le t t'"
  unfolding team_le_def by (blast intro: channel_le_refl)

lemma team_le_refl [simp]: "team_le t t"
  by (simp add: team_le_channels)

lemma update_first_related:
  "(\<And>y. R y y) \<Longrightarrow> (\<And>y. R y (f y)) \<Longrightarrow> x \<in> set xs \<Longrightarrow> \<exists>y \<in> set (update_first P f xs). R x y"
  by (induction xs) fastforce+

lemma team_le_update_channel:
  assumes "\<And>y. channel_le y (g y)"
  shows "team_le t (t\<lparr>team_channels := update_first P g (team_channels t)\<rparr>)"
proof -
  have "\<exists>d \<in> set (update_first P g (team_channels t)). channel_le c d" if "c \<in> set (team_channels t)" for c
    using that assms by (intro update_first_related) simp_all
  then show ?thesis by (simp add: team_le_def)
qed

lemma grows_refl [simp]: "grows db db"
  unfolding grows_def by (blast intro: team_le_refl)

lemma grows_teams:
  "db_users db' = db_users db \<Longrightarrow> db_teams db' = update_first P f (db_teams db) \<Longrightarrow>
   (\<And>t. team_le t (f t)) \<Longrightarrow> grows db db'"
  by (auto simp: grows_def user_ids_def intro: update_first_related)

lemma grows_users:
  "db_teams db' = db_teams db \<Longrightarrow> set (user_ids db) \<subseteq> set (user_ids db') \<Longrightarrow> grows db db'"
  unfolding grows_def by (simp, blast intro: team_le_refl)

lemma grows_modifyTeam: "(\<And>t. team_le t (f t)) \<Longrightarrow> grows db (modifyTeam k f db)"
  by (rule grows_teams [where P = "\<lambda>x. team_uuid x = k" and f = f]) (simp_all add: modifyTeam_def)

lemma grows_subscribers:
  "grows db (modifyTeam k (\<lambda>t. snd (addSubscriber u t)) db)"
  "grows db (modifyTeam k (\<lambda>t. snd (removeSubscriber u t)) db)"
  by (auto intro!: grows_modifyTeam team_le_channels simp: frame_simps)

lemma grows_pushTeam: "grows db (pushTeam t db)"
  unfolding grows_def by (simp add: pushTeam_def user_ids_def, blast intro: team_le_refl)

lemma grows_pushChannel: "grows db (modifyTeam k (\<lambda>t. t\<lparr>team_channels := team_channels t @ [c]\<rparr>) db)"
  by (auto intro!: grows_modifyTeam team_le_channels)

lemma grows_pushThread:
  "grows db (modifyChannel k c (\<lambda>y. y\<lparr>chn_threads := chn_threads y @ [th]\<rparr>) db)"
  unfolding modifyChannel_def
  by (intro grows_modifyTeam team_le_update_channel) (auto simp: channel_le_def)

lemma grows_pushReply:
  "grows db (modifyThread c th (\<lambda>z. z\<lparr>thr_replies := thr_replies z @ [r]\<rparr>) db)"
proof (rule grows_teams)
  show "team_le t (modifyThread_team c th (\<lambda>z. z\<lparr>thr_replies := thr_replies z @ [r]\<rparr>) t)" for t
  proof -
    have ids: "thr_uuid ` set (update_first P (\<lambda>z. z\<lparr>thr_replies := thr_replies z @ [r]\<rparr>) ys) = thr_uuid ` set ys"
      for P ys by (induction ys) auto
    show ?thesis
      unfolding modifyThread_team_def by (rule team_le_update_channel) (simp add: channel_le_def ids)
  qed
qed (simp_all add: modifyThread_def)

text \<open>Lookups in terms of membership, for a well-formed database.\<close>

lemma findUser_in: "findUser db u \<noteq> None \<longleftrightarrow> u \<in> set (user_ids db)"
  by (auto simp: findUser_def user_ids_def find_key_None)

lemma findUser_iff:
  "db_ok db \<Longrightarrow> findUser db u = Some x \<longleftrightarrow> x \<in> set (db_users db) \<and> usr_uuid x = u"
  by (simp add: db_ok_def users_ok_def user_ids_def findUser_def find_key_distinct)

lemma findUserByName_iff:
  "db_ok db \<Longrightarrow> findUserByName db n = Some x \<longleftrightarrow> x \<in> set (db_users db) \<and> usr_name x = n"
  by (simp add: db_ok_def users_ok_def findUserByName_def find_key_distinct)

lemma findTeam_iff:
  "db_ok db \<Longrightarrow> findTeam db k = Some t \<longleftrightarrow> t \<in> set (db_teams db) \<and> team_uuid t = k"
  by (simp add: db_ok_def teams_ok_def findTeam_def find_key_distinct)

lemma findChannel_iff:
  assumes "db_ok db"
  shows "findChannel db k c = Some y \<longleftrightarrow>
    (\<exists>t \<in> set (db_teams db). team_uuid t = k \<and> y \<in> set (team_channels t) \<and> chn_uuid y = c)"
proof (cases "findTeam db k")
  case None
  then have "k \<notin> team_uuid ` set (db_teams db)" by (simp add: findTeam_def find_key_None)
  with None show ?thesis by (auto simp: findChannel_def)
next
  case (Some t)
  then have t: "t \<in> set (db_teams db)" "team_uuid t = k" using findTeam_iff [OF assms] by auto
  have uniq: "t' = t" if "t' \<in> set (db_teams db)" "team_uuid t' = k" for t'
    using findTeam_iff [OF assms, of k t'] that Some by simp
  have "distinct (map chn_uuid (team_channels t))"
    using assms t by (auto simp: db_ok_def intro: distinct_channels)
  with Some have "findChannel db k c = Some y \<longleftrightarrow> y \<in> set (team_channels t) \<and> chn_uuid y = c"
    by (simp add: findChannel_def find_key_distinct)
  with t uniq show ?thesis by blast
qed

lemma findThread_iff:
  assumes "db_ok db"
  shows "findThread db c th = Some z \<longleftrightarrow>
    (\<exists>t \<in> set (db_teams db). \<exists>y \<in> set (team_channels t). chn_uuid y = c \<and> z \<in> set (chn_threads y) \<and> thr_uuid z = th)"
proof -
  let ?cs = "concat (map team_channels (db_teams db))"
  have d: "distinct (map chn_uuid ?cs)"
    using assms by (simp add: db_ok_def teams_ok_def channel_ids_def map_concat o_def)
  have dt: "distinct (map thr_uuid (chn_threads y))" if "y \<in> set ?cs" for y
    using assms that by (auto simp: db_ok_def teams_ok_def team_ok_def channel_ok_def list_all_iff)
  have "findThread db c th = Some z \<longleftrightarrow> (\<exists>y \<in> set ?cs. chn_uuid y = c \<and> z \<in> set (chn_threads y) \<and> thr_uuid z = th)"
  proof (cases "find (\<lambda>y. chn_uuid y = c) ?cs")
    case None
    then have "findThread db c th = None" by (simp add: findThread_def findThread_teams_flat)
    moreover from None have "c \<notin> chn_uuid ` set ?cs" by (simp add: find_key_None del: set_concat)
    ultimately show ?thesis by auto
  next
    case (Some y)
    then have y: "y \<in> set ?cs" "chn_uuid y = c"
      using find_key_distinct [OF d, of c] by (simp_all del: set_concat)
    have "y' = y" if "y' \<in> set ?cs" "chn_uuid y' = c" for y'
      using find_key_distinct [OF d, of c y'] that Some by (simp del: set_concat)
    with y have "y \<in> set ?cs" "chn_uuid y = c" "\<And>y'. y' \<in> set ?cs \<Longrightarrow> chn_uuid y' = c \<Longrightarrow> y' = y"
      by blast+
    moreover from Some dt [OF this(1)]
    have "findThread db c th = Some z \<longleftrightarrow> z \<in> set (chn_threads y) \<and> thr_uuid z = th"
      by (simp add: findThread_def findThread_teams_flat find_key_distinct)
    ultimately show ?thesis by blast
  qed
  then show ?thesis by auto
qed

lemma grows_findTeam: "db_ok db \<Longrightarrow> db_ok db' \<Longrightarrow> grows db db' \<Longrightarrow> findTeam db t \<noteq> None \<Longrightarrow> findTeam db' t \<noteq> None"
  by (fastforce simp: findTeam_iff grows_def team_le_def)

lemma grows_findChannel:
  "db_ok db \<Longrightarrow> db_ok db' \<Longrightarrow> grows db db' \<Longrightarrow> findChannel db t c \<noteq> None \<Longrightarrow> findChannel db' t c \<noteq> None"
  by (fastforce simp: findChannel_iff grows_def team_le_def channel_le_def)

lemma grows_findThread:
  assumes "db_ok db" "db_ok db'" "grows db db'" "findThread db c th \<noteq> None"
  shows "findThread db' c th \<noteq> None"
proof -
  from assms obtain t y z where tyz: "t \<in> set (db_teams db)" "y \<in> set (team_channels t)" "chn_uuid y = c"
    "z \<in> set (chn_threads y)" "thr_uuid z = th"
    by (auto simp: findThread_iff)
  with assms(3) obtain t' y' where "t' \<in> set (db_teams db')" "y' \<in> set (team_channels t')" "channel_le y y'"
    unfolding grows_def team_le_def by metis
  with tyz obtain z' where "z' \<in> set (chn_threads y')" "thr_uuid z' = th" "chn_uuid y' = c"
    unfolding channel_le_def by (metis image_iff subsetD)
  with \<open>t' \<in> _\<close> \<open>y' \<in> _\<close> show ?thesis using findThread_iff [OF assms(2), of c th z'] by auto
qed

section \<open>Which identifiers a write introduces\<close>

definition team_ids :: "team \<Rightarrow> uuid set" where
  "team_ids t = insert (team_uuid t) (chn_uuid ` set (team_channels t) \<union>
     (\<Union>c \<in> set (team_channels t). thr_uuid ` set (chn_threads c)))"

lemma all_ids_team_ids: "set (all_ids db) = set (user_ids db) \<union> (\<Union>t \<in> set (db_teams db). team_ids t)"
proof -
  have "set (map team_uuid ts) \<union> set (channel_ids ts) \<union> set (thread_ids ts) = (\<Union>t \<in> set ts. team_ids t)" for ts
    unfolding team_ids_def channel_ids_def thread_ids_def by (simp, blast)
  then show ?thesis by (simp add: all_ids_def Un_assoc)
qed

lemma UN_update_first:
  assumes "\<And>x. g (f x) \<subseteq> A \<union> g x"
  shows "(\<Union>x \<in> set (update_first P f xs). g x) \<subseteq> A \<union> (\<Union>x \<in> set xs. g x)"
proof (induction xs)
  case (Cons x xs)
  then show ?case using assms [of x] by auto
qed simp

lemma all_ids_teams:
  assumes "db_users db' = db_users db" and "db_teams db' = update_first P f (db_teams db)"
    and "\<And>t. team_ids (f t) \<subseteq> insert v (team_ids t)"
  shows "set (all_ids db') \<subseteq> insert v (set (all_ids db))"
proof -
  have "(\<Union>t \<in> set (db_teams db'). team_ids t) \<subseteq> {v} \<union> (\<Union>t \<in> set (db_teams db). team_ids t)"
    unfolding assms(2) by (rule UN_update_first) (use assms(3) in simp)
  then show ?thesis by (auto simp: all_ids_team_ids user_ids_def assms(1))
qed

lemma all_ids_modifyTeam:
  "(\<And>t. team_ids (f t) \<subseteq> insert v (team_ids t)) \<Longrightarrow>
   set (all_ids (modifyTeam k f db)) \<subseteq> insert v (set (all_ids db))"
  by (rule all_ids_teams [where P = "\<lambda>x. team_uuid x = k" and f = f]) (simp_all add: modifyTeam_def)

lemma team_ids_update_channel:
  assumes "\<And>y. chn_uuid (g y) = chn_uuid y"
    and "\<And>y. thr_uuid ` set (chn_threads (g y)) \<subseteq> insert v (thr_uuid ` set (chn_threads y))"
  shows "team_ids (t\<lparr>team_channels := update_first P g (team_channels t)\<rparr>) \<subseteq> insert v (team_ids t)"
proof -
  have "chn_uuid ` set (update_first P g cs) = chn_uuid ` set cs" for cs
    by (induction cs) (auto simp: assms(1))
  moreover have "(\<Union>c \<in> set (update_first P g cs). thr_uuid ` set (chn_threads c)) \<subseteq>
      {v} \<union> (\<Union>c \<in> set cs. thr_uuid ` set (chn_threads c))" for cs
    by (rule UN_update_first) (use assms(2) in simp)
  ultimately show ?thesis unfolding team_ids_def by (simp add: subset_iff) blast
qed

lemma all_ids_writes:
  "set (all_ids (modifyTeam k (\<lambda>t. snd (addSubscriber u t)) db)) \<subseteq> insert v (set (all_ids db))"
  "set (all_ids (modifyTeam k (\<lambda>t. snd (removeSubscriber u t)) db)) \<subseteq> insert v (set (all_ids db))"
  "set (all_ids (modifyTeam k (\<lambda>t. t\<lparr>team_channels := team_channels t @ [newChannel\<lparr>chn_uuid := v, chn_name := n,
     chn_description := d\<rparr>]\<rparr>) db)) \<subseteq> insert v (set (all_ids db))"
  by (rule all_ids_modifyTeam; auto simp: team_ids_def frame_simps newChannel_def)+

lemma all_ids_pushTeam:
  "team_channels t = [] \<Longrightarrow> set (all_ids (pushTeam t db)) = insert (team_uuid t) (set (all_ids db))"
  by (auto simp: all_ids_team_ids pushTeam_def user_ids_def team_ids_def)

lemma all_ids_pushThread:
  "set (all_ids (modifyChannel k c (\<lambda>y. y\<lparr>chn_threads := chn_threads y @ [th]\<rparr>) db))
     \<subseteq> insert (thr_uuid th) (set (all_ids db))"
  unfolding modifyChannel_def by (rule all_ids_modifyTeam, rule team_ids_update_channel) auto

lemma all_ids_pushReply:
  "set (all_ids (modifyThread c th (\<lambda>z. z\<lparr>thr_replies := thr_replies z @ [r]\<rparr>) db)) \<subseteq> insert v (set (all_ids db))"
proof (rule all_ids_teams)
  have ids: "thr_uuid ` set (update_first P (\<lambda>z. z\<lparr>thr_replies := thr_replies z @ [r]\<rparr>) ys) = thr_uuid ` set ys"
    for P ys by (induction ys) auto
  show "team_ids (modifyThread_team c th (\<lambda>z. z\<lparr>thr_replies := thr_replies z @ [r]\<rparr>) t) \<subseteq> insert v (team_ids t)" for t
    unfolding modifyThread_team_def by (rule team_ids_update_channel) (auto simp: ids)
qed (simp_all add: modifyThread_def)

lemma all_ids_users:
  "(\<And>u. usr_uuid (f u) = usr_uuid u) \<Longrightarrow> all_ids (db\<lparr>db_users := update_first P f (db_users db)\<rparr>) = all_ids db"
  by (simp add: all_ids_def user_ids_def map_update_first)

lemma all_ids_modifyUser:
  "(\<And>u. usr_uuid (f u) = usr_uuid u) \<Longrightarrow> all_ids (modifyUser k f db) = all_ids db"
  "(\<And>u. usr_uuid (f u) = usr_uuid u) \<Longrightarrow> all_ids (modifyUserByName n f db) = all_ids db"
  by (simp_all add: modifyUser_def modifyUserByName_def all_ids_users)

lemma all_ids_pushUser: "set (all_ids (pushUser u db)) = insert (usr_uuid u) (set (all_ids db))"
  by (auto simp: all_ids_def pushUser_def user_ids_def)

end
