(* ===== verification/Session_Inv.thy ===== *)
theory Session_Inv
  imports Cmd_Create Db_Inv
begin

text \<open>
  The invariant that ties the connections to the database: every session belongs to a known user,
  every context points at existing resources, and the connection counter of a user is exactly the
  number of connections logged in as that user. Every command keeps it.
\<close>

section \<open>Predicates\<close>

definition ctx_ok :: "database \<Rightarrow> ctx \<Rightarrow> bool" where
  "ctx_ok db x \<longleftrightarrow>
     (ctx_channelUuid x \<noteq> [] \<longrightarrow> ctx_teamUuid x \<noteq> []) \<and>
     (ctx_threadUuid x \<noteq> [] \<longrightarrow> ctx_channelUuid x \<noteq> []) \<and>
     (ctx_teamUuid x \<noteq> [] \<longrightarrow> findTeam db (ctx_teamUuid x) \<noteq> None) \<and>
     (ctx_channelUuid x \<noteq> [] \<longrightarrow> findChannel db (ctx_teamUuid x) (ctx_channelUuid x) \<noteq> None) \<and>
     (ctx_threadUuid x \<noteq> [] \<longrightarrow> findThread db (ctx_channelUuid x) (ctx_threadUuid x) \<noteq> None)"

definition session_ok :: "database \<Rightarrow> fd \<times> uuid \<times> ctx \<Rightarrow> bool" where
  "session_ok db = (\<lambda>(k, u, x). (u = [] \<or> u \<in> set (user_ids db)) \<and> ctx_ok db x)"

definition session_count :: "uuid \<Rightarrow> (fd \<times> uuid \<times> ctx) list \<Rightarrow> nat" where
  "session_count u ss = length (filter (\<lambda>(k, v, x). v = u) ss)"

definition counts_ok :: "user list \<Rightarrow> (fd \<times> uuid \<times> ctx) list \<Rightarrow> bool" where
  "counts_ok us ss \<longleftrightarrow> list_all (\<lambda>u. usr_connectedCount u = int (session_count (usr_uuid u) ss)) us"

definition sessions_ok :: "database \<Rightarrow> (fd \<times> uuid \<times> ctx) list \<Rightarrow> bool" where
  "sessions_ok db ss \<longleftrightarrow> distinct (map fst ss) \<and> list_all (session_ok db) ss \<and> counts_ok (db_users db) ss"

definition server_inv :: "server \<Rightarrow> bool" where
  "server_inv s \<longleftrightarrow> db_ok (srv_db s) \<and> sessions_ok (srv_db s) (sessions s)"

section \<open>Changing one session\<close>

definition set_user :: "fd \<Rightarrow> uuid \<Rightarrow> (fd \<times> uuid \<times> ctx) list \<Rightarrow> (fd \<times> uuid \<times> ctx) list" where
  "set_user fd u = map (\<lambda>(k, v, x). (k, if k = fd then u else v, x))"

definition set_ctx :: "fd \<Rightarrow> ctx \<Rightarrow> (fd \<times> uuid \<times> ctx) list \<Rightarrow> (fd \<times> uuid \<times> ctx) list" where
  "set_ctx fd y = map (\<lambda>(k, v, x). (k, v, if k = fd then y else x))"

lemma sessions_set [frame_simps]:
  "sessions (setUserUuid fd u s) = set_user fd u (sessions s)"
  "sessions (setContext fd y s) = set_ctx fd y (sessions s)"
  "sessions (setArgs fd as s) = sessions s"
  by (auto simp: sessions_def setUserUuid_def setContext_def setArgs_def modifyClient_def map_clients_def
      set_user_def set_ctx_def)

lemma srv_db_set [frame_simps]:
  "srv_db (setUserUuid fd u s) = srv_db s" "srv_db (setContext fd y s) = srv_db s"
  "srv_db (setArgs fd as s) = srv_db s"
  by (simp_all add: setUserUuid_def setContext_def setArgs_def frame_simps)

lemma session_count_simps [simp]:
  "session_count u [] = 0"
  "session_count u ((k, v, x) # ss) = (if v = u then 1 else 0) + session_count u ss"
  by (simp_all add: session_count_def)

lemma session_count_set_ctx [simp]: "session_count u (set_ctx fd y ss) = session_count u ss"
  by (induction ss) (auto simp: set_ctx_def)

lemma fst_set [simp]: "map fst (set_user fd u ss) = map fst ss" "map fst (set_ctx fd y ss) = map fst ss"
  by (simp_all add: set_user_def set_ctx_def o_def split_def)

lemma set_user_absent: "fd \<notin> fst ` set ss \<Longrightarrow> set_user fd u ss = ss"
  by (induction ss) (auto simp: set_user_def)

lemma session_count_set_user:
  assumes "distinct (map fst ss)" and "(fd, v, x) \<in> set ss"
  shows "int (session_count w (set_user fd u ss)) =
    int (session_count w ss) - (if v = w then 1 else 0) + (if u = w then 1 else 0)"
  using assms
proof (induction ss)
  case (Cons a ss)
  obtain k v' x' where a: "a = (k, v', x')" using prod_cases3 by blast
  show ?case
  proof (cases "k = fd")
    case True
    with Cons.prems a have "fd \<notin> fst ` set ss" "v' = v" by (auto simp: image_iff)
    with True a set_user_absent [of fd ss u] show ?thesis by (simp add: set_user_def)
  next
    case False
    with Cons a show ?thesis by (auto simp: set_user_def)
  qed
qed simp

lemma sessions_clientAt:
  assumes "fd \<in> set (fds s)"
  shows "(fd, cl_userUuid (clientAt s fd), cl_context (clientAt s fd)) \<in> set (sessions s)"
proof -
  from assms obtain c where c: "map_of (srv_clients s) fd = Some c"
    using getClient_Some [of s fd] by (auto simp: getClient_def)
  then have "(fd, c) \<in> set (srv_clients s)" by (rule map_of_SomeD)
  with c show ?thesis by (force simp: sessions_def clientAt_def getClient_def)
qed

lemma session_user_known:
  assumes "server_inv s" and "cl_userUuid (clientAt s fd) \<noteq> []"
  shows "cl_userUuid (clientAt s fd) \<in> set (user_ids (srv_db s))" and "fd \<in> set (fds s)"
proof -
  show "fd \<in> set (fds s)" using assms(2) clientAt_absent [of fd s] by (cases "fd \<in> set (fds s)") (simp_all add: newClient_def)
  from sessions_clientAt [OF this] show "cl_userUuid (clientAt s fd) \<in> set (user_ids (srv_db s))"
    using assms by (auto simp: server_inv_def sessions_ok_def session_ok_def list_all_iff)
qed

lemma context_exists:
  assumes "server_inv s"
  shows "ctx_ok (srv_db s) (cl_context (clientAt s fd))"
proof (cases "fd \<in> set (fds s)")
  case True
  from sessions_clientAt [OF this] assms show ?thesis
    by (auto simp: server_inv_def sessions_ok_def session_ok_def list_all_iff)
next
  case False
  then show ?thesis by (simp add: clientAt_absent newClient_def emptyCtx_def ctx_ok_def)
qed

lemma ctx_ok_empty [simp]: "ctx_ok db emptyCtx"
  by (simp add: emptyCtx_def ctx_ok_def)

lemma ctx_ok_grows: "db_ok db \<Longrightarrow> db_ok db' \<Longrightarrow> grows db db' \<Longrightarrow> ctx_ok db x \<Longrightarrow> ctx_ok db' x"
  unfolding ctx_ok_def using grows_findTeam grows_findChannel grows_findThread by metis

section \<open>Steps that keep the invariant\<close>

lemma session_ok_grows:
  "db_ok db \<Longrightarrow> db_ok db' \<Longrightarrow> grows db db' \<Longrightarrow> session_ok db y \<Longrightarrow> session_ok db' y"
  by (auto simp: session_ok_def grows_def intro: ctx_ok_grows [of db db', unfolded grows_def])

text \<open>A write to the database that keeps the connection counters and deletes nothing.\<close>

definition counters :: "database \<Rightarrow> (uuid \<times> int) list" where
  "counters db = map (\<lambda>u. (usr_uuid u, usr_connectedCount u)) (db_users db)"

lemma counts_ok_counters: "counts_ok us ss \<longleftrightarrow> (\<forall>(u, n) \<in> set (map (\<lambda>u. (usr_uuid u, usr_connectedCount u)) us). n = int (session_count u ss))"
  by (auto simp: counts_ok_def list_all_iff)

lemma server_inv_write:
  assumes "server_inv s" and "sessions t = sessions s" and "db_ok (srv_db t)"
    and "grows (srv_db s) (srv_db t)" and "counters (srv_db t) = counters (srv_db s)"
  shows "server_inv t"
proof -
  have "list_all (session_ok (srv_db t)) (sessions s)"
    using assms(1,3,4) by (auto simp: server_inv_def sessions_ok_def list_all_iff intro: session_ok_grows)
  moreover have "counts_ok (db_users (srv_db t)) (sessions s)"
    using assms(1,5) by (simp add: server_inv_def sessions_ok_def counts_ok_counters counters_def)
  ultimately show ?thesis using assms by (simp add: server_inv_def sessions_ok_def)
qed

lemma server_inv_same: "srv_db t = srv_db s \<Longrightarrow> sessions t = sessions s \<Longrightarrow> server_inv t = server_inv s"
  by (simp add: server_inv_def)

lemma server_inv_frames [frame_simps]:
  "server_inv (sendToClient m fd s) = server_inv s" "server_inv (broadcast m s) = server_inv s"
  "server_inv (sendToUser u m s) = server_inv s" "server_inv (notifySubscribers k m s) = server_inv s"
  "server_inv (logEvent ev s) = server_inv s" "server_inv (setArgs fd as s) = server_inv s"
  by (simp_all add: server_inv_def frame_simps)

lemma server_inv_emit [frame_simps]:
  "server_inv (emitTeamCreated fd t s) = server_inv s"
  "server_inv (emitChannelCreated fd tu c s) = server_inv s"
  "server_inv (emitThreadCreated fd tu cu th s) = server_inv s"
  "server_inv (emitReplyCreated fd tu thu r s) = server_inv s"
  by (simp_all add: server_inv_def frame_simps)

lemma counters_teams: "db_users db' = db_users db \<Longrightarrow> counters db' = counters db"
  by (simp add: counters_def)

lemma server_inv_modifyDb_teams:
  "server_inv s \<Longrightarrow> db_ok (g (srv_db s)) \<Longrightarrow> grows (srv_db s) (g (srv_db s)) \<Longrightarrow>
   db_users (g (srv_db s)) = db_users (srv_db s) \<Longrightarrow> server_inv (modifyDb g s)"
  by (rule server_inv_write) (simp_all add: frame_simps counters_def)

section \<open>Commands that only answer\<close>

lemma inv_UsersCommand: "server_inv s \<Longrightarrow> server_inv (UsersCommand_execute e fd s)"
  by (simp add: UsersCommand_execute_def fold_sendToClient frame_simps)

lemma inv_UserCommand: "server_inv s \<Longrightarrow> server_inv (UserCommand_execute e fd s)"
  by (simp add: UserCommand_execute_def Let_def frame_simps split: option.split)

lemma inv_Messages: "server_inv s \<Longrightarrow> server_inv (Messages_execute e fd s)"
  by (simp add: Messages_execute_def Let_def fold_sendMessageLine frame_simps split: option.split)

lemma inv_Subscribed: "server_inv s \<Longrightarrow> server_inv (Subscribed_execute e fd s)"
  by (simp add: Subscribed_execute_def listAllTeams_def listSubscribedUsers_def Let_def
      fold_sendToClient_if fold_sendToClient_option frame_simps split: option.split)

lemma inv_List: "server_inv s \<Longrightarrow> server_inv (List_execute e fd s)"
  by (simp add: List_execute_def List_executeReply_def List_executeThread_def List_executeChannel_def
      List_executeTeam_def Let_def fold_sendToClient frame_simps split: option.split)

lemma inv_Info: "server_inv s \<Longrightarrow> server_inv (Info_execute e fd s)"
  by (simp add: Info_execute_def Info_executeTeam_def Info_executeChannel_def Info_executeThread_def
      Info_executeUser_def Let_def frame_simps split: option.split)

section \<open>Commands that write to teams\<close>

lemma inv_Subscribe:
  assumes "server_inv s"
  shows "server_inv (Subscribe_execute e fd s)"
proof -
  let ?u = "cl_userUuid (clientAt s fd)"
  have "server_inv (modifyDb (modifyTeam k (\<lambda>x. snd (addSubscriber ?u x))) s)" if "?u \<noteq> []" for k
    using assms session_user_known(1) [OF assms that]
    by (intro server_inv_modifyDb_teams)
      (auto simp: server_inv_def frame_simps intro: db_ok_addSubscriber grows_subscribers)
  with assms show ?thesis
    by (simp add: Subscribe_execute_def Let_def frame_simps split: option.split)
qed

lemma inv_Unsubscribe:
  assumes "server_inv s"
  shows "server_inv (Unsubscribe_execute e fd s)"
proof -
  have "server_inv (modifyDb (modifyTeam k (\<lambda>x. snd (removeSubscriber u x))) s)" for k u
    using assms by (intro server_inv_modifyDb_teams)
      (auto simp: server_inv_def frame_simps intro: db_ok_removeSubscriber grows_subscribers)
  with assms show ?thesis
    by (simp add: Unsubscribe_execute_def Let_def frame_simps split: option.split)
qed

lemma within_iff: "within n v \<longleftrightarrow> \<not> isInvalidLength v n"
  by (auto simp: within_def isInvalidLength_def)

lemmas limit_defs = within_iff MAX_NAME_LENGTH_def MAX_DESCRIPTION_LENGTH_def MAX_BODY_LENGTH_def

lemma inv_pushTeam:
  assumes "server_inv s" and "fresh_uuid (team_uuid t) (srv_db s)" and "within 32 (team_name t)"
    and "within 255 (team_description t)" and "distinct (team_subscriberUuids t)"
    and "set (team_subscriberUuids t) \<subseteq> set (user_ids (srv_db s))" and "team_channels t = []"
    and "team_name t \<notin> team_name ` set (db_teams (srv_db s))"
  shows "server_inv (modifyDb (pushTeam t) s)"
proof (rule server_inv_modifyDb_teams [OF assms(1)])
  have "team_ok (set (user_ids (srv_db s))) t" using assms by (simp add: team_ok_def fresh_uuid_iff)
  then show "db_ok (pushTeam t (srv_db s))"
    using assms by (intro db_ok_pushTeam) (auto simp: server_inv_def fresh_uuid_iff)
qed (simp_all add: grows_pushTeam frame_simps)

lemma inv_Create_executeTeam:
  assumes "server_inv s" and "fresh_uuid (env_uuid e) (srv_db s)" and "cl_userUuid (clientAt s fd) \<noteq> []"
  shows "server_inv (Create_executeTeam e fd s)"
proof -
  let ?u = "cl_userUuid (clientAt s fd)"
  let ?t = "\<lambda>n d. snd (addSubscriber ?u (newTeam\<lparr>team_uuid := env_uuid e, team_name := n, team_description := d\<rparr>))"
  have "server_inv (modifyDb (pushTeam (?t n d)) s)"
    if "within 32 n" "within 255 d" "\<forall>t \<in> set (db_teams (srv_db s)). team_name t \<noteq> n" for n d
    using assms that session_user_known(1) [OF assms(1,3)]
    by (intro inv_pushTeam) (auto simp: addSubscriber_def isUserSubscribed_def newTeam_def)
  with assms(1,3) show ?thesis
    by (simp add: Create_executeTeam_def Let_def frame_simps limit_defs)
qed

lemma accessibleTeam_Inr: "findAccessibleTeam fd k s = Inr t \<Longrightarrow> findTeam (srv_db s) k = Some t"
  by (auto simp: findAccessibleTeam_def split: option.splits if_splits)

lemma channelOr404_Inr: "findChannelOrSend404 k c s = Inr y \<Longrightarrow> findChannel (srv_db s) k c = Some y"
  by (auto simp: findChannelOrSend404_def split: option.splits)

lemma inv_Create_executeChannel:
  assumes "server_inv s" and "fresh_uuid (env_uuid e) (srv_db s)"
  shows "server_inv (Create_executeChannel e fd s)"
proof -
  let ?c = "\<lambda>n d. newChannel\<lparr>chn_uuid := env_uuid e, chn_name := n, chn_description := d\<rparr>"
  have "server_inv (modifyDb (modifyTeam k (\<lambda>t. t\<lparr>team_channels := team_channels t @ [?c n d]\<rparr>)) s)"
    if "within 32 n" "within 255 d" "findTeam (srv_db s) k = Some t" "\<forall>c \<in> set (team_channels t). chn_name c \<noteq> n"
    for n d k t
  proof (rule server_inv_modifyDb_teams [OF assms(1)])
    have "channel_ok (?c n d)" using assms(2) that by (simp add: channel_ok_def newChannel_def fresh_uuid_iff)
    then show "db_ok (modifyTeam k (\<lambda>t. t\<lparr>team_channels := team_channels t @ [?c n d]\<rparr>) (srv_db s))"
      using assms that by (intro db_ok_pushChannel) (auto simp: server_inv_def fresh_uuid_iff)
  qed (simp_all add: grows_pushChannel frame_simps)
  with assms(1) show ?thesis
    by (simp add: Create_executeChannel_def Let_def frame_simps limit_defs accessibleTeam_Inr split: sum.split)
qed

lemma inv_Create_executeThread:
  assumes "server_inv s" and "fresh_uuid (env_uuid e) (srv_db s)"
  shows "server_inv (Create_executeThread e fd s)"
proof -
  let ?h = "\<lambda>u n b. newThread\<lparr>thr_uuid := env_uuid e, thr_userUuid := u, thr_title := n, thr_body := b,
    thr_timestamp := env_time e\<rparr>"
  have "server_inv (modifyDb (modifyChannel k c (\<lambda>y. y\<lparr>chn_threads := chn_threads y @ [?h u n b]\<rparr>)) s)"
    if "within 32 n" "within 512 b" "findChannel (srv_db s) k c = Some y"
      "\<forall>th \<in> set (chn_threads y). thr_title th \<noteq> n" for n b k c y u
  proof (rule server_inv_modifyDb_teams [OF assms(1)])
    have "thread_ok (?h u n b)" using assms(2) that by (simp add: thread_ok_def newThread_def fresh_uuid_iff)
    then show "db_ok (modifyChannel k c (\<lambda>y. y\<lparr>chn_threads := chn_threads y @ [?h u n b]\<rparr>) (srv_db s))"
      using assms that by (intro db_ok_pushThread) (auto simp: server_inv_def fresh_uuid_iff)
  qed (simp_all add: grows_pushThread frame_simps)
  with assms(1) show ?thesis
    by (simp add: Create_executeThread_def Let_def frame_simps limit_defs channelOr404_Inr split: sum.split)
qed

lemma inv_Create_executeReply:
  assumes "server_inv s"
  shows "server_inv (Create_executeReply e fd s)"
proof -
  let ?r = "\<lambda>u b. newReply\<lparr>rep_uuid := env_uuid e, rep_userUuid := u, rep_body := b, rep_timestamp := env_time e\<rparr>"
  have "server_inv (modifyDb (modifyThread c th (\<lambda>y. y\<lparr>thr_replies := thr_replies y @ [?r u b]\<rparr>)) s)"
    if "within 512 b" for b u c th
    using assms that by (intro server_inv_modifyDb_teams)
      (auto simp: server_inv_def frame_simps reply_ok_def intro: db_ok_pushReply grows_pushReply)
  with assms show ?thesis
    by (simp add: Create_executeReply_def Let_def frame_simps limit_defs split: sum.split)
qed

lemma inv_Create:
  assumes "server_inv s" and "fresh_uuid (env_uuid e) (srv_db s)"
  shows "server_inv (Create_execute e fd s)"
  using assms inv_Create_executeTeam inv_Create_executeChannel inv_Create_executeThread inv_Create_executeReply
  by (simp add: Create_execute_def Let_def frame_simps)

section \<open>/send\<close>

lemma modifyDb_modifyDb: "modifyDb g (modifyDb f s) = modifyDb (\<lambda>d. g (f d)) s"
  by (simp add: modifyDb_def)

lemma inv_exchanged:
  assumes "server_inv s" and "a \<in> set (user_ids (srv_db s))" and "b \<in> set (user_ids (srv_db s))"
    and "message_ok a b m"
  shows "server_inv (modifyDb (exchanged a b m) s)"
proof (rule server_inv_write [OF assms(1)])
  have ok: "db_ok (srv_db s)" using assms(1) by (simp add: server_inv_def)
  then have d: "distinct (user_ids (srv_db s))" by (simp add: db_ok_def users_ok_def)
  show "db_ok (srv_db (modifyDb (exchanged a b m) s))"
    using assms ok by (simp add: frame_simps db_ok_exchanged)
  show "grows (srv_db s) (srv_db (modifyDb (exchanged a b m) s))"
    by (rule grows_users) (simp_all add: frame_simps exchanged_users [OF d] user_ids_def image_image)
  show "counters (srv_db (modifyDb (exchanged a b m) s)) = counters (srv_db s)"
    by (simp add: frame_simps exchanged_users [OF d] counters_def)
qed (simp add: frame_simps)

lemma findUser_uuid: "findUser db u = Some x \<Longrightarrow> usr_uuid x = u \<and> u \<in> set (user_ids db)"
  using findUser_in [of db u] users.lookup_key by auto

text \<open>\<open>/send\<close> as a function of its arguments: the reply that refuses it, or what it does when
  all its checks pass.\<close>

definition send_refusal :: "database \<Rightarrow> uuid \<Rightarrow> string list \<Rightarrow> string option" where
  "send_refusal db u args =
     (if length args < 3 \<or> args ! 1 = [] \<or> args ! 2 = [] \<or> length (args ! 2) > 512 then Some R400
      else if findUser db u = None then Some R401
      else if findUser db (args ! 1) = None
      then Some (''404 NOT_FOUND USER '' @ quoteProtocolField (args ! 1) @ CRLF)
      else None)"

definition sent :: "int \<Rightarrow> uuid \<Rightarrow> uuid \<Rightarrow> string \<Rightarrow> message" where
  "sent now u k b = \<lparr>msg_senderUuid = u, msg_receiverUuid = k, msg_timestamp = now, msg_body = b\<rparr>"

definition privateMessage :: "uuid \<Rightarrow> string \<Rightarrow> string" where
  "privateMessage u b = ''EVENT PRIVATE_MESSAGE '' @ quoteProtocolField u @ '' '' @ quoteProtocolField b @ CRLF"

lemma Send_execute_outcome:
  "Send_execute e fd s =
    (let args = cl_args (clientAt s fd); u = cl_userUuid (clientAt s fd); k = args ! 1; b = args ! 2 in
     case send_refusal (srv_db s) u args of
       Some r \<Rightarrow> sendToClient r fd s
     | None \<Rightarrow> sendToClient R200 fd (sendToUser k (privateMessage u b)
         (logEvent (server_event_private_message_sended (c_str u) (c_str k) (c_str b))
           (modifyDb (exchanged u k (sent (env_time e) u k b)) s))))"
proof -
  have "usr_uuid x = k" if "findUser (srv_db s) k = Some x" for x k
    using that findUser_uuid by blast
  then show ?thesis
    by (auto simp: Send_execute_def Let_def modifyDb_modifyDb exchanged_def [abs_def] newMessage_def
        send_refusal_def sent_def privateMessage_def MAX_BODY_LENGTH_def split: option.split)
qed

lemma send_refusal_None:
  "send_refusal db u args = None \<Longrightarrow> u \<in> set (user_ids db) \<and> args ! 1 \<in> set (user_ids db) \<and>
     message_ok u (args ! 1) (sent now u (args ! 1) (args ! 2))"
  using findUser_in [of db u] findUser_in [of db "args ! 1"]
  by (auto simp: send_refusal_def message_ok_def sent_def within_def split: if_splits)

lemma inv_Send:
  assumes "server_inv s"
  shows "server_inv (Send_execute e fd s)"
  using assms send_refusal_None [of "srv_db s"]
  by (auto simp: Send_execute_outcome Let_def frame_simps intro!: inv_exchanged split: option.split)

section \<open>/use\<close>

lemma inv_setContext:
  assumes "server_inv s" and "ctx_ok (srv_db s) x"
  shows "server_inv (setContext fd x s)"
proof -
  have "list_all (session_ok (srv_db s)) (set_ctx fd x (sessions s))"
    using assms by (auto simp: server_inv_def sessions_ok_def set_ctx_def list_all_iff session_ok_def)
  then show ?thesis using assms by (simp add: server_inv_def sessions_ok_def frame_simps counts_ok_def)
qed

lemma db_ok_nonempty:
  assumes "db_ok db"
  shows "findTeam db [] = None" "findChannel db k [] = None" "findThread db c [] = None"
    "findChannel db [] c = None"
proof -
  have n: "team_uuid t \<noteq> [] \<and> (\<forall>y \<in> set (team_channels t). chn_uuid y \<noteq> [] \<and>
      (\<forall>z \<in> set (chn_threads y). thr_uuid z \<noteq> []))" if "t \<in> set (db_teams db)" for t
    using assms that by (auto simp: db_ok_def teams_ok_def team_ok_def channel_ok_def thread_ok_def list_all_iff)
  have "findTeam db [] \<noteq> Some t" for t using n findTeam_iff [OF assms] by blast
  then show t: "findTeam db [] = None" by blast
  have "findChannel db k [] \<noteq> Some y" for y using n findChannel_iff [OF assms] by blast
  then show "findChannel db k [] = None" by blast
  have "findThread db c [] \<noteq> Some z" for z using n findThread_iff [OF assms] by blast
  then show "findThread db c [] = None" by blast
  from t show "findChannel db [] c = None" by (simp add: findChannel_def)
qed

text \<open>What \<open>/use\<close> answers and installs, as a function of its arguments: the three staged checks
  with their intermediate replies flattened.\<close>

definition use_ctx :: "string list \<Rightarrow> ctx" where
  "use_ctx args = \<lparr>ctx_teamUuid = (if length args < 2 then [] else args ! 1),
     ctx_channelUuid = (if length args < 3 then [] else args ! 2),
     ctx_threadUuid = (if length args < 4 then [] else args ! 3)\<rparr>"

definition use_outcome :: "database \<Rightarrow> uuid \<Rightarrow> string list \<Rightarrow> string \<times> ctx option" where
  "use_outcome db u args =
     (if length args > 4 then (R400, None)
      else if length args < 2 then (R200, Some (use_ctx args))
      else case findTeam db (args ! 1) of
        None \<Rightarrow> (notFoundTeam (args ! 1), None)
      | Some t \<Rightarrow>
          if \<not> isUserSubscribed t u then (R403, None)
          else if length args = 2 then (R200, Some (use_ctx args))
          else if findChannel db (args ! 1) (args ! 2) = None then (R200 @ notFoundChannel (args ! 2), None)
          else if length args = 3 then (R200 @ R200, Some (use_ctx args))
          else if findThread db (args ! 2) (args ! 3) = None
          then (R200 @ R200 @ notFoundThread (args ! 3), None)
          else (R200 @ R200 @ R200, Some (use_ctx args)))"

lemma Use_execute_outcome:
  assumes "cl_userUuid (clientAt s fd) \<noteq> []"
  shows "Use_execute e fd s =
    (case use_outcome (srv_db s) (cl_userUuid (clientAt s fd)) (cl_args (clientAt s fd)) of
       (r, None) \<Rightarrow> sendToClient r fd s
     | (r, Some x) \<Rightarrow> setContext fd x (sendToClient r fd s))"
proof -
  let ?as = "cl_args (clientAt s fd)"
  consider "length ?as > 4" | "length ?as < 2" | "length ?as = 2" | "length ?as = 3" | "length ?as = 4"
    by linarith
  then show ?thesis
    by cases (simp_all add: assms Use_execute_def validateAndSetTeam_def validateAndSetChannel_def
        validateAndSetThread_def use_outcome_def use_ctx_def emptyCtx_def Let_def frame_simps split: option.split)
qed

lemma use_outcome_ctx:
  assumes "db_ok db" and "use_outcome db u args = (r, Some x)"
  shows "ctx_ok db x"
proof -
  have t: "args ! 1 \<noteq> []" if "findTeam db (args ! 1) = Some t" for t
    using that db_ok_nonempty(1) [OF assms(1)] by auto
  have c: "args ! 2 \<noteq> []" if "findChannel db k (args ! 2) = Some y" for k y
    using that db_ok_nonempty(2) [OF assms(1)] by auto
  show ?thesis using assms(2) t c
    by (auto simp: use_outcome_def use_ctx_def ctx_ok_def split: if_splits option.splits)
qed

lemma inv_Use:
  assumes "server_inv s"
  shows "server_inv (Use_execute e fd s)"
proof (cases "cl_userUuid (clientAt s fd) = []")
  case True
  then show ?thesis using assms by (simp add: Use_execute_def frame_simps)
next
  case False
  obtain r y where o: "use_outcome (srv_db s) (cl_userUuid (clientAt s fd)) (cl_args (clientAt s fd)) = (r, y)"
    by fastforce
  have "db_ok (srv_db s)" using assms by (simp add: server_inv_def)
  then show ?thesis
    using o assms use_outcome_ctx [of "srv_db s"]
    by (cases y) (auto simp: Use_execute_outcome [OF False] frame_simps intro!: inv_setContext)
qed

section \<open>/login and /logout\<close>

lemma server_inv_set_user:
  assumes "server_inv s" and "fd \<in> set (fds s)" and "sessions t = set_user fd w (sessions s)"
    and "db_ok (srv_db t)" and "grows (srv_db s) (srv_db t)" and "w = [] \<or> w \<in> set (user_ids (srv_db t))"
    and "\<And>u. u \<in> set (db_users (srv_db t)) \<Longrightarrow> usr_connectedCount u =
      int (session_count (usr_uuid u) (sessions s))
        - (if cl_userUuid (clientAt s fd) = usr_uuid u then 1 else 0) + (if w = usr_uuid u then 1 else 0)"
  shows "server_inv t"
proof -
  have d: "distinct (map fst (sessions s))" using assms(1) by (simp add: server_inv_def sessions_ok_def)
  have "list_all (session_ok (srv_db t)) (sessions s)"
    using assms(1,4,5) by (auto simp: server_inv_def sessions_ok_def list_all_iff intro: session_ok_grows)
  then have "list_all (session_ok (srv_db t)) (set_user fd w (sessions s))"
    using assms(6) by (fastforce simp: set_user_def list_all_iff session_ok_def)
  moreover have "counts_ok (db_users (srv_db t)) (set_user fd w (sessions s))"
    using assms(7) session_count_set_user [OF d sessions_clientAt [OF assms(2)]]
    by (simp add: counts_ok_def list_all_iff)
  ultimately show ?thesis using assms(3,4) d by (simp add: server_inv_def sessions_ok_def)
qed

lemma session_count_unknown:
  "list_all (session_ok db) ss \<Longrightarrow> u \<noteq> [] \<Longrightarrow> u \<notin> set (user_ids db) \<Longrightarrow> session_count u ss = 0"
  by (auto simp: session_count_def list_all_iff session_ok_def filter_empty_conv)

lemma user_facts:
  assumes "server_inv s" and "u \<in> set (db_users (srv_db s))"
  shows "usr_uuid u \<noteq> []" and "usr_connectedCount u = int (session_count (usr_uuid u) (sessions s))"
    and "usr_uuid u \<in> set (user_ids (srv_db s))"
  using assms
  by (auto simp: server_inv_def db_ok_def users_ok_def user_ok_def sessions_ok_def counts_ok_def list_all_iff user_ids_def)

lemma inv_createNewUser:
  assumes "server_inv s" and "fd \<in> set (fds s)" and "cl_userUuid (clientAt s fd) = []"
    and "fresh_uuid (env_uuid e) (srv_db s)" and "within 32 name" and "findUserByName (srv_db s) name = None"
  shows "server_inv (createNewUser e fd name s)"
proof -
  define u where "u = \<lparr>usr_uuid = env_uuid e, usr_name = name, usr_connectedCount = 1, usr_teams = [], usr_messages = []\<rparr>"
  have db: "srv_db (createNewUser e fd name s) = pushUser u (srv_db s)"
    and ss: "sessions (createNewUser e fd name s) = set_user fd (env_uuid e) (sessions s)"
    by (simp_all add: createNewUser_def Let_def frame_simps u_def incrementConnection_def newUser_def)
  have fresh: "env_uuid e \<noteq> []" "env_uuid e \<notin> set (user_ids (srv_db s))"
    using assms(4) by (simp_all add: fresh_uuid_iff)
  have nm: "name \<notin> usr_name ` set (db_users (srv_db s))"
    using assms(6) by (simp add: findUserByName_def find_key_None)
  show ?thesis
  proof (rule server_inv_set_user [OF assms(1,2) ss], unfold db)
    show "db_ok (pushUser u (srv_db s))"
      using assms(1,5) fresh nm by (intro db_ok_pushUser) (simp_all add: u_def server_inv_def)
    show "grows (srv_db s) (pushUser u (srv_db s))"
      by (rule grows_users) (auto simp: pushUser_def user_ids_def)
    show "env_uuid e = [] \<or> env_uuid e \<in> set (user_ids (pushUser u (srv_db s)))"
      by (simp add: pushUser_def user_ids_def u_def)
    fix v assume v: "v \<in> set (db_users (pushUser u (srv_db s)))"
    show "usr_connectedCount v = int (session_count (usr_uuid v) (sessions s))
        - (if cl_userUuid (clientAt s fd) = usr_uuid v then 1 else 0) + (if env_uuid e = usr_uuid v then 1 else 0)"
    proof (cases "v = u")
      case True
      have "session_count (env_uuid e) (sessions s) = 0"
        using assms(1) fresh by (intro session_count_unknown) (auto simp: server_inv_def sessions_ok_def)
      with True assms(3) fresh show ?thesis by (simp add: u_def)
    next
      case False
      with v have "v \<in> set (db_users (srv_db s))" by (simp add: pushUser_def)
      from user_facts [OF assms(1) this] fresh assms(3) show ?thesis by auto
    qed
  qed
qed

text \<open>A change of the counter of the user with uuid \<open>w\<close>.\<close>

lemma counter_change:
  assumes "server_inv s" and w: "\<And>u. u \<in> set (db_users (srv_db s)) \<Longrightarrow> P u \<longleftrightarrow> usr_uuid u = w"
    and f: "\<And>u. usr_uuid (f u) = usr_uuid u" "\<And>u. usr_name (f u) = usr_name u"
      "\<And>u. usr_messages (f u) = usr_messages u"
    and n: "\<And>u. u \<in> set (db_users (srv_db s)) \<Longrightarrow> usr_uuid u = w \<Longrightarrow> usr_connectedCount (f u) = usr_connectedCount u + n"
  defines "db' \<equiv> (srv_db s)\<lparr>db_users := update_first P f (db_users (srv_db s))\<rparr>"
  shows "db_ok db'" and "grows (srv_db s) db'" and "set (user_ids db') = set (user_ids (srv_db s))"
    and "v \<in> set (db_users db') \<Longrightarrow> usr_uuid v \<noteq> [] \<and> usr_connectedCount v =
      int (session_count (usr_uuid v) (sessions s)) + (if usr_uuid v = w then n else 0)"
proof -
  have ok: "db_ok (srv_db s)" using assms(1) by (simp add: server_inv_def)
  then show "db_ok db'" unfolding db'_def by (rule db_ok_connection) (simp_all add: f)
  have "map usr_uuid (db_users db') = map usr_uuid (db_users (srv_db s))"
    unfolding db'_def by (simp add: map_update_first f)
  then show ids: "set (user_ids db') = set (user_ids (srv_db s))" by (simp add: user_ids_def)
  with f show "grows (srv_db s) db'" by (intro grows_users) (simp_all add: db'_def)
  assume v: "v \<in> set (db_users db')"
  have "update_first P f us = update_first (\<lambda>u. usr_uuid u = w) f us" if "set us \<subseteq> set (db_users (srv_db s))" for us
    using that w by (induction us) auto
  moreover have "distinct (map usr_uuid (db_users (srv_db s)))"
    using ok by (simp add: db_ok_def users_ok_def user_ids_def)
  ultimately have "db_users db' = map (\<lambda>u. if usr_uuid u = w then f u else u) (db_users (srv_db s))"
    by (simp add: db'_def update_first_as_map)
  with v obtain u where u: "u \<in> set (db_users (srv_db s))" "v = (if usr_uuid u = w then f u else u)" by auto
  then show "usr_uuid v \<noteq> [] \<and> usr_connectedCount v =
      int (session_count (usr_uuid v) (sessions s)) + (if usr_uuid v = w then n else 0)"
    using user_facts [OF assms(1) u(1)] n [OF u(1)] by (cases "usr_uuid u = w") (auto simp: f)
qed

lemma inv_logUserIn:
  assumes "server_inv s" and "fd \<in> set (fds s)" and "cl_userUuid (clientAt s fd) = []"
  shows "server_inv (logUserIn fd name s)"
proof (cases "findUserByName (srv_db s) name")
  case None
  then show ?thesis using assms(1) by (simp add: logUserIn_def frame_simps)
next
  case (Some u)
  have ok: "db_ok (srv_db s)" using assms(1) by (simp add: server_inv_def)
  have u: "u \<in> set (db_users (srv_db s))" "usr_name u = name"
    using Some findUserByName_iff [OF ok] by auto
  have P: "usr_name v = name \<longleftrightarrow> usr_uuid v = usr_uuid u" if "v \<in> set (db_users (srv_db s))" for v
    using that u Some findUserByName_iff [OF ok, of name v] findUser_iff [OF ok, of "usr_uuid u" v]
      findUser_iff [OF ok, of "usr_uuid u" u] by auto
  note change = counter_change [where P = "\<lambda>x. usr_name x = name" and f = incrementConnection and n = 1,
      folded modifyUserByName_def, OF assms(1) P]
  let ?db = "modifyUserByName name incrementConnection (srv_db s)"
  have c: "db_ok ?db" "grows (srv_db s) ?db" "set (user_ids ?db) = set (user_ids (srv_db s))"
    by (rule change; simp add: frame_simps incrementConnection_def)+
  have n: "usr_uuid v \<noteq> [] \<and> usr_connectedCount v =
      int (session_count (usr_uuid v) (sessions s)) + (if usr_uuid v = usr_uuid u then 1 else 0)"
    if "v \<in> set (db_users ?db)" for v
    by (rule change(4) [OF _ _ _ _ _ that]) (simp_all add: frame_simps incrementConnection_def)
  have db: "srv_db (logUserIn fd name s) = modifyUserByName name incrementConnection (srv_db s)"
    and ss: "sessions (logUserIn fd name s) = set_user fd (usr_uuid u) (sessions s)"
    using Some by (simp_all add: logUserIn_def Let_def frame_simps)
  show ?thesis
  proof (rule server_inv_set_user [OF assms(1,2) ss], unfold db)
    show "usr_uuid u = [] \<or> usr_uuid u \<in> set (user_ids ?db)"
      using c(3) user_facts(3) [OF assms(1) u(1)] by simp
    show "usr_connectedCount v = int (session_count (usr_uuid v) (sessions s))
        - (if cl_userUuid (clientAt s fd) = usr_uuid v then 1 else 0) + (if usr_uuid u = usr_uuid v then 1 else 0)"
      if "v \<in> set (db_users ?db)" for v
      using n [OF that] assms(3) by (cases "usr_uuid u = usr_uuid v") auto
  qed (fact c)+
qed

lemma inv_Login:
  assumes "server_inv s" and "fd \<in> set (fds s)" and "fresh_uuid (env_uuid e) (srv_db s)"
  shows "server_inv (Login_execute e fd s)"
  using assms inv_createNewUser [OF assms(1,2) _ assms(3)] inv_logUserIn [OF assms(1,2)]
  by (simp add: Login_execute_def Let_def frame_simps within_def MAX_NAME_LENGTH_def)

lemma session_count_pos: "(fd, u, x) \<in> set ss \<Longrightarrow> 0 < session_count u ss"
  by (force simp: session_count_def filter_empty_conv)

lemma counter_pos:
  assumes "server_inv s" and "cl_userUuid (clientAt s fd) = usr_uuid v" and "v \<in> set (db_users (srv_db s))"
  shows "0 < usr_connectedCount v"
proof -
  have "fd \<in> set (fds s)" using assms user_facts(1) session_user_known(2) by metis
  from session_count_pos [OF sessions_clientAt [OF this]] show ?thesis
    using assms user_facts(2) by simp
qed

lemma server_inv_release:
  assumes "server_inv s" and u: "cl_userUuid (clientAt s fd) = u" "u \<noteq> []"
    and "srv_db t = modifyUser u decrementConnection (srv_db s)" and "sessions t = set_user fd [] (sessions s)"
  shows "server_inv t"
proof -
  note change = counter_change [where P = "\<lambda>x. usr_uuid x = u" and f = decrementConnection and n = "-1" and w = u,
      folded modifyUser_def, OF assms(1) refl]
  let ?db = "modifyUser u decrementConnection (srv_db s)"
  have dec: "usr_connectedCount (decrementConnection v) = usr_connectedCount v + -1"
    if "v \<in> set (db_users (srv_db s))" "usr_uuid v = u" for v
    using counter_pos [OF assms(1), of fd v] that u by (simp add: decrementConnection_def)
  have c: "db_ok ?db" "grows (srv_db s) ?db"
    by (rule change; simp add: frame_simps dec)+
  have n: "usr_uuid v \<noteq> [] \<and> usr_connectedCount v =
      int (session_count (usr_uuid v) (sessions s)) + (if usr_uuid v = u then -1 else 0)"
    if "v \<in> set (db_users ?db)" for v
    by (rule change(4) [OF _ _ _ _ that]) (simp_all add: frame_simps dec)
  have fd: "fd \<in> set (fds s)" using u session_user_known(2) [OF assms(1)] by simp
  show ?thesis
  proof (rule server_inv_set_user [OF assms(1) fd assms(5)], unfold assms(4))
    show "usr_connectedCount v = int (session_count (usr_uuid v) (sessions s))
        - (if cl_userUuid (clientAt s fd) = usr_uuid v then 1 else 0) + (if [] = usr_uuid v then 1 else 0)"
      if "v \<in> set (db_users ?db)" for v
      using n [OF that] u by (cases "usr_uuid v = u") auto
  qed (auto simp: c)
qed

lemma inv_Logout:
  assumes "server_inv s"
  shows "server_inv (Logout_execute e fd s)"
proof (cases "cl_userUuid (clientAt s fd) = []")
  case True
  then show ?thesis using assms by (simp add: Logout_execute_def frame_simps)
next
  case False
  then obtain x where "findUser (srv_db s) (cl_userUuid (clientAt s fd)) = Some x"
    using session_user_known(1) [OF assms] findUser_in by blast
  with False show ?thesis
    by (intro server_inv_release [OF assms refl False]) (simp_all add: Logout_execute_def Let_def frame_simps)
qed

end
