(* ===== verification/Command_Contract.thy ===== *)
theory Command_Contract
  imports Session_Inv
begin

text \<open>
  The contract of a command, \<open>ICommand::execute\<close> (\<open>src/server/commands/ICommand.hpp\<close>), as a
  locale: what the command may change, which identifiers it may introduce, that it does not look at
  input that is not yet parsed, and that it keeps the invariant. The commands that answer 401 before
  anything else when the connection is not logged in satisfy the extended contract
  \<open>authenticated_command\<close>. Both are interpreted on the model of each command.
\<close>

section \<open>Identifiers introduced\<close>

lemma ids_answers:
  "srv_db (UsersCommand_execute e fd s) = srv_db s" "srv_db (UserCommand_execute e fd s) = srv_db s"
  "srv_db (Messages_execute e fd s) = srv_db s" "srv_db (Subscribed_execute e fd s) = srv_db s"
  "srv_db (List_execute e fd s) = srv_db s" "srv_db (Info_execute e fd s) = srv_db s"
  "srv_db (Use_execute e fd s) = srv_db s"
  subgoal by (simp add: UsersCommand_execute_def Let_def fold_sendToClient frame_simps)
  subgoal by (simp add: UserCommand_execute_def Let_def frame_simps split: option.split)
  subgoal by (simp add: Messages_execute_def Let_def fold_sendMessageLine frame_simps split: option.split)
  subgoal by (simp add: Subscribed_execute_def listAllTeams_def listSubscribedUsers_def Let_def
      fold_sendToClient_if fold_sendToClient_option frame_simps split: option.split)
  subgoal by (simp add: List_execute_def List_executeReply_def List_executeThread_def List_executeChannel_def
      List_executeTeam_def Let_def fold_sendToClient frame_simps split: option.split)
  subgoal by (simp add: Info_execute_def Info_executeTeam_def Info_executeChannel_def Info_executeThread_def
      Info_executeUser_def Let_def frame_simps split: option.split)
  subgoal using Use_execute_shape [of e fd s] by (auto simp: frame_simps)
  done

lemma ids_session:
  "set (all_ids (srv_db (Login_execute e fd s))) \<subseteq> insert (env_uuid e) (set (all_ids (srv_db s)))"
  "set (all_ids (srv_db (Logout_execute e fd s))) \<subseteq> insert (env_uuid e) (set (all_ids (srv_db s)))"
  "set (all_ids (srv_db (Send_execute e fd s))) \<subseteq> insert (env_uuid e) (set (all_ids (srv_db s)))"
  by (auto simp: Login_execute_def createNewUser_def logUserIn_def Logout_execute_def Send_execute_def Let_def
      frame_simps all_ids_modifyUser all_ids_pushUser split: option.splits)

lemma ids_subscription:
  "set (all_ids (srv_db (Subscribe_execute e fd s))) \<subseteq> insert (env_uuid e) (set (all_ids (srv_db s)))"
  "set (all_ids (srv_db (Unsubscribe_execute e fd s))) \<subseteq> insert (env_uuid e) (set (all_ids (srv_db s)))"
  by (simp_all add: Subscribe_execute_def Unsubscribe_execute_def Let_def frame_simps all_ids_writes
      subset_insertI split: option.split)

lemma ids_create:
  "set (all_ids (srv_db (Create_execute e fd s))) \<subseteq> insert (env_uuid e) (set (all_ids (srv_db s)))"
proof -
  have t: "set (all_ids (srv_db (Create_executeTeam e fd s))) \<subseteq> insert (env_uuid e) (set (all_ids (srv_db s)))"
    by (auto simp: Create_executeTeam_def Let_def frame_simps all_ids_pushTeam newTeam_def)
  have c: "set (all_ids (srv_db (Create_executeChannel e fd s))) \<subseteq> insert (env_uuid e) (set (all_ids (srv_db s)))"
    by (simp add: Create_executeChannel_def Let_def frame_simps all_ids_writes subset_insertI split: sum.split)
  have h: "set (all_ids (srv_db (Create_executeThread e fd s))) \<subseteq> insert (env_uuid e) (set (all_ids (srv_db s)))"
    using all_ids_pushThread [of _ _ "newThread\<lparr>thr_uuid := env_uuid e, thr_userUuid := _, thr_title := _,
      thr_body := _, thr_timestamp := env_time e\<rparr>"]
    by (simp add: Create_executeThread_def Let_def frame_simps subset_insertI split: sum.split)
  have r: "set (all_ids (srv_db (Create_executeReply e fd s))) \<subseteq> insert (env_uuid e) (set (all_ids (srv_db s)))"
    by (simp add: Create_executeReply_def Let_def frame_simps all_ids_pushReply subset_insertI split: sum.split)
  from t c h r show ?thesis by (simp add: Create_execute_def Let_def frame_simps subset_insertI)
qed

lemmas command_ids = ids_answers ids_session ids_subscription ids_create subset_insertI

section \<open>Commands do not look at unparsed input\<close>

lemma input_session:
  "Login_execute e fd (setReadBuffer k x s) = setReadBuffer k x (Login_execute e fd s)"
  "Logout_execute e fd (setReadBuffer k x s) = setReadBuffer k x (Logout_execute e fd s)"
  "UserCommand_execute e fd (setReadBuffer k x s) = setReadBuffer k x (UserCommand_execute e fd s)"
  "UsersCommand_execute e fd (setReadBuffer k x s) = setReadBuffer k x (UsersCommand_execute e fd s)"
  by (simp_all add: Login_execute_def createNewUser_def logUserIn_def Logout_execute_def
      UserCommand_execute_def UsersCommand_execute_def fold_sendToClient Let_def input_simps split: option.split)

lemma input_messaging:
  "Send_execute e fd (setReadBuffer k x s) = setReadBuffer k x (Send_execute e fd s)"
  "Messages_execute e fd (setReadBuffer k x s) = setReadBuffer k x (Messages_execute e fd s)"
  by (simp_all add: Send_execute_def Messages_execute_def fold_sendMessageLine Let_def input_simps split: option.split)

lemma input_subscription:
  "Subscribe_execute e fd (setReadBuffer k x s) = setReadBuffer k x (Subscribe_execute e fd s)"
  "Unsubscribe_execute e fd (setReadBuffer k x s) = setReadBuffer k x (Unsubscribe_execute e fd s)"
  "Subscribed_execute e fd (setReadBuffer k x s) = setReadBuffer k x (Subscribed_execute e fd s)"
  by (simp_all add: Subscribe_execute_def Unsubscribe_execute_def Subscribed_execute_def listAllTeams_def
      listSubscribedUsers_def fold_sendToClient_if fold_sendToClient_option Let_def input_simps split: option.split)

lemma input_use: "Use_execute e fd (setReadBuffer k x s) = setReadBuffer k x (Use_execute e fd s)"
proof (cases "cl_userUuid (clientAt s fd) = []")
  case True
  then show ?thesis by (simp add: Use_execute_def input_simps)
next
  case False
  then show ?thesis
    by (simp add: Use_execute_outcome input_simps split: prod.split option.split)
qed

lemma teamGate_input [input_simps]: "teamGate fd (setReadBuffer k x s) = teamGate fd s"
  by (simp add: teamGate_def Let_def input_simps split: option.split)

lemma input_list: "List_execute e fd (setReadBuffer k x s) = setReadBuffer k x (List_execute e fd s)"
  by (simp add: List_execute_def List_executeReply_def List_executeThread_def List_executeChannel_def
      List_executeTeam_def fold_sendToClient Let_def input_simps split: option.split)

lemma input_info: "Info_execute e fd (setReadBuffer k x s) = setReadBuffer k x (Info_execute e fd s)"
  by (simp add: Info_execute_def Info_executeTeam_def Info_executeChannel_def Info_executeThread_def
      Info_executeUser_def Let_def input_simps split: option.split)

lemma find_input [input_simps]:
  "findAccessibleTeam fd tu (setReadBuffer k x s) = findAccessibleTeam fd tu s"
  "findChannelOrSend404 tu cu (setReadBuffer k x s) = findChannelOrSend404 tu cu s"
  "findThreadOrSend404 cu thu (setReadBuffer k x s) = findThreadOrSend404 cu thu s"
  by (simp_all add: findAccessibleTeam_def findChannelOrSend404_def findThreadOrSend404_def input_simps split: option.split)

lemma emit_input [input_simps]:
  "emitTeamCreated fd t (setReadBuffer k x s) = setReadBuffer k x (emitTeamCreated fd t s)"
  "emitChannelCreated fd tu c (setReadBuffer k x s) = setReadBuffer k x (emitChannelCreated fd tu c s)"
  "emitThreadCreated fd tu cu th (setReadBuffer k x s) = setReadBuffer k x (emitThreadCreated fd tu cu th s)"
  "emitReplyCreated fd tu thu r (setReadBuffer k x s) = setReadBuffer k x (emitReplyCreated fd tu thu r s)"
  by (simp_all add: emit_defs Let_def input_simps)

lemma input_create: "Create_execute e fd (setReadBuffer k x s) = setReadBuffer k x (Create_execute e fd s)"
proof -
  have t: "Create_executeTeam e fd (setReadBuffer k x s) = setReadBuffer k x (Create_executeTeam e fd s)"
    by (simp add: Create_executeTeam_def Let_def input_simps)
  have c: "Create_executeChannel e fd (setReadBuffer k x s) = setReadBuffer k x (Create_executeChannel e fd s)"
    by (simp add: Create_executeChannel_def Let_def input_simps split: sum.split)
  have h: "Create_executeThread e fd (setReadBuffer k x s) = setReadBuffer k x (Create_executeThread e fd s)"
    by (simp add: Create_executeThread_def Let_def input_simps split: sum.split)
  have r: "Create_executeReply e fd (setReadBuffer k x s) = setReadBuffer k x (Create_executeReply e fd s)"
    by (simp add: Create_executeReply_def Let_def input_simps split: sum.split)
  show ?thesis by (simp add: Create_execute_def Let_def input_simps t c h r)
qed

lemmas command_input = input_session input_messaging input_subscription input_use input_list input_info
  input_create

section \<open>The contract of a command\<close>

text \<open>\<open>ICommand::execute\<close>: what \<open>CommandHandling\<close> relies on from every command it
  dispatches to.\<close>

locale icommand =
  fixes execute :: "env \<Rightarrow> fd \<Rightarrow> server \<Rightarrow> server"
  assumes frame: "cmd_frame fd s (execute e fd s)"
    and new_ids: "set (all_ids (srv_db (execute e fd s))) \<subseteq> insert (env_uuid e) (set (all_ids (srv_db s)))"
    and ignores_input: "execute e fd (setReadBuffer k x s) = setReadBuffer k x (execute e fd s)"
    and keeps_inv: "server_inv s \<Longrightarrow> fd \<in> set (fds s) \<Longrightarrow> fresh_uuid (env_uuid e) (srv_db s) \<Longrightarrow>
      server_inv (execute e fd s)"
begin

lemma keeps_fds: "fds (execute e fd s) = fds s"
  by (rule cmd_frame_lookup(1) [OF frame])

lemma only_appends: "\<exists>m. writeBufferAt (execute e fd s) k = writeBufferAt s k @ m"
  by (rule cmd_frame_writeBuffer [OF frame])

end

locale authenticated_command = icommand +
  assumes gate: "cl_userUuid (clientAt s fd) = [] \<Longrightarrow> execute e fd s = sendToClient R401 fd s"
begin

lemma unauthenticated_effect:
  assumes "cl_userUuid (clientAt s fd) = []"
  shows "srv_db (execute e fd s) = srv_db s" and "srv_log (execute e fd s) = srv_log s"
    and "sessions (execute e fd s) = sessions s"
  using assms by (simp_all add: gate frame_simps)

end

lemma command_gates:
  assumes "cl_userUuid (clientAt s fd) = []"
  shows "Logout_execute e fd s = sendToClient R401 fd s"
    and "UsersCommand_execute e fd s = sendToClient R401 fd s"
    and "UserCommand_execute e fd s = sendToClient R401 fd s"
    and "Messages_execute e fd s = sendToClient R401 fd s"
    and "Subscribe_execute e fd s = sendToClient R401 fd s"
    and "Unsubscribe_execute e fd s = sendToClient R401 fd s"
    and "Subscribed_execute e fd s = sendToClient R401 fd s"
    and "Use_execute e fd s = sendToClient R401 fd s"
    and "List_execute e fd s = sendToClient R401 fd s"
    and "Info_execute e fd s = sendToClient R401 fd s"
    and "Create_execute e fd s = sendToClient R401 fd s"
  using assms
  by (simp_all add: Logout_execute_def UsersCommand_execute_def UserCommand_execute_def Messages_execute_def Subscribe_execute_def Unsubscribe_execute_def Subscribed_execute_def Use_execute_def List_execute_def Info_execute_def Create_execute_def)

interpretation login: icommand Login_execute
  by unfold_locales (simp_all add: command_ids command_input session_frames inv_Login)

interpretation send: icommand Send_execute
  by unfold_locales (simp_all add: command_ids command_input messaging_frames inv_Send)

interpretation logout: authenticated_command Logout_execute
  by unfold_locales (simp_all add: command_ids command_input session_frames inv_Logout command_gates)

interpretation users_command: authenticated_command UsersCommand_execute
  by unfold_locales (simp_all add: command_ids command_input session_frames inv_UsersCommand command_gates)

interpretation user_command: authenticated_command UserCommand_execute
  by unfold_locales (simp_all add: command_ids command_input session_frames inv_UserCommand command_gates)

interpretation messages: authenticated_command Messages_execute
  by unfold_locales (simp_all add: command_ids command_input messaging_frames inv_Messages command_gates)

interpretation subscribe: authenticated_command Subscribe_execute
  by unfold_locales (simp_all add: command_ids command_input subscription_frames inv_Subscribe command_gates)

interpretation unsubscribe: authenticated_command Unsubscribe_execute
  by unfold_locales (simp_all add: command_ids command_input subscription_frames inv_Unsubscribe command_gates)

interpretation subscribed: authenticated_command Subscribed_execute
  by unfold_locales (simp_all add: command_ids command_input subscription_frames inv_Subscribed command_gates)

interpretation use_command: authenticated_command Use_execute
  by unfold_locales (simp_all add: command_ids command_input use_frame inv_Use command_gates)

interpretation list_command: authenticated_command List_execute
  by unfold_locales (simp_all add: command_ids command_input list_frame inv_List command_gates)

interpretation info: authenticated_command Info_execute
  by unfold_locales (simp_all add: command_ids command_input info_frame inv_Info command_gates)

interpretation create: authenticated_command Create_execute
  by unfold_locales (simp_all add: command_ids command_input create_frame inv_Create command_gates)

end
