(* ===== verification/Command_Handling.thy ===== *)
theory Command_Handling
  imports Command_Contract
begin

text \<open>
  \<open>src/server/commands/commandHandling\<close>: the table of commands and the dispatch of one line of
  input. What the dispatch relies on is the contract \<open>icommand\<close>; the facts about the table are
  proved once for every entry.
\<close>

definition commands :: "(string \<times> (env \<Rightarrow> fd \<Rightarrow> server \<Rightarrow> server)) list" where
  "commands =
     [(''/create'', Create_execute), (''/list'', List_execute), (''/use'', Use_execute),
      (''/info'', Info_execute), (''/subscribe'', Subscribe_execute),
      (''/unsubscribe'', Unsubscribe_execute), (''/subscribed'', Subscribed_execute),
      (''/login'', Login_execute), (''/logout'', Logout_execute), (''/send'', Send_execute),
      (''/messages'', Messages_execute), (''/user'', UserCommand_execute),
      (''/users'', UsersCommand_execute)]"

definition handleCommand :: "env \<Rightarrow> string \<Rightarrow> fd \<Rightarrow> server \<Rightarrow> exn + server" where
  "handleCommand e rawCommand fd s =
     (case parseArgs rawCommand of
        Inl x \<Rightarrow> Inl x
      | Inr arguments \<Rightarrow>
          if arguments = [] then Inr s
          else
            (let s1 = setArgs fd arguments s in
             case map_of commands (hd arguments) of
               None \<Rightarrow> Inr s1
             | Some execute \<Rightarrow> Inr (execute e fd s1)))"

section \<open>Every entry of the table is a command\<close>

lemma commands_icommand: "f \<in> snd ` set commands \<Longrightarrow> icommand f"
  unfolding commands_def
  using login.icommand_axioms send.icommand_axioms logout.icommand_axioms users_command.icommand_axioms
    user_command.icommand_axioms messages.icommand_axioms subscribe.icommand_axioms
    unsubscribe.icommand_axioms subscribed.icommand_axioms use_command.icommand_axioms
    list_command.icommand_axioms info.icommand_axioms create.icommand_axioms
  by auto

lemma commands_authenticated:
  "(n, f) \<in> set commands \<Longrightarrow> n \<noteq> ''/login'' \<Longrightarrow> n \<noteq> ''/send'' \<Longrightarrow> authenticated_command f"
  unfolding commands_def
  using logout.authenticated_command_axioms users_command.authenticated_command_axioms
    user_command.authenticated_command_axioms messages.authenticated_command_axioms
    subscribe.authenticated_command_axioms unsubscribe.authenticated_command_axioms
    subscribed.authenticated_command_axioms use_command.authenticated_command_axioms
    list_command.authenticated_command_axioms info.authenticated_command_axioms
    create.authenticated_command_axioms
  by auto

lemma command_dispatch: "map_of commands n = Some f \<Longrightarrow> (n, f) \<in> set commands \<and> icommand f"
  using map_of_SomeD [of commands n f] commands_icommand [of f] by force

section \<open>The dispatch\<close>

text \<open>A dispatched line: nothing, only the argument vector, or a command run after it is set.\<close>

lemma handleCommand_cases:
  assumes "handleCommand e raw fd s = Inr t"
  obtains (blank) "t = s"
  | (unknown) args where "t = setArgs fd args s"
  | (known) args f where "parseArgs raw = Inr args" "args \<noteq> []" "map_of commands (hd args) = Some f"
      "t = f e fd (setArgs fd args s)"
  using assms by (auto simp: handleCommand_def Let_def split: sum.splits if_splits option.splits)

lemma fds_setArgs [frame_simps]: "fds (setArgs fd as s) = fds s"
  by (simp add: setArgs_def frame_simps)

lemma fds_handleCommand:
  assumes "handleCommand e raw fd s = Inr t"
  shows "fds t = fds s"
  using assms
proof (cases rule: handleCommand_cases)
  case (known args f)
  then show ?thesis using icommand.keeps_fds [OF command_dispatch [THEN conjunct2]] by (simp add: frame_simps)
qed (simp_all add: frame_simps)

lemma inv_handleCommand:
  assumes "handleCommand e raw fd s = Inr t" and "server_inv s" and "fd \<in> set (fds s)"
    and "fresh_uuid (env_uuid e) (srv_db s)"
  shows "server_inv t"
  using assms(1)
proof (cases rule: handleCommand_cases)
  case (known args f)
  then have "icommand f" using command_dispatch by blast
  then show ?thesis unfolding known(4)
    by (rule icommand.keeps_inv) (use assms in \<open>simp_all add: frame_simps\<close>)
qed (use assms(2) in \<open>simp_all add: frame_simps\<close>)

end
