(* ===== verification/Posix.thy ===== *)
theory Posix
  imports Wire "HOL-Library.Word"
begin

unbundle bit_operations_syntax

text \<open>
  \<open>src/server/sys/Posix.cpp\<close> and \<open>src/server/net/Poller.cpp\<close>: the wrappers that turn an
  error of a system call into an exception, and the vector of watched descriptors. What the kernel
  answers to a call is an argument of type \<open>sys\<close>: a result, or the \<open>errno\<close> of a call that
  returned -1. Error numbers and poll flags have their Linux values.
\<close>

datatype 'a sys = Ok 'a | Errno int

definition EINTR :: int where "EINTR = 4"
definition EAGAIN :: int where "EAGAIN = 11"
definition EWOULDBLOCK :: int where "EWOULDBLOCK = 11"

definition O_NONBLOCK :: "32 word" where "O_NONBLOCK = 0x800"

definition POLLIN :: int where "POLLIN = 1"
definition POLLOUT :: int where "POLLOUT = 4"
definition POLLERR :: int where "POLLERR = 8"
definition POLLHUP :: int where "POLLHUP = 16"

section \<open>Wrappers that throw on every error\<close>

definition checked :: "string \<Rightarrow> 'a sys \<Rightarrow> exn + 'a" where
  "checked name r = (case r of Ok v \<Rightarrow> Inr v | Errno n \<Rightarrow> Inl (System_error name))"

definition Posix_socket :: "int sys \<Rightarrow> exn + int" where
  "Posix_socket = checked ''socket''"

definition Posix_bind :: "unit sys \<Rightarrow> exn + unit" where
  "Posix_bind = checked ''bind''"

definition Posix_listen :: "unit sys \<Rightarrow> exn + unit" where
  "Posix_listen = checked ''listen''"

definition Posix_accept :: "int sys \<Rightarrow> exn + int" where
  "Posix_accept = checked ''accept''"

definition Posix_setsockopt :: "unit sys \<Rightarrow> exn + unit" where
  "Posix_setsockopt = checked ''setsockopt''"

definition Posix_close :: "unit sys \<Rightarrow> exn + unit" where
  "Posix_close = checked ''close''"

text \<open>\<open>setNonBlocking\<close>: the answer to \<open>F_GETFL\<close>, and the answer to \<open>F_SETFL\<close> as a function
  of the flags it is given.\<close>

definition Posix_setNonBlocking :: "32 word sys \<Rightarrow> (32 word \<Rightarrow> unit sys) \<Rightarrow> exn + unit" where
  "Posix_setNonBlocking getfl setfl =
     (case checked ''fcntl F_GETFL'' getfl of
        Inl x \<Rightarrow> Inl x
      | Inr flags \<Rightarrow> checked ''fcntl F_SETFL'' (setfl (flags OR O_NONBLOCK)))"

section \<open>Reading and writing\<close>

text \<open>The answer to \<open>read\<close> is the bytes the kernel has ready, of which at most \<open>count\<close> are
  delivered; none is end of file. The result \<open>None\<close> is -1: nothing to read now.\<close>

definition Posix_read :: "nat \<Rightarrow> string sys \<Rightarrow> exn + string option" where
  "Posix_read count r =
     (case r of
        Ok d \<Rightarrow> Inr (Some (take count d))
      | Errno n \<Rightarrow> if n = EAGAIN \<or> n = EWOULDBLOCK then Inr None else Inl (System_error ''read''))"

text \<open>The answer to \<open>write\<close> is the number of bytes the kernel has room for.\<close>

definition Posix_write :: "string \<Rightarrow> nat sys \<Rightarrow> exn + nat" where
  "Posix_write buffer r =
     (case r of
        Ok n \<Rightarrow> Inr (min n (length buffer))
      | Errno n \<Rightarrow> if n = EAGAIN \<or> n = EWOULDBLOCK then Inr 0 else Inl (System_error ''write''))"

section \<open>Waiting\<close>

text \<open>One turn of the loop of \<open>poll\<close> reads the clock (nanoseconds) and, before the deadline, makes
  the system call with the milliseconds left; the kernel answers with the number of ready
  descriptors and the new \<open>revents\<close> of the i-th entry. An interrupted call is repeated. The list is what the turns
  see; \<open>None\<close>: still looping when it ends.\<close>

type_synonym poll_turn = "int \<times> (int \<Rightarrow> (int \<times> (nat \<Rightarrow> 16 word)) sys)"

fun Posix_poll :: "int \<Rightarrow> int \<Rightarrow> poll_turn list \<Rightarrow> (exn + int \<times> (nat \<Rightarrow> 16 word) option) option" where
  "Posix_poll timeout start [] = None"
| "Posix_poll timeout start ((now, answer) # turns) =
     (let deadline = start + timeout * 1000000 in
      if timeout \<ge> 0 \<and> now \<ge> deadline then Some (Inr (0, None))
      else
        (let timeoutMs = (if timeout \<ge> 0 then (deadline - now) div 1000000 else timeout) in
         case answer timeoutMs of
           Ok (numReady, revents) \<Rightarrow> Some (Inr (numReady, Some revents))
         | Errno n \<Rightarrow>
             if n = EINTR then Posix_poll timeout start turns
             else Some (Inl (System_error ''poll''))))"

section \<open>The poller\<close>

record pollfd =
  pfd_fd :: int
  pfd_events :: "16 word"
  pfd_revents :: "16 word"

record pollEvent =
  ev_fd :: int
  ev_revents :: int

type_synonym poller = "pollfd list"

definition addFileDescriptor :: "int \<Rightarrow> int \<Rightarrow> poller \<Rightarrow> poller" where
  "addFileDescriptor fd events ps =
     ps @ [\<lparr>pfd_fd = fd, pfd_events = word_of_int events, pfd_revents = 0\<rparr>]"

definition updateWatchedEvents :: "int \<Rightarrow> int \<Rightarrow> poller \<Rightarrow> poller" where
  "updateWatchedEvents fd events =
     update_first (\<lambda>p. pfd_fd p = fd) (\<lambda>p. p\<lparr>pfd_events := word_of_int events\<rparr>)"

fun removeFileDescriptor :: "int \<Rightarrow> poller \<Rightarrow> poller" where
  "removeFileDescriptor fd [] = []"
| "removeFileDescriptor fd (p # ps) = (if pfd_fd p = fd then ps else p # removeFileDescriptor fd ps)"

definition setRevents :: "(nat \<Rightarrow> 16 word) \<Rightarrow> poller \<Rightarrow> poller" where
  "setRevents rs ps = map2 (\<lambda>i p. p\<lparr>pfd_revents := rs i\<rparr>) [0..<length ps] ps"

definition readyEvents :: "poller \<Rightarrow> pollEvent list" where
  "readyEvents ps =
     map (\<lambda>p. \<lparr>ev_fd = pfd_fd p, ev_revents = sint (pfd_revents p)\<rparr>) (filter (\<lambda>p. pfd_revents p \<noteq> 0) ps)"

definition waitForEvents :: "int \<Rightarrow> int \<Rightarrow> poll_turn list \<Rightarrow> poller \<Rightarrow> (exn + pollEvent list \<times> poller) option" where
  "waitForEvents timeout start turns ps =
     (case Posix_poll timeout start turns of
        None \<Rightarrow> None
      | Some (Inl x) \<Rightarrow> Some (Inl x)
      | Some (Inr (ready, r)) \<Rightarrow>
          (let ps1 = (case r of None \<Rightarrow> ps | Some rs \<Rightarrow> setRevents rs ps) in
           if ready \<le> 0 then Some (Inr ([], ps1)) else Some (Inr (readyEvents ps1, ps1))))"

section \<open>Facts\<close>

lemma watched_fds [frame_simps]:
  "map pfd_fd (addFileDescriptor fd ev ps) = map pfd_fd ps @ [fd]"
  "map pfd_fd (updateWatchedEvents fd ev ps) = map pfd_fd ps"
  by (simp_all add: addFileDescriptor_def updateWatchedEvents_def map_update_first)

lemma watched_fds_remove [frame_simps]: "map pfd_fd (removeFileDescriptor fd ps) = remove1 fd (map pfd_fd ps)"
  by (induction ps) auto

definition watched :: "poller \<Rightarrow> (int \<times> 16 word) list" where
  "watched ps = map (\<lambda>p. (pfd_fd p, pfd_events p)) ps"

lemma watched_setRevents [frame_simps]: "watched (setRevents rs ps) = watched ps"
  by (rule nth_equalityI) (simp_all add: watched_def setRevents_def)

lemma watched_waitForEvents:
  "waitForEvents timeout start turns ps = Some (Inr (evs, ps')) \<Longrightarrow> watched ps' = watched ps"
  by (auto simp: waitForEvents_def Let_def frame_simps split: option.splits sum.splits if_splits)

lemma waitForEvents_fds:
  assumes "waitForEvents timeout start turns ps = Some (Inr (evs, ps'))"
  shows "\<exists>rs. map ev_fd evs = nths (map pfd_fd ps) rs"
proof -
  have fs: "map f (filter P xs) = nths (map f xs) {i. i < length xs \<and> P (xs ! i)}" for f :: "pollfd \<Rightarrow> int" and P xs
    by (simp add: filter_eq_nths nths_map)
  have "map pfd_fd ps' = map pfd_fd ps"
    using arg_cong [OF watched_waitForEvents [OF assms], of "map fst"] by (simp add: watched_def o_def)
  moreover have "evs = [] \<or> map ev_fd evs = map pfd_fd (filter (\<lambda>p. pfd_revents p \<noteq> 0) ps')"
    using assms by (auto simp: waitForEvents_def readyEvents_def Let_def o_def split: option.splits sum.splits if_splits)
  ultimately show ?thesis unfolding fs by (auto intro: exI [of _ "{}"])
qed

text \<open>The loop returns as soon as the clock has passed the deadline.\<close>

lemma Posix_poll_returns:
  "timeout \<ge> 0 \<Longrightarrow> \<not> list_all (\<lambda>t. fst t < start + timeout * 1000000) turns \<Longrightarrow>
   Posix_poll timeout start turns \<noteq> None"
  by (induction turns) (auto simp: Let_def not_less split: sys.split if_splits)

end
