(* ===== verification/Lines.thy ===== *)
theory Lines
  imports Prelude
begin

text \<open>
  Lines of a byte stream, as both ends of a connection cut them: \<open>std::string::find\<close> of the next
  line feed, the removal of a trailing carriage return, and a reference that splits a text at its
  line feeds into the complete lines and the rest.
\<close>

definition str_find :: "char \<Rightarrow> string \<Rightarrow> nat \<Rightarrow> nat option" where
  "str_find c s p =
     (if c \<in> set (drop p s) then Some (p + length (takeWhile (\<lambda>x. x \<noteq> c) (drop p s))) else None)"

definition strip_cr :: "string \<Rightarrow> string" where
  "strip_cr line = (if line \<noteq> [] \<and> last line = CR then butlast line else line)"

lemma takeWhile_neq_append: "c \<notin> set l \<Longrightarrow> takeWhile (\<lambda>x. x \<noteq> c) (l @ c # r) = l"
  by (induction l) auto

lemma str_find_Some: "str_find c s p = Some n \<Longrightarrow> p \<le> n \<and> n < length s"
proof -
  assume a: "str_find c s p = Some n"
  then have m: "c \<in> set (drop p s)" and n: "n = p + length (takeWhile (\<lambda>x. x \<noteq> c) (drop p s))"
    by (auto simp: str_find_def split: if_splits)
  from m obtain l r where lr: "drop p s = l @ c # r" "c \<notin> set l" by (auto dest: split_list_first)
  then have "n = p + length l" using n by (simp add: takeWhile_neq_append)
  moreover have "length (drop p s) = length l + 1 + length r" by (simp add: lr(1))
  ultimately show ?thesis by auto
qed

section \<open>Splitting at line feeds\<close>

fun split_lf :: "string \<Rightarrow> string list \<times> string" where
  "split_lf [] = ([], [])"
| "split_lf (c # cs) =
     (case split_lf cs of (ls, r) \<Rightarrow>
        if c = LF then ([] # ls, r)
        else case ls of [] \<Rightarrow> ([], c # r) | l # ls' \<Rightarrow> ((c # l) # ls', r))"

lemma split_lf_line: "LF \<notin> set l \<Longrightarrow> split_lf (l @ LF # r) = (l # fst (split_lf r), snd (split_lf r))"
  by (induction l) (auto split: prod.split)

lemma split_lf_tail: "LF \<notin> set l \<Longrightarrow> split_lf l = ([], l)"
  by (induction l) auto

lemma split_lf_append:
  "split_lf (a @ b) =
     (fst (split_lf a) @ fst (split_lf (snd (split_lf a) @ b)), snd (split_lf (snd (split_lf a) @ b)))"
proof (induction a)
  case (Cons c a)
  then show ?case by (auto split: prod.splits list.splits)
qed simp

lemma snd_split_lf: "LF \<notin> set (snd (split_lf a))"
  by (induction a) (auto split: prod.split list.split)

end
