(* ===== verification/Event_Loop.thy ===== *)
theory Event_Loop
  imports Command_Handling Posix Lines
begin

text \<open>
  The event loop of \<open>src/server/server.cpp\<close>: accepting, reading, framing, writing, disconnecting,
  updating the poll flags, and \<open>run\<close>. The kernel's answers and the identifiers and times of the
  environment are inputs; an exception that leaves \<open>run\<close> is \<open>Inl\<close>.
\<close>

section \<open>Framing: \<open>_parseCommands\<close>\<close>

definition dispatch_line :: "env \<Rightarrow> string \<Rightarrow> fd \<Rightarrow> server \<Rightarrow> exn + server" where
  "dispatch_line e rawLine fd s =
     (let line = strip_cr rawLine in
      if line \<noteq> [] then handleCommand e line fd s else Inr s)"

text \<open>\<open>readBuffer\<close> is a reference to the buffer of the client, which no command changes
  (\<open>readBuffer_handleCommand\<close>); the k-th line of the buffer is run in the k-th environment.\<close>

function parseCommands_loop ::
  "(nat \<Rightarrow> env) \<Rightarrow> string \<Rightarrow> nat \<Rightarrow> fd \<Rightarrow> server \<Rightarrow> exn + nat \<times> server" where
  "parseCommands_loop es readBuffer parsePos fd s =
     (case str_find LF readBuffer parsePos of
        None \<Rightarrow> Inr (parsePos, s)
      | Some newlinePos \<Rightarrow>
          (case dispatch_line (es 0) (take (newlinePos - parsePos) (drop parsePos readBuffer)) fd s of
             Inl x \<Rightarrow> Inl x
           | Inr t \<Rightarrow> parseCommands_loop (\<lambda>i. es (Suc i)) readBuffer (newlinePos + 1) fd t))"
  by pat_completeness auto
termination
  by (relation "measure (\<lambda>(es, buf, p, fd, s). length buf - p)") (auto dest: str_find_Some)

declare parseCommands_loop.simps [simp del]

definition parseCommands :: "(nat \<Rightarrow> env) \<Rightarrow> fd \<Rightarrow> server \<Rightarrow> exn + server" where
  "parseCommands es fd s =
     (case parseCommands_loop es (cl_readBuffer (clientAt s fd)) 0 fd s of
        Inl x \<Rightarrow> Inl x
      | Inr (parsePos, t) \<Rightarrow> Inr (modifyClient fd (consumeFromReadBuffer parsePos) t))"

section \<open>Reading and writing\<close>

definition readBufferSize :: nat where "readBufferSize = 4096"

definition handleRead :: "(nat \<Rightarrow> env) \<Rightarrow> string sys \<Rightarrow> fd \<Rightarrow> server \<Rightarrow> exn + server" where
  "handleRead es r fd s =
     (case Posix_read readBufferSize r of
        Inl x \<Rightarrow> Inl x
      | Inr None \<Rightarrow> Inr s
      | Inr (Some d) \<Rightarrow>
          if d = [] then Inr (modifyClient fd (\<lambda>c. c\<lparr>cl_fd := -1\<rparr>) s)
          else parseCommands es fd (modifyClient fd (appendToReadBuffer d) s))"

definition handleWrite :: "nat sys \<Rightarrow> fd \<Rightarrow> server \<Rightarrow> exn + server" where
  "handleWrite r fd s =
     (let writeBuffer = cl_writeBuffer (clientAt s fd) in
      if writeBuffer = [] then Inr s
      else case Posix_write writeBuffer r of
        Inl x \<Rightarrow> Inl x
      | Inr n \<Rightarrow> Inr (if n > 0 then modifyClient fd (consumeFromWriteBuffer n) s else s))"

section \<open>Connections come and go\<close>

definition emplaceClient :: "fd \<Rightarrow> client \<Rightarrow> server \<Rightarrow> server" where
  "emplaceClient fd c s =
     (if fd \<in> set (fds s) then s else s\<lparr>srv_clients := srv_clients s @ [(fd, c)]\<rparr>)"

definition eraseClient :: "fd \<Rightarrow> server \<Rightarrow> server" where
  "eraseClient fd s = s\<lparr>srv_clients := filter (\<lambda>(k, c). k \<noteq> fd) (srv_clients s)\<rparr>"

text \<open>The kernel's answers to the calls one event can cause; each call is made at most once.\<close>

record answers =
  ans_accept :: "int sys"
  ans_getfl :: "32 word sys"
  ans_setfl :: "32 word \<Rightarrow> unit sys"
  ans_read :: "string sys"
  ans_write :: "nat sys"
  ans_close :: "unit sys"

definition acceptClient :: "answers \<Rightarrow> server \<times> poller \<Rightarrow> exn + server \<times> poller" where
  "acceptClient a st =
     (case Posix_accept (ans_accept a) of
        Inl x \<Rightarrow> Inl x
      | Inr clientFd \<Rightarrow>
          (case Posix_setNonBlocking (ans_getfl a) (ans_setfl a) of
             Inl x \<Rightarrow> Inl x
           | Inr u \<Rightarrow>
               Inr (emplaceClient clientFd (newClient\<lparr>cl_fd := clientFd\<rparr>) (fst st),
                    addFileDescriptor clientFd POLLIN (snd st))))"

definition releaseUser :: "fd \<Rightarrow> server \<Rightarrow> (uuid \<times> string) option \<times> server" where
  "releaseUser fd s =
     (if fd \<in> set (fds s) \<and> cl_userUuid (clientAt s fd) \<noteq> [] then
        (case findUser (srv_db s) (cl_userUuid (clientAt s fd)) of
           None \<Rightarrow> (None, s)
         | Some u \<Rightarrow>
             (if \<not> isConnected (decrementConnection u) then Some (usr_uuid u, usr_name u) else None,
              modifyDb (modifyUser (cl_userUuid (clientAt s fd)) decrementConnection) s))
      else (None, s))"

definition disconnectClient :: "unit sys \<Rightarrow> fd \<Rightarrow> server \<times> poller \<Rightarrow> exn + server \<times> poller" where
  "disconnectClient r fd st =
     (case releaseUser fd (fst st) of (loggedOut, s1) \<Rightarrow>
      (let ps = removeFileDescriptor fd (snd st) in
       case Posix_close r of
         Inl x \<Rightarrow> Inl x
       | Inr u \<Rightarrow>
           (let s2 = eraseClient fd s1 in
            case loggedOut of
              None \<Rightarrow> Inr (s2, ps)
            | Some (uuid, name) \<Rightarrow>
                (let s3 = broadcast (''EVENT USER_LOGGED_OUT '' @ quoteProtocolField uuid @ '' '' @
                       quoteProtocolField name @ CRLF) s2;
                     s4 = logEvent (server_event_user_logged_out (c_str uuid)) s3
                 in Inr (s4, ps)))))"

section \<open>Poll flags\<close>

fun updatePollFlags_loop :: "(fd \<times> client) list \<Rightarrow> poller \<Rightarrow> (fd \<times> client) list \<times> poller" where
  "updatePollFlags_loop [] ps = ([], ps)"
| "updatePollFlags_loop ((fd, c) # cs) ps =
     (let needPollOut = (cl_writeBuffer c \<noteq> []) in
      if needPollOut = cl_pollOutEnabled c
      then (case updatePollFlags_loop cs ps of (cs', ps') \<Rightarrow> ((fd, c) # cs', ps'))
      else
        (let c' = c\<lparr>cl_pollOutEnabled := needPollOut\<rparr>;
             evFlags = (if needPollOut then POLLIN OR POLLOUT else POLLIN)
         in case updatePollFlags_loop cs (updateWatchedEvents fd evFlags ps) of
              (cs', ps') \<Rightarrow> ((fd, c') # cs', ps')))"

definition updatePollFlags :: "server \<times> poller \<Rightarrow> server \<times> poller" where
  "updatePollFlags st =
     (case updatePollFlags_loop (srv_clients (fst st)) (snd st) of
        (cs, ps) \<Rightarrow> ((fst st)\<lparr>srv_clients := cs\<rparr>, ps))"

section \<open>Events\<close>

definition processClientEvent ::
  "(nat \<Rightarrow> env) \<Rightarrow> answers \<Rightarrow> pollEvent \<Rightarrow> server \<times> poller \<Rightarrow> exn + server \<times> poller" where
  "processClientEvent es a ev st =
     (if ev_revents ev AND (POLLHUP OR POLLERR) \<noteq> 0 then disconnectClient (ans_close a) (ev_fd ev) st
      else
        (case (if ev_revents ev AND POLLIN \<noteq> 0 then handleRead es (ans_read a) (ev_fd ev) (fst st)
               else Inr (fst st)) of
           Inl x \<Rightarrow> Inl x
         | Inr s1 \<Rightarrow>
             if ev_revents ev AND POLLIN \<noteq> 0 \<and> cl_fd (clientAt s1 (ev_fd ev)) = -1
             then disconnectClient (ans_close a) (ev_fd ev) (s1, snd st)
             else if ev_revents ev AND POLLOUT \<noteq> 0 then
               (case handleWrite (ans_write a) (ev_fd ev) s1 of
                  Inl x \<Rightarrow> Inl x
                | Inr s2 \<Rightarrow> Inr (s2, snd st))
             else Inr (s1, snd st)))"

definition processEvent ::
  "(nat \<Rightarrow> env) \<Rightarrow> answers \<Rightarrow> pollEvent \<Rightarrow> server \<times> poller \<Rightarrow> exn + server \<times> poller" where
  "processEvent es a ev st =
     (if ev_fd ev = srv_fd (fst st) then
        (if ev_revents ev AND POLLIN \<noteq> 0 then acceptClient a st else Inr st)
      else if getClient (fst st) (ev_fd ev) = None then Inr st
      else processClientEvent es a ev st)"

fun processEvents ::
  "(pollEvent \<times> (nat \<Rightarrow> env) \<times> answers) list \<Rightarrow> server \<times> poller \<Rightarrow> exn + server \<times> poller" where
  "processEvents [] st = Inr st"
| "processEvents ((ev, es, a) # evs) st =
     (case processEvent es a ev st of Inl x \<Rightarrow> Inl x | Inr st1 \<Rightarrow> processEvents evs st1)"

section \<open>The loop\<close>

definition pollTimeoutMs :: int where "pollTimeoutMs = 1000"

text \<open>What one turn of \<open>run\<close> sees: the clock when \<open>poll\<close> is entered, the turns of the poll loop, and
  for the n-th reported event the environments and the kernel's answers, and the signals of the two kinds \<open>run\<close>
  has a handler for that arrive before the loop tests \<open>_running\<close> again. \<open>None\<close>: the poll loop did not return.\<close>

record turn =
  trn_start :: int
  trn_polls :: "poll_turn list"
  trn_events :: "nat \<Rightarrow> (nat \<Rightarrow> env) \<times> answers"
  trn_signals :: "int list"

definition run_turn :: "turn \<Rightarrow> server \<times> poller \<Rightarrow> (exn + server \<times> poller) option" where
  "run_turn t st =
     (case updatePollFlags st of (s1, ps1) \<Rightarrow>
      case waitForEvents pollTimeoutMs (trn_start t) (trn_polls t) ps1 of
        None \<Rightarrow> None
      | Some (Inl x) \<Rightarrow> Some (Inl x)
      | Some (Inr (evs, ps2)) \<Rightarrow>
          Some (processEvents (map2 (\<lambda>n ev. (ev, trn_events t n)) [0..<length evs] evs) (s1, ps2)))"

text \<open>The handler of \<open>SIGINT\<close> and \<open>SIGTERM\<close>: what it leaves in \<open>_running\<close>.\<close>

definition handleSignal :: "int \<Rightarrow> bool \<Rightarrow> bool" where
  "handleSignal sig running = False"

text \<open>The loop, with the value of \<open>_running\<close>; \<open>None\<close> also when the turns are used up while it still runs.\<close>

fun run_loop :: "turn list \<Rightarrow> bool \<Rightarrow> server \<times> poller \<Rightarrow> (exn + server \<times> poller) option" where
  "run_loop [] running st = (if running then None else Some (Inr st))"
| "run_loop (t # ts) running st =
     (if running then
        (case run_turn t st of
           None \<Rightarrow> None
         | Some (Inl x) \<Rightarrow> Some (Inl x)
         | Some (Inr st1) \<Rightarrow> run_loop ts (fold handleSignal (trn_signals t) running) st1)
      else Some (Inr st))"

lemma fold_handleSignal [simp]: "fold handleSignal sigs running \<longleftrightarrow> running \<and> sigs = []"
proof -
  have "\<not> fold handleSignal sigs False" by (induction sigs) (simp_all add: handleSignal_def)
  then show ?thesis by (cases sigs) (simp_all add: handleSignal_def)
qed

definition run_start :: "server \<Rightarrow> server \<times> poller" where
  "run_start s = (s, addFileDescriptor (srv_fd s) POLLIN [])"

end
