(* ===== verification/Fixtures.thy ===== *)
theory Fixtures
  imports Server_State
begin

text \<open>
  A small concrete server on which the properties are exercised: two users, one team with a channel
  and a thread, and three connections (Alice on 4, Bob on 5, nobody yet on 6).
\<close>

definition demo_env :: env where
  "demo_env = \<lparr>env_uuid = ''n1'', env_time = 1700000000\<rparr>"

definition demo_envs :: "nat \<Rightarrow> env" where
  "demo_envs i = \<lparr>env_uuid = CHR ''n'' # replicate i CHR ''x'', env_time = 1700000000\<rparr>"

definition demo_user :: "uuid \<Rightarrow> string \<Rightarrow> int \<Rightarrow> user" where
  "demo_user u n k = newUser\<lparr>usr_uuid := u, usr_name := n, usr_connectedCount := k\<rparr>"

definition demo_thread :: thread where
  "demo_thread = newThread\<lparr>thr_uuid := ''h1'', thr_userUuid := ''u1'', thr_timestamp := 1690000000,
     thr_title := ''welcome'', thr_body := ''hello''\<rparr>"

definition demo_channel :: channel where
  "demo_channel = newChannel\<lparr>chn_uuid := ''c1'', chn_name := ''general'', chn_description := ''all'',
     chn_threads := [demo_thread]\<rparr>"

definition demo_team :: team where
  "demo_team = newTeam\<lparr>team_uuid := ''t1'', team_name := ''core'', team_description := ''the team'',
     team_subscriberUuids := [''u1''], team_channels := [demo_channel]\<rparr>"

definition demo_db :: database where
  "demo_db = \<lparr>db_users = [demo_user ''u1'' ''alice'' 1, demo_user ''u2'' ''bob'' 1], db_teams = [demo_team]\<rparr>"

definition demo_client :: "fd \<Rightarrow> uuid \<Rightarrow> ctx \<Rightarrow> string list \<Rightarrow> client" where
  "demo_client k u x args = newClient\<lparr>cl_fd := k, cl_userUuid := u, cl_context := x, cl_args := args\<rparr>"

definition demo_ctx :: "uuid \<Rightarrow> uuid \<Rightarrow> uuid \<Rightarrow> ctx" where
  "demo_ctx t c h = \<lparr>ctx_teamUuid = t, ctx_channelUuid = c, ctx_threadUuid = h\<rparr>"

text \<open>The server with the given context and arguments on Alice's connection.\<close>

definition demo :: "ctx \<Rightarrow> string list \<Rightarrow> server" where
  "demo x args = \<lparr>srv_fd = 3,
     srv_clients = [(4, demo_client 4 ''u1'' x args), (5, demo_client 5 ''u2'' emptyCtx []),
       (6, demo_client 6 [] emptyCtx [])],
     srv_db = demo_db, srv_log = []\<rparr>"

text \<open>The server before any connection.\<close>

definition demo_idle :: server where
  "demo_idle = \<lparr>srv_fd = 3, srv_clients = [],
     srv_db = demo_db\<lparr>db_users := [demo_user ''u1'' ''alice'' 0, demo_user ''u2'' ''bob'' 0]\<rparr>, srv_log = []\<rparr>"

lemmas demo_defs = demo_def demo_client_def demo_db_def demo_team_def demo_channel_def demo_thread_def
  demo_user_def demo_ctx_def demo_env_def newClient_def newUser_def newTeam_def newChannel_def newThread_def
  emptyCtx_def

lemmas demo_idle_defs = demo_idle_def demo_db_def demo_team_def demo_channel_def demo_thread_def
  demo_user_def newUser_def newTeam_def newChannel_def newThread_def

end
