(* ===== verification/Framing.thy ===== *)
theory Framing
  imports Event_Loop Fixtures
begin

text \<open>
  Framing of the byte stream of a connection: \<open>_parseCommands\<close> against a reference that splits the
  text at line feeds, and the independence of the result from how the network cuts the stream.
\<close>

section \<open>Running the lines\<close>

fun run_lines :: "(nat \<Rightarrow> env) \<Rightarrow> string list \<Rightarrow> fd \<Rightarrow> server \<Rightarrow> exn + server" where
  "run_lines es [] fd s = Inr s"
| "run_lines es (l # ls) fd s =
     (case dispatch_line (es 0) l fd s of
        Inl x \<Rightarrow> Inl x
      | Inr t \<Rightarrow> run_lines (\<lambda>i. es (Suc i)) ls fd t)"

lemma run_lines_append:
  "run_lines es (ls @ ms) fd s =
     (case run_lines es ls fd s of
        Inl x \<Rightarrow> Inl x
      | Inr t \<Rightarrow> run_lines (\<lambda>i. es (length ls + i)) ms fd t)"
  by (induction ls arbitrary: es s) (simp_all split: sum.split)

section \<open>The dispatch does not touch unparsed input\<close>

lemma setReadBuffer_handleCommand:
  "handleCommand e l fd (setReadBuffer k x s) = map_sum id (setReadBuffer k x) (handleCommand e l fd s)"
proof (cases "parseArgs l")
  case (Inr as)
  show ?thesis
  proof (cases "map_of commands (hd as)")
    case None
    with Inr show ?thesis by (simp add: handleCommand_def input_simps)
  next
    case (Some f)
    then have "icommand f" using command_dispatch by blast
    with Inr Some show ?thesis by (simp add: handleCommand_def input_simps icommand.ignores_input)
  qed
qed (simp add: handleCommand_def)

lemma readBuffer_setArgs: "cl_readBuffer (clientAt (setArgs fd as s) k) = cl_readBuffer (clientAt s k)"
  by (cases "k \<in> set (fds s)")
    (simp_all add: setArgs_def modifyClient_def clientAt_map_clients clientAt_absent frame_simps)

lemma readBuffer_handleCommand:
  assumes "handleCommand e l fd s = Inr t"
  shows "cl_readBuffer (clientAt t k) = cl_readBuffer (clientAt s k)"
  using assms
proof (cases rule: handleCommand_cases)
  case (known args f)
  then have "icommand f" using command_dispatch by blast
  from cmd_frame_readBuffer [OF icommand.frame [OF this]] known show ?thesis by (simp add: readBuffer_setArgs)
qed (simp_all add: readBuffer_setArgs)

lemma setReadBuffer_dispatch:
  "dispatch_line e l fd (setReadBuffer k x s) = map_sum id (setReadBuffer k x) (dispatch_line e l fd s)"
  by (simp add: dispatch_line_def Let_def setReadBuffer_handleCommand)

lemma setReadBuffer_run_lines:
  "run_lines es ls fd (setReadBuffer k x s) = map_sum id (setReadBuffer k x) (run_lines es ls fd s)"
  by (induction ls arbitrary: es s) (simp_all add: setReadBuffer_dispatch split: sum.split)

lemma readBuffer_run_lines:
  "run_lines es ls fd s = Inr t \<Longrightarrow> cl_readBuffer (clientAt t k) = cl_readBuffer (clientAt s k) \<and> fds t = fds s"
  by (induction ls arbitrary: es s)
    (auto simp: dispatch_line_def Let_def readBuffer_handleCommand fds_handleCommand split: sum.splits if_splits)

section \<open>\<open>_parseCommands\<close> against the reference\<close>

lemma parseCommands_loop_lines:
  "parseCommands_loop es buf p fd s =
     (case run_lines es (fst (split_lf (drop p buf))) fd s of
        Inl x \<Rightarrow> Inl x
      | Inr t \<Rightarrow> Inr (p + (length (drop p buf) - length (snd (split_lf (drop p buf)))), t))"
proof (induction es buf p fd s rule: parseCommands_loop.induct)
  case (1 es buf p fd s)
  show ?case
  proof (cases "LF \<in> set (drop p buf)")
    case False
    then show ?thesis
      by (simp add: parseCommands_loop.simps [of es buf p] str_find_def split_lf_tail)
  next
    case True
    then obtain l r where lr: "drop p buf = l @ LF # r" "LF \<notin> set l" by (auto dest: split_list_first)
    then have find: "str_find LF buf p = Some (p + length l)"
      using True by (simp add: str_find_def takeWhile_neq_append)
    have "drop (p + length l + 1) buf = drop (length l + 1) (drop p buf)" by (simp add: ac_simps)
    then have r: "drop (p + length l + 1) buf = r" by (simp add: lr(1))
    have len: "length (snd (split_lf r)) \<le> length r"
      by (induction r) (auto split: prod.split list.split)
    show ?thesis
    proof (cases "dispatch_line (es 0) l fd s")
      case (Inl x)
      with find lr show ?thesis by (simp add: parseCommands_loop.simps [of es buf p] split_lf_line)
    next
      case (Inr t)
      have "dispatch_line (es 0) (take (p + length l - p) (drop p buf)) fd s = Inr t"
        using Inr lr by simp
      note IH = "1.IH" [OF find this, unfolded r]
      from find lr Inr len IH show ?thesis
        by (auto simp: parseCommands_loop.simps [of es buf p] split_lf_line split: sum.split)
    qed
  qed
qed

lemma drop_split_lf: "drop (length a - length (snd (split_lf a))) a = snd (split_lf a)"
proof -
  have "concat (map (\<lambda>l. l @ [LF]) (fst (split_lf a))) @ snd (split_lf a) = a"
    by (induction a) (auto split: prod.splits list.splits)
  then show ?thesis by (metis append_eq_conv_conj diff_add_inverse2 length_append)
qed

lemma parseCommands_lines:
  assumes "distinct (fds s)"
  shows "parseCommands es fd s =
     (case run_lines es (fst (split_lf (cl_readBuffer (clientAt s fd)))) fd s of
        Inl x \<Rightarrow> Inl x
      | Inr t \<Rightarrow> Inr (setReadBuffer fd (snd (split_lf (cl_readBuffer (clientAt s fd)))) t))"
proof (cases "run_lines es (fst (split_lf (cl_readBuffer (clientAt s fd)))) fd s")
  case (Inr t)
  let ?buf = "cl_readBuffer (clientAt s fd)"
  let ?n = "length ?buf - length (snd (split_lf ?buf))"
  have buf: "cl_readBuffer (clientAt t fd) = ?buf" "distinct (fds t)"
    using readBuffer_run_lines [OF Inr] assms by simp_all
  have "modifyClient fd (consumeFromReadBuffer ?n) t = setReadBuffer fd (snd (split_lf ?buf)) t"
    unfolding setReadBuffer_def
    by (rule modifyClient_cong) (simp_all add: consumeFromReadBuffer_def buf drop_split_lf)
  with Inr show ?thesis by (simp add: parseCommands_def parseCommands_loop_lines)
qed (simp add: parseCommands_def parseCommands_loop_lines)

section \<open>How the network cuts the stream does not matter\<close>

text \<open>\<open>_handleRead\<close> on data that arrived.\<close>

definition receive :: "(nat \<Rightarrow> env) \<Rightarrow> string \<Rightarrow> fd \<Rightarrow> server \<Rightarrow> exn + server" where
  "receive es d fd s = parseCommands es fd (modifyClient fd (appendToReadBuffer d) s)"

lemma handleRead_receive:
  "d \<noteq> [] \<Longrightarrow> handleRead es (Ok d) fd s = receive es (take 4096 d) fd s"
  by (simp add: handleRead_def Posix_read_def receive_def readBufferSize_def)

lemma setReadBuffer_setReadBuffer [simp]: "setReadBuffer k y (setReadBuffer k x s) = setReadBuffer k y s"
  by (simp add: setReadBuffer_def modifyClient_def map_clients_def o_def split_def if_distrib cong: if_cong)

lemma readBuffer_setReadBuffer:
  "fd \<in> set (fds s) \<Longrightarrow> cl_readBuffer (clientAt (setReadBuffer fd x s) fd) = x"
  by (simp add: setReadBuffer_def modifyClient_def clientAt_map_clients)

lemma receive_lines:
  assumes "fd \<in> set (fds s)" and "distinct (fds s)"
  shows "receive es d fd s =
    (let buf = cl_readBuffer (clientAt s fd) @ d in
     map_sum id (setReadBuffer fd (snd (split_lf buf))) (run_lines es (fst (split_lf buf)) fd s))"
proof -
  let ?buf = "cl_readBuffer (clientAt s fd) @ d"
  have "modifyClient fd (appendToReadBuffer d) s = setReadBuffer fd ?buf s"
    unfolding setReadBuffer_def by (rule modifyClient_cong) (simp_all add: appendToReadBuffer_def assms)
  then show ?thesis using assms
    by (cases "run_lines es (fst (split_lf ?buf)) fd s")
      (simp_all add: receive_def parseCommands_lines readBuffer_setReadBuffer setReadBuffer_run_lines Let_def
        input_simps)
qed

text \<open>C5. The commands a connection's byte stream causes do not depend on how the network cuts the
  stream: receiving the bytes \<open>a\<close> and later \<open>b\<close> leaves the server in the same state, with the same
  replies queued and the same unparsed rest, as receiving \<open>a @ b\<close> at once, wherever the cut falls
  (inside a line, between CR and LF). The n-th line of the stream sees the n-th environment.\<close>

theorem receive_append:
  assumes "fd \<in> set (fds s)" and "distinct (fds s)"
  shows "receive es (a @ b) fd s =
    (case receive es a fd s of
       Inl x \<Rightarrow> Inl x
     | Inr t \<Rightarrow> receive (\<lambda>i. es (length (fst (split_lf (cl_readBuffer (clientAt s fd) @ a))) + i)) b fd t)"
proof (cases "run_lines es (fst (split_lf (cl_readBuffer (clientAt s fd) @ a))) fd s")
  case (Inr t)
  let ?buf = "cl_readBuffer (clientAt s fd)"
  let ?r = "snd (split_lf (?buf @ a))" and ?n = "length (fst (split_lf (?buf @ a)))"
  from readBuffer_run_lines [OF Inr] assms have t: "fd \<in> set (fds t)" "distinct (fds t)" by simp_all
  have "receive (\<lambda>i. es (?n + i)) b fd (setReadBuffer fd ?r t) =
      map_sum id (setReadBuffer fd (snd (split_lf (?r @ b))))
        (run_lines (\<lambda>i. es (?n + i)) (fst (split_lf (?r @ b))) fd t)"
    using t by (simp add: receive_lines input_simps readBuffer_setReadBuffer Let_def setReadBuffer_run_lines
        sum.map_comp o_def id_def)
  moreover have "split_lf (?buf @ a @ b) = (fst (split_lf (?buf @ a)) @ fst (split_lf (?r @ b)), snd (split_lf (?r @ b)))"
    using split_lf_append [of "?buf @ a" b] by simp
  ultimately show ?thesis
    using Inr assms by (simp add: receive_lines Let_def run_lines_append split: sum.split)
next
  case (Inl x)
  then show ?thesis
    using assms split_lf_append [of "cl_readBuffer (clientAt s fd) @ a" b]
    by (simp add: receive_lines Let_def run_lines_append)
qed

theorem receive_append_witness:
  "let s = demo emptyCtx [] in 6 \<in> set (fds s) \<and> distinct (fds s) \<and>
     receive demo_envs (''/us'' @ ''ers'' @ CRLF) 6 s =
       (case receive demo_envs ''/us'' 6 s of Inl x \<Rightarrow> Inl x | Inr t \<Rightarrow> receive demo_envs (''ers'' @ CRLF) 6 t)"
proof -
  define s where "s = demo emptyCtx []"
  have d: "6 \<in> set (fds s)" "distinct (fds s)" unfolding s_def by code_simp+
  have n: "length (fst (split_lf (cl_readBuffer (clientAt s 6) @ ''/us''))) = 0" unfolding s_def by code_simp
  from d receive_append [OF d, of demo_envs "''/us''" "''ers'' @ CRLF"]
  show ?thesis unfolding Let_def s_def [symmetric] n add_0 by blast
qed

end
