(* ===== verification/Loop_Inv.thy ===== *)
theory Loop_Inv
  imports Framing Fixtures
begin

text \<open>
  Invariants of the event loop: the server invariant of \<open>Session_Inv\<close>, the agreement of the table
  of connections with the poller, and that both hold in every state a run can reach. What the proofs
  need from outside is named: \<open>uuid_supply\<close> (\<open>uuid_generate\<close> never repeats an identifier),
  \<open>answers_ok\<close> (\<open>accept\<close> returns a descriptor that is not open) and \<open>clock_ok\<close> (the seconds
  \<open>std::time\<close> returns are below \<open>2 ^ 53\<close>).
\<close>

section \<open>Predicates\<close>

definition uuid_supply :: "(nat \<Rightarrow> env) \<Rightarrow> database \<Rightarrow> bool" where
  "uuid_supply es db \<longleftrightarrow> inj (\<lambda>i. env_uuid (es i)) \<and> (\<forall>i. fresh_uuid (env_uuid (es i)) db)"

definition answers_ok :: "answers \<Rightarrow> server \<Rightarrow> bool" where
  "answers_ok a s \<longleftrightarrow>
     (case ans_accept a of Ok n \<Rightarrow> n \<ge> 0 \<and> n < 2 ^ 31 \<and> n \<noteq> srv_fd s \<and> n \<notin> set (fds s) | Errno n \<Rightarrow> True)"

definition clock_ok :: "(nat \<Rightarrow> env) \<Rightarrow> bool" where
  "clock_ok es \<longleftrightarrow> (\<forall>i. exact_time (env_time (es i)))"

definition links :: "server \<Rightarrow> (fd \<times> fd \<times> bool) list" where
  "links s = map (\<lambda>(k, c). (k, cl_fd c, cl_pollOutEnabled c)) (srv_clients s)"

definition flags_of :: "bool \<Rightarrow> 16 word" where
  "flags_of out = (if out then 5 else 1)"

text \<open>The poller watches the listening socket and exactly the connections, with the flags the
  connections remember; the descriptor stored in a connection is its key.\<close>

definition poll_ok :: "server \<Rightarrow> poller \<Rightarrow> bool" where
  "poll_ok s ps \<longleftrightarrow> watched ps = (srv_fd s, flags_of False) # map (\<lambda>(k, f, b). (k, flags_of b)) (links s) \<and>
     srv_fd s \<notin> set (fds s) \<and> list_all (\<lambda>(k, f, b). f = k \<and> k \<ge> 0) (links s)"

definition loop_inv :: "server \<times> poller \<Rightarrow> bool" where
  "loop_inv st \<longleftrightarrow> server_inv (fst st) \<and> poll_ok (fst st) (snd st)"

section \<open>Identifiers over a sequence of commands\<close>

lemma dispatch_line_cases:
  assumes "dispatch_line e l fd s = Inr t"
  obtains (skip) "t = s" | (cmd) "handleCommand e (strip_cr l) fd s = Inr t"
  using assms by (cases "strip_cr l = []") (simp_all add: dispatch_line_def)

lemma ids_handleCommand:
  assumes "handleCommand e raw fd s = Inr t"
  shows "set (all_ids (srv_db t)) \<subseteq> insert (env_uuid e) (set (all_ids (srv_db s)))"
  using assms
proof (cases rule: handleCommand_cases)
  case (known args f)
  then have "icommand f" using command_dispatch by blast
  from icommand.new_ids [OF this, of e fd "setArgs fd args s"] known show ?thesis by (simp add: frame_simps)
qed (auto simp: frame_simps)

lemma uuid_supply_tail:
  assumes "uuid_supply es db" and "set (all_ids db') \<subseteq> insert (env_uuid (es 0)) (set (all_ids db))"
  shows "uuid_supply (\<lambda>i. es (Suc i)) db'"
proof -
  have inj: "env_uuid (es i) = env_uuid (es j) \<longleftrightarrow> i = j" for i j
    using assms(1) by (auto simp: uuid_supply_def inj_def)
  have "fresh_uuid (env_uuid (es (Suc i))) db'" for i
    using assms inj [of "Suc i" 0] by (auto simp: uuid_supply_def fresh_uuid_def)
  then show ?thesis using inj by (simp add: uuid_supply_def inj_def)
qed

lemma links_cmd_frame: "cmd_frame fd s t \<Longrightarrow> links t = links s \<and> srv_fd t = srv_fd s"
proof -
  assume a: "cmd_frame fd s t"
  have "map (\<lambda>(k, c). (k, cl_fd c, cl_pollOutEnabled c)) ys = map (\<lambda>(k, c). (k, cl_fd c, cl_pollOutEnabled c)) xs"
    if "list_all2 (\<lambda>(k, c) (j, d). j = k \<and> client_frame (k = fd) c d) xs ys" for xs ys
    using that by (induction rule: list_all2_induct) (auto simp: client_frame_def)
  with a show ?thesis unfolding cmd_frame_def links_def by blast
qed

lemma links_modifyClient:
  assumes "\<And>c. cl_fd (f c) = cl_fd c" and "\<And>c. cl_pollOutEnabled (f c) = cl_pollOutEnabled c"
  shows "links (modifyClient fd f s) = links s"
  by (simp add: links_def modifyClient_def map_clients_def assms split_def)

lemma links_fds: "fds s = map fst (links s)"
  by (simp add: links_def fds_def o_def split_def)

text \<open>What running a line keeps, given fresh identifiers.\<close>

definition kept :: "server \<Rightarrow> server \<Rightarrow> bool" where
  "kept s t \<longleftrightarrow> (server_inv s \<longrightarrow> server_inv t) \<and> links t = links s \<and> srv_fd t = srv_fd s"

lemma kept_refl [simp]: "kept s s"
  by (simp add: kept_def)

lemma kept_trans: "kept r s \<Longrightarrow> kept s t \<Longrightarrow> kept r t"
  by (simp add: kept_def)

lemma kept_setArgs: "kept s (setArgs fd as s)"
  by (simp add: kept_def setArgs_def links_modifyClient server_inv_frames [unfolded setArgs_def] frame_simps)

lemma kept_handleCommand:
  assumes "handleCommand e raw fd s = Inr t" and "fd \<in> set (fds s)" and "fresh_uuid (env_uuid e) (srv_db s)"
  shows "kept s t"
proof -
  have "links t = links s \<and> srv_fd t = srv_fd s"
    using assms(1)
  proof (cases rule: handleCommand_cases)
    case (known args f)
    then have "icommand f" using command_dispatch by blast
    from links_cmd_frame [OF icommand.frame [OF this]] known kept_setArgs [of s fd args]
    show ?thesis by (simp add: kept_def)
  qed (use kept_setArgs in \<open>auto simp: kept_def\<close>)
  with inv_handleCommand [OF assms(1)] assms(2,3) show ?thesis by (simp add: kept_def)
qed

section \<open>Disconnecting\<close>

lemma sessions_eraseClient: "sessions (eraseClient fd s) = filter (\<lambda>y. fst y \<noteq> fd) (sessions s)"
  by (simp add: sessions_def eraseClient_def filter_map o_def split_def)

lemma links_eraseClient: "links (eraseClient fd s) = filter (\<lambda>y. fst y \<noteq> fd) (links s)"
  by (simp add: links_def eraseClient_def filter_map o_def split_def)

lemma session_count_filter:
  "\<forall>(k, v, x) \<in> set ss. k = fd \<longrightarrow> v \<noteq> u \<Longrightarrow>
   session_count u (filter (\<lambda>y. fst y \<noteq> fd) ss) = session_count u ss"
  by (induction ss) auto

lemma sessions_unique:
  assumes "distinct (fds s)" and "(fd, v, x) \<in> set (sessions s)"
  shows "v = cl_userUuid (clientAt s fd)"
  using assms by (auto simp: sessions_def clientAt_def getClient_def fds_def)

lemma distinct_fds: "server_inv s \<Longrightarrow> distinct (fds s)"
  by (simp add: server_inv_def sessions_ok_def sessions_def fds_def o_def split_def)

lemma inv_eraseClient:
  assumes "server_inv s" and "cl_userUuid (clientAt s fd) = []"
  shows "server_inv (eraseClient fd s)"
proof -
  have "\<forall>(k, v, x) \<in> set (sessions s). k = fd \<longrightarrow> v \<noteq> usr_uuid u" if "u \<in> set (db_users (srv_db s))" for u
    using sessions_unique [OF distinct_fds [OF assms(1)]] assms(2) user_facts(1) [OF assms(1) that] by fastforce
  then have "counts_ok (db_users (srv_db s)) (filter (\<lambda>y. fst y \<noteq> fd) (sessions s))"
    using assms(1) by (simp add: server_inv_def sessions_ok_def counts_ok_def list_all_iff session_count_filter)
  then show ?thesis
    using assms(1) by (simp add: server_inv_def sessions_ok_def sessions_eraseClient distinct_map_filter list_all_iff)
      (simp add: eraseClient_def)
qed

lemma eraseClient_setUserUuid: "eraseClient fd (setUserUuid fd u s) = eraseClient fd s"
proof -
  have "filter (\<lambda>(k, c). k \<noteq> fd) (map (\<lambda>(k, c). (k, if k = fd then f c else c)) xs) = filter (\<lambda>(k, c). k \<noteq> fd) xs"
    for f and xs :: "(fd \<times> client) list" by (induction xs) auto
  then show ?thesis by (simp add: eraseClient_def setUserUuid_def modifyClient_def map_clients_def)
qed

lemma clientAt_setUserUuid: "fd \<in> set (fds s) \<Longrightarrow> cl_userUuid (clientAt (setUserUuid fd u s) fd) = u"
  by (simp add: setUserUuid_def modifyClient_def clientAt_map_clients)

lemma inv_releaseUser:
  assumes "server_inv s" and "fd \<in> set (fds s)"
  shows "server_inv (eraseClient fd (snd (releaseUser fd s)))"
proof (cases "cl_userUuid (clientAt s fd) = []")
  case True
  then show ?thesis using assms by (simp add: releaseUser_def inv_eraseClient)
next
  case False
  let ?t = "modifyDb (modifyUser (cl_userUuid (clientAt s fd)) decrementConnection) s"
  obtain u where u: "findUser (srv_db s) (cl_userUuid (clientAt s fd)) = Some u"
    using session_user_known(1) [OF assms(1) False] findUser_in by blast
  have "server_inv (setUserUuid fd [] ?t)"
    by (rule server_inv_release [OF assms(1) refl False]) (simp_all add: frame_simps)
  then have "server_inv (eraseClient fd (setUserUuid fd [] ?t))"
    using assms(2) by (intro inv_eraseClient clientAt_setUserUuid) (simp_all add: frame_simps)
  then show ?thesis using u False assms(2) by (simp add: releaseUser_def eraseClient_setUserUuid)
qed

lemma links_frames [frame_simps]:
  "links (broadcast m s) = links s" "links (logEvent ev s) = links s" "links (modifyDb g s) = links s"
  using links_cmd_frame [OF cmd_frame_delivery(2) [OF cmd_frame_refl]]
  by (simp_all add: links_def logEvent_def modifyDb_def)

lemma releaseUser_links:
  "links (snd (releaseUser fd s)) = links s" "srv_fd (snd (releaseUser fd s)) = srv_fd s"
  by (simp_all add: releaseUser_def frame_simps split: option.split)

lemma srv_fd_frames [frame_simps]:
  "srv_fd (broadcast m s) = srv_fd s" "srv_fd (eraseClient fd s) = srv_fd s"
  by (simp_all add: broadcast_deliver frame_simps eraseClient_def)

lemma srv_db_eraseClient [frame_simps]: "srv_db (eraseClient fd s) = srv_db s"
  by (simp add: eraseClient_def)

lemma disconnectClient_effect:
  assumes "disconnectClient r fd (s, ps) = Inr (t, ps')"
  shows "ps' = removeFileDescriptor fd ps" and "links t = filter (\<lambda>y. fst y \<noteq> fd) (links s)"
    and "srv_fd t = srv_fd s" and "server_inv s \<Longrightarrow> fd \<in> set (fds s) \<Longrightarrow> server_inv t"
proof -
  obtain lo s1 where l: "releaseUser fd s = (lo, s1)" by fastforce
  have s1: "links s1 = links s" "srv_fd s1 = srv_fd s" using releaseUser_links [of fd s] l by simp_all
  have t: "t = eraseClient fd s1 \<or> (\<exists>m ev. t = logEvent ev (broadcast m (eraseClient fd s1)))"
    and "ps' = removeFileDescriptor fd ps"
    using assms l by (auto simp: disconnectClient_def Let_def split: sum.splits option.splits)
  then show "ps' = removeFileDescriptor fd ps" by simp
  from t s1 show "links t = filter (\<lambda>y. fst y \<noteq> fd) (links s)" "srv_fd t = srv_fd s"
    by (auto simp: frame_simps links_eraseClient)
  assume "server_inv s" and "fd \<in> set (fds s)"
  then have "server_inv (eraseClient fd s1)" using inv_releaseUser [of s fd] l by simp
  with t show "server_inv t" by (auto simp: frame_simps)
qed

section \<open>The poller follows the table of connections\<close>

lemma poll_ok_kept: "poll_ok s ps \<Longrightarrow> links t = links s \<Longrightarrow> srv_fd t = srv_fd s \<Longrightarrow> poll_ok t ps"
  by (simp add: poll_ok_def links_fds)

lemma watched_remove:
  "distinct (map fst (watched ps)) \<Longrightarrow> watched (removeFileDescriptor fd ps) = filter (\<lambda>y. fst y \<noteq> fd) (watched ps)"
proof (induction ps)
  case (Cons p ps)
  show ?case
  proof (cases "pfd_fd p = fd")
    case True
    with Cons.prems have "filter (\<lambda>y. fst y \<noteq> fd) (watched ps) = watched ps"
      by (intro filter_True) (force simp: watched_def)
    with True show ?thesis by (simp add: watched_def)
  next
    case False
    with Cons show ?thesis by (simp add: watched_def)
  qed
qed (simp add: watched_def)

lemma poll_ok_remove:
  assumes "poll_ok s ps" and "distinct (fds s)" and "fd \<in> set (fds s)"
    and "links t = filter (\<lambda>y. fst y \<noteq> fd) (links s)" and "srv_fd t = srv_fd s"
  shows "poll_ok t (removeFileDescriptor fd ps)"
proof -
  have "map fst (watched ps) = srv_fd s # fds s" using assms(1) by (simp add: poll_ok_def links_fds o_def split_def)
  then have "watched (removeFileDescriptor fd ps) = filter (\<lambda>y. fst y \<noteq> fd) (watched ps)"
    using assms(1,2) by (intro watched_remove) (simp add: poll_ok_def)
  moreover have "srv_fd s \<noteq> fd" using assms(1,3) by (auto simp: poll_ok_def)
  ultimately show ?thesis
    using assms(1,4,5) by (auto simp: poll_ok_def filter_map o_def split_def links_fds list_all_iff)
qed

lemma poll_ok_add:
  assumes "poll_ok s ps" and "n \<ge> 0" and "n \<noteq> srv_fd s" and "n \<notin> set (fds s)"
  shows "poll_ok (emplaceClient n (newClient\<lparr>cl_fd := n\<rparr>) s) (addFileDescriptor n POLLIN ps)"
  using assms
  by (simp add: poll_ok_def emplaceClient_def addFileDescriptor_def watched_def links_def fds_def newClient_def
      POLLIN_def flags_of_def)

lemma inv_emplaceClient:
  assumes "server_inv s" and "n \<notin> set (fds s)"
  shows "server_inv (emplaceClient n (newClient\<lparr>cl_fd := n\<rparr>) s)"
proof -
  have ss: "sessions (emplaceClient n (newClient\<lparr>cl_fd := n\<rparr>) s) = sessions s @ [(n, [], emptyCtx)]"
    using assms(2) by (simp add: emplaceClient_def sessions_def newClient_def)
  have "session_count (usr_uuid u) (sessions s @ [(n, [], emptyCtx)]) = session_count (usr_uuid u) (sessions s)"
    if "u \<in> set (db_users (srv_db s))" for u
    using user_facts(1) [OF assms(1) that] by (simp add: session_count_def)
  moreover have "n \<notin> fst ` set (sessions s)" using assms(2) by (force simp: sessions_def fds_def)
  moreover have "srv_db (emplaceClient n (newClient\<lparr>cl_fd := n\<rparr>) s) = srv_db s" by (simp add: emplaceClient_def)
  ultimately show ?thesis
    using assms(1) unfolding server_inv_def sessions_ok_def ss
    by (simp add: counts_ok_def list_all_iff session_ok_def)
qed

lemma acceptClient_inv:
  assumes "acceptClient a st = Inr st'" and "loop_inv st" and "answers_ok a (fst st)"
  shows "loop_inv st'"
proof -
  from assms(1) obtain n where "ans_accept a = Ok n"
    and "st' = (emplaceClient n (newClient\<lparr>cl_fd := n\<rparr>) (fst st), addFileDescriptor n POLLIN (snd st))"
    by (auto simp: acceptClient_def Posix_accept_def checked_def split: sys.splits sum.splits)
  with assms(2,3) show ?thesis by (simp add: loop_inv_def answers_ok_def inv_emplaceClient poll_ok_add)
qed

section \<open>Reading and writing keep the agreement\<close>

lemma kept_modifyClient:
  assumes "\<And>c. cl_fd (f c) = cl_fd c" and "\<And>c. cl_pollOutEnabled (f c) = cl_pollOutEnabled c"
    and "\<And>c. cl_userUuid (f c) = cl_userUuid c" and "\<And>c. cl_context (f c) = cl_context c"
  shows "kept s (modifyClient fd f s)"
proof -
  have "sessions (modifyClient fd f s) = sessions s"
    by (simp add: sessions_def modifyClient_def map_clients_def assms(3,4) split_def)
  then show ?thesis
    by (simp add: kept_def links_modifyClient assms(1,2) server_inv_def frame_simps)
qed

section \<open>Updating the flags\<close>

definition with_flag :: "client \<Rightarrow> client" where
  "with_flag c = c\<lparr>cl_pollOutEnabled := (cl_writeBuffer c \<noteq> [])\<rparr>"

lemma watched_update:
  "distinct (map fst (watched ps)) \<Longrightarrow> watched (updateWatchedEvents fd ev ps) =
     map (\<lambda>(k, e). (k, if k = fd then word_of_int ev else e)) (watched ps)"
proof -
  assume "distinct (map fst (watched ps))"
  then have "distinct (map pfd_fd ps)" by (simp add: watched_def o_def)
  then show ?thesis
    by (simp add: updateWatchedEvents_def update_first_as_map watched_def o_def if_distrib cong: if_cong)
qed

lemma need_flags: "word_of_int (if b then POLLIN OR POLLOUT else POLLIN) = flags_of b"
  by (simp add: flags_of_def POLLIN_def POLLOUT_def)

lemma map_other: "fd \<notin> fst ` set xs \<Longrightarrow> map (\<lambda>(k, e). (k, if k = fd then v else e)) xs = xs"
  by (induction xs) auto

lemma updatePollFlags_loop_spec:
  assumes "watched ps = pre @ map (\<lambda>(k, c). (k, flags_of (cl_pollOutEnabled c))) cs"
    and "distinct (map fst pre @ map fst cs)"
  shows "\<exists>ps'. updatePollFlags_loop cs ps = (map (\<lambda>(k, c). (k, with_flag c)) cs, ps') \<and>
    watched ps' = pre @ map (\<lambda>(k, c). (k, flags_of (cl_writeBuffer c \<noteq> []))) cs"
  using assms
proof (induction cs arbitrary: ps pre)
  case (Cons kc cs)
  obtain k c where kc: "kc = (k, c)" by fastforce
  let ?need = "cl_writeBuffer c \<noteq> []"
  define ps1 where "ps1 = (if ?need = cl_pollOutEnabled c then ps
    else updateWatchedEvents k (if ?need then POLLIN OR POLLOUT else POLLIN) ps)"
  have "distinct (map fst (watched ps))" using Cons.prems kc by (simp add: o_def split_def)
  moreover have "k \<notin> fst ` set pre" "k \<notin> fst ` set (map (\<lambda>(k, c). (k, flags_of (cl_pollOutEnabled c))) cs)"
    using Cons.prems(2) kc by (auto simp: image_image split_def)
  ultimately have "watched ps1 = (pre @ [(k, flags_of ?need)]) @ map (\<lambda>(k, c). (k, flags_of (cl_pollOutEnabled c))) cs"
    using Cons.prems(1) kc unfolding ps1_def
    by (simp add: watched_update need_flags map_other del: map_map)
  from Cons.IH [OF this] Cons.prems(2) kc obtain ps' where
    "updatePollFlags_loop cs ps1 = (map (\<lambda>(k, c). (k, with_flag c)) cs, ps')"
    "watched ps' = pre @ (k, flags_of ?need) # map (\<lambda>(k, c). (k, flags_of (cl_writeBuffer c \<noteq> []))) cs" by auto
  then show ?case unfolding kc ps1_def by (auto simp: Let_def with_flag_def)
qed simp

lemma updatePollFlags_spec:
  assumes "poll_ok s ps" and "distinct (fds s)"
  obtains ps' where "updatePollFlags (s, ps) = (map_clients (\<lambda>_. with_flag) s, ps')"
    and "watched ps' = (srv_fd s, flags_of False) # map (\<lambda>(k, c). (k, flags_of (cl_writeBuffer c \<noteq> []))) (srv_clients s)"
proof -
  have "watched ps = [(srv_fd s, flags_of False)] @ map (\<lambda>(k, c). (k, flags_of (cl_pollOutEnabled c))) (srv_clients s)"
    using assms(1) by (simp add: poll_ok_def links_def o_def split_def)
  moreover have "distinct (map fst [(srv_fd s, flags_of False)] @ map fst (srv_clients s))"
    using assms by (simp add: poll_ok_def fds_def)
  ultimately show thesis
    using updatePollFlags_loop_spec [of ps "[(srv_fd s, flags_of False)]" "srv_clients s"] that
    by (auto simp: updatePollFlags_def map_clients_def)
qed

lemma updatePollFlags_inv:
  assumes "loop_inv (s, ps)"
  shows "loop_inv (updatePollFlags (s, ps))"
proof -
  have d: "distinct (fds s)" using assms by (simp add: loop_inv_def distinct_fds)
  obtain ps' where u: "updatePollFlags (s, ps) = (map_clients (\<lambda>_. with_flag) s, ps')"
    and w: "watched ps' = (srv_fd s, flags_of False) # map (\<lambda>(k, c). (k, flags_of (cl_writeBuffer c \<noteq> []))) (srv_clients s)"
    using assms d updatePollFlags_spec by (auto simp: loop_inv_def)
  have "sessions (map_clients (\<lambda>_. with_flag) s) = sessions s"
    by (simp add: sessions_def map_clients_def with_flag_def split_def)
  then have "server_inv (map_clients (\<lambda>_. with_flag) s)"
    using assms by (simp add: loop_inv_def server_inv_def frame_simps)
  moreover have "links (map_clients (\<lambda>_. with_flag) s) = map (\<lambda>(k, c). (k, cl_fd c, cl_writeBuffer c \<noteq> [])) (srv_clients s)"
    by (simp add: links_def map_clients_def with_flag_def split_def)
  ultimately show ?thesis
    using assms w by (auto simp: u loop_inv_def poll_ok_def frame_simps o_def split_def list_all_iff links_def)
qed

section \<open>Events\<close>

lemma poll_ok_client:
  assumes "poll_ok s ps" and "k \<in> set (fds s)"
  shows "cl_fd (clientAt s k) = k \<and> k \<ge> 0"
proof -
  from assms(2) obtain c where c: "map_of (srv_clients s) k = Some c"
    using getClient_Some [of s k] by (auto simp: getClient_def)
  then have "(k, c) \<in> set (srv_clients s)" by (rule map_of_SomeD)
  with assms(1) have "cl_fd c = k \<and> k \<ge> 0" by (force simp: poll_ok_def links_def list_all_iff)
  with c show ?thesis by (simp add: clientAt_def getClient_def)
qed

lemma disconnect_inv:
  assumes "disconnectClient r fd (s1, ps) = Inr st'" and "loop_inv (s, ps)" and "fd \<in> set (fds s)"
    and "server_inv s1" and "filter (\<lambda>y. fst y \<noteq> fd) (links s1) = filter (\<lambda>y. fst y \<noteq> fd) (links s)"
    and "srv_fd s1 = srv_fd s" and "fds s1 = fds s"
  shows "loop_inv st'"
proof -
  obtain t ps' where st': "st' = (t, ps')" by fastforce
  note e = disconnectClient_effect [OF assms(1) [unfolded st']]
  have "server_inv t" using e(4) assms by simp
  moreover have "poll_ok t ps'"
    unfolding e(1)
    by (rule poll_ok_remove [where s = s]) (use e assms distinct_fds in \<open>auto simp: loop_inv_def\<close>)
  ultimately show ?thesis by (simp add: st' loop_inv_def)
qed

lemma server_inv_fd: "server_inv (modifyClient fd (\<lambda>c. c\<lparr>cl_fd := x\<rparr>) s) = server_inv s"
proof -
  have "sessions (modifyClient fd (\<lambda>c. c\<lparr>cl_fd := x\<rparr>) s) = sessions s"
    by (simp add: sessions_def modifyClient_def map_clients_def split_def)
  then show ?thesis by (simp add: server_inv_def frame_simps)
qed

lemma links_fd:
  "filter (\<lambda>y. fst y \<noteq> fd) (links (modifyClient fd (\<lambda>c. c\<lparr>cl_fd := x\<rparr>) s)) = filter (\<lambda>y. fst y \<noteq> fd) (links s)"
proof -
  have "filter (\<lambda>y. fst y \<noteq> fd) (map (\<lambda>(k, c). (k, cl_fd (if k = fd then c\<lparr>cl_fd := x\<rparr> else c),
      cl_pollOutEnabled (if k = fd then c\<lparr>cl_fd := x\<rparr> else c))) cs) =
    filter (\<lambda>y. fst y \<noteq> fd) (map (\<lambda>(k, c). (k, cl_fd c, cl_pollOutEnabled c)) cs)" for cs :: "(fd \<times> client) list"
    by (induction cs) auto
  then show ?thesis by (simp add: links_def modifyClient_def map_clients_def o_def split_def)
qed

lemma loop_inv_kept: "loop_inv (s, ps) \<Longrightarrow> kept s t \<Longrightarrow> loop_inv (t, ps)"
  by (auto simp: loop_inv_def kept_def intro: poll_ok_kept)

section \<open>What an event of a connection does, up to a relation\<close>

text \<open>Reading, framing and running lines, and writing, for any relation between the states before and after
  that the commands and the changes of the buffers satisfy and that composes: the argument about the
  loop is made once.\<close>

locale line_effects =
  fixes R :: "server \<Rightarrow> server \<Rightarrow> bool"
  assumes keeps: "R s t \<Longrightarrow> kept s t"
    and same: "R s s"
    and compose: "R r s \<Longrightarrow> R s t \<Longrightarrow> R r t"
    and buffers: "(\<And>c. cl_fd (f c) = cl_fd c) \<Longrightarrow> (\<And>c. cl_pollOutEnabled (f c) = cl_pollOutEnabled c) \<Longrightarrow>
      (\<And>c. cl_userUuid (f c) = cl_userUuid c) \<Longrightarrow> (\<And>c. cl_context (f c) = cl_context c) \<Longrightarrow> R s (modifyClient fd f s)"
    and command: "handleCommand e raw fd s = Inr t \<Longrightarrow> fd \<in> set (fds s) \<Longrightarrow> fresh_uuid (env_uuid e) (srv_db s) \<Longrightarrow>
      exact_time (env_time e) \<Longrightarrow> R s t"
begin

lemma lines:
  assumes "run_lines es ls fd s = Inr t" and "fd \<in> set (fds s)" and "uuid_supply es (srv_db s)" and "clock_ok es"
  shows "R s t"
  using assms
proof (induction ls arbitrary: es s)
  case (Cons l ls)
  then obtain u where u: "dispatch_line (es 0) l fd s = Inr u" "run_lines (\<lambda>i. es (Suc i)) ls fd u = Inr t"
    by (auto split: sum.splits)
  have fresh: "fresh_uuid (env_uuid (es 0)) (srv_db s)" using Cons.prems(3) by (simp add: uuid_supply_def)
  have clock: "exact_time (env_time (es 0))" "clock_ok (\<lambda>i. es (Suc i))" using Cons.prems(4) by (simp_all add: clock_ok_def)
  have "R s u \<and> set (all_ids (srv_db u)) \<subseteq> insert (env_uuid (es 0)) (set (all_ids (srv_db s)))"
    using u(1)
    by (cases rule: dispatch_line_cases)
      (auto intro: same command [OF _ Cons.prems(2) fresh clock(1)] dest: ids_handleCommand)
  then have su: "R s u" "uuid_supply (\<lambda>i. es (Suc i)) (srv_db u)"
    using uuid_supply_tail [OF Cons.prems(3)] by auto
  then have "fd \<in> set (fds u)" using Cons.prems(2) keeps by (simp add: kept_def links_fds)
  from Cons.IH [OF u(2) this su(2) clock(2)] su(1) show ?case by (rule compose [rotated])
qed (simp add: same)

lemma parsing:
  assumes "parseCommands es fd s = Inr t" and "fd \<in> set (fds s)" and "distinct (fds s)"
    and "uuid_supply es (srv_db s)" and "clock_ok es"
  shows "R s t"
proof -
  from assms(1) obtain u x where u: "run_lines es (fst (split_lf (cl_readBuffer (clientAt s fd)))) fd s = Inr u"
    and t: "t = setReadBuffer fd x u"
    by (auto simp: parseCommands_lines [OF assms(3)] split: sum.splits)
  have "R u t" unfolding t setReadBuffer_def by (rule buffers) simp_all
  with lines [OF u assms(2,4,5)] show ?thesis by (rule compose)
qed

lemma reading:
  assumes "handleRead es r fd s = Inr t" and "fd \<in> set (fds s)" and "distinct (fds s)"
    and "uuid_supply es (srv_db s)" and "clock_ok es"
  obtains (alive) "R s t" | (eof) "t = modifyClient fd (\<lambda>c. c\<lparr>cl_fd := -1\<rparr>) s"
proof -
  let ?app = "\<lambda>d. modifyClient fd (appendToReadBuffer d) s"
  consider "t = s" | "t = modifyClient fd (\<lambda>c. c\<lparr>cl_fd := -1\<rparr>) s"
    | d where "parseCommands es fd (?app d) = Inr t"
  proof (cases "Posix_read readBufferSize r")
    case (Inl x)
    with assms(1) show ?thesis by (simp add: handleRead_def)
  next
    case (Inr got)
    with assms(1) that show ?thesis
      by (cases got; cases "the got = []") (simp_all add: handleRead_def)
  qed
  then show thesis
  proof cases
    case 3
    have "R s (?app d)" by (rule buffers) (simp_all add: appendToReadBuffer_def)
    moreover have "R (?app d) t"
      using assms by (intro parsing [OF 3]) (simp_all add: frame_simps)
    ultimately show ?thesis using alive compose by blast
  qed (use alive eof same in auto)
qed

lemma writing: "handleWrite r fd s = Inr t \<Longrightarrow> R s t"
  by (auto simp: handleWrite_def Let_def consumeFromWriteBuffer_def intro!: buffers same
      split: if_splits sum.splits)

lemma alive_links: "R s t \<Longrightarrow> loop_inv (s, ps) \<Longrightarrow> loop_inv (t, ps) \<and> fds t = fds s"
  using keeps [of s t] loop_inv_kept [of s ps t] by (auto simp: kept_def links_fds)

text \<open>What \<open>_processClientEvent\<close> does, by case.\<close>

lemma client_event:
  assumes "processClientEvent es a ev (s, ps) = Inr st'" and "loop_inv (s, ps)" and "ev_fd ev \<in> set (fds s)"
    and "uuid_supply es (srv_db s)" and "clock_ok es"
  obtains (hup) "disconnectClient (ans_close a) (ev_fd ev) (s, ps) = Inr st'"
  | (eof) "disconnectClient (ans_close a) (ev_fd ev)
      (modifyClient (ev_fd ev) (\<lambda>c. c\<lparr>cl_fd := -1\<rparr>) s, ps) = Inr st'"
  | (alive) t where "st' = (t, ps)" "R s t"
proof -
  have d: "distinct (fds s)" using assms(2) by (simp add: loop_inv_def distinct_fds)
  define hup where "hup = (ev_revents ev AND (POLLHUP OR POLLERR) \<noteq> 0)"
  define rd where "rd = (ev_revents ev AND POLLIN \<noteq> 0)"
  define s1 where "s1 = (if rd then handleRead es (ans_read a) (ev_fd ev) s else Inr s)"
  have st': "Inr st' = (if hup then disconnectClient (ans_close a) (ev_fd ev) (s, ps) else
      (case s1 of Inl x \<Rightarrow> Inl x
       | Inr s1 \<Rightarrow> if rd \<and> cl_fd (clientAt s1 (ev_fd ev)) = -1 then disconnectClient (ans_close a) (ev_fd ev) (s1, ps)
           else if ev_revents ev AND POLLOUT \<noteq> 0 then
             (case handleWrite (ans_write a) (ev_fd ev) s1 of Inl x \<Rightarrow> Inl x | Inr s2 \<Rightarrow> Inr (s2, ps))
           else Inr (s1, ps)))"
    unfolding assms(1) [symmetric] processClientEvent_def hup_def rd_def s1_def fst_conv snd_conv by (rule refl)
  show thesis
  proof (cases hup)
    case True
    with st' hup show ?thesis by simp
  next
    case False
    with st' obtain u where u: "s1 = Inr u" by (cases s1) auto
    consider "R s u" | "rd" "u = modifyClient (ev_fd ev) (\<lambda>c. c\<lparr>cl_fd := -1\<rparr>) s"
      using u reading [OF _ assms(3) d assms(4,5)] unfolding s1_def by (metis Inr_inject same)
    then show ?thesis
    proof cases
      case 1
      then have "loop_inv (u, ps)" "ev_fd ev \<in> set (fds u)"
        using alive_links [OF 1 assms(2)] assms(3) by simp_all
      then have "cl_fd (clientAt u (ev_fd ev)) \<noteq> -1" using poll_ok_client [of u ps] by (force simp: loop_inv_def)
      with st' False u have "st' = (u, ps) \<or> (\<exists>t. handleWrite (ans_write a) (ev_fd ev) u = Inr t \<and> st' = (t, ps))"
        by (auto split: if_splits sum.splits)
      with alive 1 writing compose show ?thesis by blast
    next
      case 2
      then have "cl_fd (clientAt u (ev_fd ev)) = -1"
        using assms(3) by (simp add: modifyClient_def clientAt_map_clients)
      with st' False u 2 eof show ?thesis by simp
    qed
  qed
qed

end

interpretation kept: line_effects kept
proof
  show "kept s (modifyClient fd f s)" if "\<And>c. cl_fd (f c) = cl_fd c" "\<And>c. cl_pollOutEnabled (f c) = cl_pollOutEnabled c"
    "\<And>c. cl_userUuid (f c) = cl_userUuid c" "\<And>c. cl_context (f c) = cl_context c" for f fd s
    using that by (rule kept_modifyClient)
qed (auto intro: kept_trans kept_handleCommand)

lemma processEvent_cases:
  assumes "processEvent es a ev (s, ps) = Inr st'"
  obtains (nothing) "st' = (s, ps)" | (accept) "acceptClient a (s, ps) = Inr st'"
  | (client) "ev_fd ev \<in> set (fds s)" "processClientEvent es a ev (s, ps) = Inr st'"
proof (cases "ev_fd ev = srv_fd s \<or> getClient s (ev_fd ev) = None")
  case True
  then have "Inr st' = (if ev_fd ev = srv_fd s \<and> ev_revents ev AND POLLIN \<noteq> 0 then acceptClient a (s, ps) else Inr (s, ps))"
    unfolding assms(1) [symmetric] by (auto simp: processEvent_def)
  then have "acceptClient a (s, ps) = Inr st' \<or> st' = (s, ps)" by (simp split: if_splits)
  then show ?thesis
  proof
    assume "acceptClient a (s, ps) = Inr st'"
    then show ?thesis by (rule accept)
  next
    assume "st' = (s, ps)"
    then show ?thesis by (rule nothing)
  qed
next
  case False
  then have "ev_fd ev \<in> set (fds s)" using getClient_Some by blast
  moreover from False assms(1) have "processClientEvent es a ev (s, ps) = Inr st'"
    by (auto simp: processEvent_def)
  ultimately show ?thesis by (rule client)
qed

lemma processEvent_inv:
  assumes "processEvent es a ev st = Inr st'" and "loop_inv st" and "uuid_supply es (srv_db (fst st))"
    and "answers_ok a (fst st)" and "clock_ok es"
  shows "loop_inv st'"
proof -
  obtain s ps where st: "st = (s, ps)" by fastforce
  from assms(1) have "processEvent es a ev (s, ps) = Inr st'" by (simp only: st)
  then show ?thesis
  proof (cases rule: processEvent_cases)
    case accept
    with assms(2,4) show ?thesis by (rule_tac acceptClient_inv [where st = "(s, ps)"]) (simp_all add: st)
  next
    case client
    have inv: "loop_inv (s, ps)" "server_inv s" using assms(2) by (simp_all add: st loop_inv_def)
    have sup: "uuid_supply es (srv_db s)" using assms(3) by (simp add: st)
    from client(2) inv(1) client(1) sup assms(5) show ?thesis
    proof (cases rule: kept.client_event)
      case hup
      then show ?thesis by (rule disconnect_inv) (use inv client in simp_all)
    next
      case eof
      then show ?thesis
        by (rule disconnect_inv [where s = s])
          (use inv client in \<open>simp_all add: server_inv_fd links_fd frame_simps\<close>)
    next
      case (alive t)
      then show ?thesis using loop_inv_kept inv by blast
    qed
  qed (use assms(2) st in simp)
qed

section \<open>Reachable states\<close>

text \<open>The steps of \<open>run\<close>: updating the flags, waiting, and each event of the list, one by one.\<close>

inductive loop_step :: "server \<times> poller \<Rightarrow> server \<times> poller \<Rightarrow> bool" where
  flags: "loop_step st (updatePollFlags st)"
| wait: "waitForEvents pollTimeoutMs start polls ps = Some (Inr (evs, ps')) \<Longrightarrow> loop_step (s, ps) (s, ps')"
| event: "processEvent es a ev st = Inr st' \<Longrightarrow> uuid_supply es (srv_db (fst st)) \<Longrightarrow>
    answers_ok a (fst st) \<Longrightarrow> clock_ok es \<Longrightarrow> loop_step st st'"

inductive_cases loop_stepE: "loop_step st st'"

lemma loop_step_inv: "loop_step st st' \<Longrightarrow> loop_inv st \<Longrightarrow> loop_inv st'"
proof (induction rule: loop_step.induct)
  case (flags st)
  then show ?case using updatePollFlags_inv [of "fst st" "snd st"] by simp
next
  case (wait start polls ps evs ps' s)
  then show ?case using watched_waitForEvents by (simp add: loop_inv_def poll_ok_def)
next
  case (event es a ev st st')
  then show ?case using processEvent_inv by blast
qed

lemma loop_steps_inv: "loop_step\<^sup>*\<^sup>* st st' \<Longrightarrow> loop_inv st \<Longrightarrow> loop_inv st'"
  by (induction rule: rtranclp_induct) (auto intro: loop_step_inv)

text \<open>The state in which \<open>run\<close> starts: no connection, and the database \<open>load\<close> produced.\<close>

definition started :: "server \<Rightarrow> bool" where
  "started s \<longleftrightarrow> srv_clients s = [] \<and> db_ok (srv_db s) \<and> list_all (\<lambda>u. usr_connectedCount u = 0) (db_users (srv_db s))"

lemma loop_inv_start: "started s \<Longrightarrow> loop_inv (run_start s)"
  by (simp add: started_def loop_inv_def run_start_def server_inv_def sessions_ok_def sessions_def counts_ok_def
      poll_ok_def addFileDescriptor_def watched_def links_def fds_def flags_of_def POLLIN_def list_all_iff)

section \<open>\<open>run\<close> makes these steps\<close>

text \<open>The promises of the outside, along a run: for each event, fresh identifiers and descriptors at the
  moment it is handled.\<close>

fun events_ok :: "(pollEvent \<times> (nat \<Rightarrow> env) \<times> answers) list \<Rightarrow> server \<times> poller \<Rightarrow> bool" where
  "events_ok [] st \<longleftrightarrow> True"
| "events_ok ((ev, es, a) # evs) st \<longleftrightarrow> uuid_supply es (srv_db (fst st)) \<and> answers_ok a (fst st) \<and> clock_ok es \<and>
     (case processEvent es a ev st of Inl x \<Rightarrow> True | Inr st1 \<Rightarrow> events_ok evs st1)"

definition turn_ok :: "turn \<Rightarrow> server \<times> poller \<Rightarrow> bool" where
  "turn_ok t st \<longleftrightarrow>
     (case updatePollFlags st of (s1, ps1) \<Rightarrow>
      case waitForEvents pollTimeoutMs (trn_start t) (trn_polls t) ps1 of
        Some (Inr (evs, ps2)) \<Rightarrow>
          events_ok (map2 (\<lambda>n ev. (ev, trn_events t n)) [0..<length evs] evs) (s1, ps2)
      | _ \<Rightarrow> True)"

fun turns_ok :: "turn list \<Rightarrow> server \<times> poller \<Rightarrow> bool" where
  "turns_ok [] st \<longleftrightarrow> True"
| "turns_ok (t # ts) st \<longleftrightarrow> turn_ok t st \<and>
     (case run_turn t st of Some (Inr st1) \<Rightarrow> trn_signals t = [] \<longrightarrow> turns_ok ts st1 | _ \<Rightarrow> True)"

lemma processEvents_steps: "processEvents evs st = Inr st' \<Longrightarrow> events_ok evs st \<Longrightarrow> loop_step\<^sup>*\<^sup>* st st'"
proof (induction evs arbitrary: st)
  case (Cons e evs)
  obtain ev es a where e: "e = (ev, es, a)" by (meson prod_cases3)
  from Cons.prems e obtain st1 where st1: "processEvent es a ev st = Inr st1" "processEvents evs st1 = Inr st'"
    by (auto split: sum.splits)
  with Cons.prems(2) e have "loop_step st st1" "loop_step\<^sup>*\<^sup>* st1 st'"
    using Cons.IH by (auto intro: event)
  then show ?case by (rule converse_rtranclp_into_rtranclp)
qed simp

lemma run_turn_steps:
  assumes "run_turn t st = Some (Inr st')" and "turn_ok t st"
  shows "loop_step\<^sup>*\<^sup>* st st'"
proof -
  obtain s1 ps1 where u: "updatePollFlags st = (s1, ps1)" by fastforce
  from assms(1) u obtain evs ps2 where
    w: "waitForEvents pollTimeoutMs (trn_start t) (trn_polls t) ps1 = Some (Inr (evs, ps2))"
    and p: "processEvents (map2 (\<lambda>n ev. (ev, trn_events t n)) [0..<length evs] evs) (s1, ps2) = Inr st'"
    by (auto simp: run_turn_def split: option.splits sum.splits)
  have "loop_step st (s1, ps1)" using loop_step.flags [of st] by (simp add: u)
  moreover have "loop_step (s1, ps1) (s1, ps2)" using w by (rule loop_step.wait)
  moreover have "loop_step\<^sup>*\<^sup>* (s1, ps2) st'"
    using p assms(2) u w by (auto simp: turn_ok_def intro: processEvents_steps)
  ultimately show ?thesis by (meson converse_rtranclp_into_rtranclp)
qed

lemma run_loop_stopped [simp]: "run_loop ts False st = Some (Inr st)"
  by (cases ts) simp_all

lemma run_loop_steps: "run_loop ts True st = Some (Inr st') \<Longrightarrow> turns_ok ts st \<Longrightarrow> loop_step\<^sup>*\<^sup>* st st'"
proof (induction ts arbitrary: st)
  case (Cons t ts)
  then obtain st1 where st1: "run_turn t st = Some (Inr st1)" "run_loop ts (trn_signals t = []) st1 = Some (Inr st')"
    by (auto split: option.splits sum.splits)
  with Cons.prems(2) have "loop_step\<^sup>*\<^sup>* st st1" by (simp add: run_turn_steps)
  moreover have "loop_step\<^sup>*\<^sup>* st1 st'"
    using st1 Cons.prems(2) Cons.IH [of st1] by (cases "trn_signals t = []") simp_all
  ultimately show ?case by (rule rtranclp_trans)
qed simp

section \<open>When an event cannot end the server\<close>

definition calm :: "answers \<Rightarrow> bool" where
  "calm a \<longleftrightarrow> (\<exists>n. ans_accept a = Ok n) \<and> (\<exists>w. ans_getfl a = Ok w \<and> ans_setfl a (w OR O_NONBLOCK) = Ok ()) \<and>
     (\<forall>n. ans_read a = Errno n \<longrightarrow> n = EAGAIN) \<and> (\<forall>n. ans_write a = Errno n \<longrightarrow> n = EAGAIN) \<and> ans_close a = Ok ()"

definition parsable :: "string \<Rightarrow> bool" where
  "parsable buf \<longleftrightarrow> list_all (\<lambda>l. parseArgs (strip_cr l) \<noteq> Inl Undefined_behaviour) (fst (split_lf buf))"

lemma dispatch_line_total:
  "parseArgs (strip_cr l) \<noteq> Inl Undefined_behaviour \<Longrightarrow> \<exists>t. dispatch_line e l fd s = Inr t"
  using parseArgs_loop_error [of "[]" "strip_cr l"]
  by (auto simp: dispatch_line_def handleCommand_def parseArgs_def Let_def split: sum.split option.split)

lemma run_lines_total:
  "list_all (\<lambda>l. parseArgs (strip_cr l) \<noteq> Inl Undefined_behaviour) ls \<Longrightarrow> \<exists>t. run_lines es ls fd s = Inr t"
proof (induction ls arbitrary: es s)
  case (Cons l ls)
  then show ?case using dispatch_line_total [of l "es 0" fd s] by auto
qed simp

lemma handleRead_total:
  assumes "calm a" and "fd \<in> set (fds s)" and "distinct (fds s)"
    and "\<And>d. ans_read a = Ok d \<Longrightarrow> parsable (cl_readBuffer (clientAt s fd) @ take 4096 d)"
  shows "\<exists>t. handleRead es (ans_read a) fd s = Inr t"
proof (cases "ans_read a")
  case (Ok d)
  show ?thesis
  proof (cases "d = []")
    case False
    obtain t where "run_lines es (fst (split_lf (cl_readBuffer (clientAt s fd) @ take 4096 d))) fd s = Inr t"
      using assms(4) [OF Ok] run_lines_total unfolding parsable_def by blast
    with False assms(2,3) show ?thesis by (simp add: Ok handleRead_receive receive_lines Let_def)
  qed (simp add: Ok handleRead_def Posix_read_def)
next
  case (Errno n)
  with assms(1) show ?thesis by (simp add: calm_def handleRead_def Posix_read_def)
qed

lemma disconnectClient_total: "calm a \<Longrightarrow> \<exists>st'. disconnectClient (ans_close a) fd st = Inr st'"
  by (auto simp: calm_def disconnectClient_def Posix_close_def checked_def Let_def split: prod.split option.split)

lemma handleWrite_total: "calm a \<Longrightarrow> \<exists>t. handleWrite (ans_write a) fd s = Inr t"
  by (cases "ans_write a") (auto simp: calm_def handleWrite_def Posix_write_def Let_def)

lemma processClientEvent_total:
  assumes "calm a" and "ev_fd ev \<in> set (fds (fst st))" and "distinct (fds (fst st))"
    and "\<And>d. ans_read a = Ok d \<Longrightarrow> parsable (cl_readBuffer (clientAt (fst st) (ev_fd ev)) @ take 4096 d)"
  shows "\<exists>st'. processClientEvent es a ev st = Inr st'"
proof -
  obtain s1 where "(if ev_revents ev AND POLLIN \<noteq> 0 then handleRead es (ans_read a) (ev_fd ev) (fst st) else Inr (fst st)) = Inr s1"
    using handleRead_total [OF assms] by (cases "ev_revents ev AND POLLIN \<noteq> 0") auto
  moreover obtain s2 where "handleWrite (ans_write a) (ev_fd ev) s1 = Inr s2" using handleWrite_total [OF assms(1)] by blast
  ultimately show ?thesis using disconnectClient_total [OF assms(1)] by (simp add: processClientEvent_def)
qed

section \<open>A concrete run\<close>

text \<open>A client connects to the idle server, logs in as Alice and selects a thread.\<close>

definition demo_answers :: answers where
  "demo_answers = \<lparr>ans_accept = Ok 4, ans_getfl = Ok 2, ans_setfl = (\<lambda>_. Ok ()),
     ans_read = Ok (''/login alice'' @ CRLF @ ''/use t1 c1 h1'' @ CRLF), ans_write = Ok 10, ans_close = Ok ()\<rparr>"

definition demo_events :: "(pollEvent \<times> (nat \<Rightarrow> env) \<times> answers) list" where
  "demo_events = [(\<lparr>ev_fd = 3, ev_revents = 1\<rparr>, demo_envs, demo_answers),
     (\<lparr>ev_fd = 4, ev_revents = 1\<rparr>, demo_envs, demo_answers\<lparr>ans_accept := Errno 11\<rparr>)]"

definition demo_after :: "server \<times> poller" where
  "demo_after = (case processEvents demo_events (run_start demo_idle) of Inr st \<Rightarrow> st | Inl x \<Rightarrow> run_start demo_idle)"

lemma demo_ids: "all_ids (srv_db demo_idle) = [''u1'', ''u2'', ''t1'', ''c1'', ''h1'']"
  by code_simp

lemma demo_clock: "clock_ok demo_envs"
  by (simp add: clock_ok_def demo_envs_def demo_env_def exact_time_def)

lemma demo_supply: "all_ids db = [''u1'', ''u2'', ''t1'', ''c1'', ''h1''] \<Longrightarrow> uuid_supply demo_envs db"
  by (auto simp: uuid_supply_def inj_def demo_envs_def fresh_uuid_def)

lemma demo_first:
  "case processEvent demo_envs demo_answers \<lparr>ev_fd = 3, ev_revents = 1\<rparr> (run_start demo_idle) of
     Inl x \<Rightarrow> False
   | Inr st \<Rightarrow> all_ids (srv_db (fst st)) = [''u1'', ''u2'', ''t1'', ''c1'', ''h1'']"
  by code_simp

lemma demo_events_ok: "events_ok demo_events (run_start demo_idle)"
  using demo_first demo_supply [OF demo_ids] demo_clock
  by (auto simp: demo_events_def answers_ok_def demo_answers_def demo_idle_def run_start_def fds_def
      intro: demo_supply split: sum.split)

lemma demo_runs: "processEvents demo_events (run_start demo_idle) = Inr demo_after"
proof -
  have "isl (processEvents demo_events (run_start demo_idle)) = False" by code_simp
  then show ?thesis by (cases "processEvents demo_events (run_start demo_idle)") (simp_all add: demo_after_def)
qed

lemma demo_reached: "loop_step\<^sup>*\<^sup>* (run_start demo_idle) demo_after"
  by (rule processEvents_steps [OF demo_runs demo_events_ok])

lemma demo_started: "started demo_idle"
  by code_simp

definition demo_turn :: turn where
  "demo_turn = \<lparr>trn_start = 0, trn_polls = [(0, \<lambda>_. Errno EINTR), (5, \<lambda>_. Ok (1, \<lambda>i. if i = 0 then 1 else 0))],
     trn_events = (\<lambda>_. (demo_envs, demo_answers)), trn_signals = [2]\<rparr>"

definition demo_turned :: "server \<times> poller" where
  "demo_turned = (demo_idle, [\<lparr>pfd_fd = 3, pfd_events = 1, pfd_revents = 1\<rparr>])"

lemma demo_turn_waits:
  "updatePollFlags (run_start demo_idle) = run_start demo_idle"
  "waitForEvents pollTimeoutMs (trn_start demo_turn) (trn_polls demo_turn) (snd (run_start demo_idle)) =
     Some (Inr ([\<lparr>ev_fd = 3, ev_revents = 1\<rparr>], snd demo_turned))"
  by code_simp+

lemma demo_turn_ok: "turns_ok [demo_turn] (run_start demo_idle)"
proof -
  have "events_ok [(\<lparr>ev_fd = 3, ev_revents = 1\<rparr>, demo_envs, demo_answers)] demo_turned"
    using demo_supply [OF demo_ids] demo_clock
    by (simp add: demo_turned_def answers_ok_def demo_answers_def demo_idle_def fds_def split: sum.split)
  then show ?thesis
    using demo_turn_waits
    by (simp add: turn_ok_def run_start_def demo_turned_def) (simp add: demo_turn_def split: option.split sum.split)
qed

end
