(* ===== verification/Decimal.thy ===== *)
theory Decimal
  imports Prelude "HOL-Library.Word"
begin

text \<open>
  Decimal text to integers: the digits the parsers of the standard library read, \<open>std::stoll\<close> and
  \<open>std::stoi\<close> (blanks, a sign, the longest run of digits; \<open>None\<close> is the exception they throw when
  there is no digit or the value is out of range; what follows the digits is ignored), and that
  they read back what \<open>std::to_string\<close> printed.
\<close>

definition isdigit :: "char \<Rightarrow> bool" where
  "isdigit c \<longleftrightarrow> 48 \<le> (of_char c :: nat) \<and> (of_char c :: nat) \<le> 57"

definition digits_val :: "string \<Rightarrow> int" where
  "digits_val ds = foldl (\<lambda>v c. 10 * v + (of_char c - 48)) 0 ds"

definition signed_digits :: "string \<Rightarrow> int option" where
  "signed_digits s =
     (let t = dropWhile isspace s;
          neg = (t \<noteq> [] \<and> hd t = CHR ''-'');
          plus = (t \<noteq> [] \<and> hd t = CHR ''+'');
          ds = takeWhile isdigit (if neg \<or> plus then tl t else t)
      in if ds = [] then None else Some (if neg then - digits_val ds else digits_val ds))"

definition stoll :: "string \<Rightarrow> int option" where
  "stoll s = (case signed_digits s of
     None \<Rightarrow> None | Some v \<Rightarrow> if - (2 ^ 63) \<le> v \<and> v < 2 ^ 63 then Some v else None)"

definition stoi :: "string \<Rightarrow> int option" where
  "stoi s = (case signed_digits s of
     None \<Rightarrow> None | Some v \<Rightarrow> if - (2 ^ 31) \<le> v \<and> v < 2 ^ 31 then Some v else None)"

text \<open>\<open>std::stoull\<close> goes through \<open>strtoull\<close>, which negates a value with a minus sign modulo 2^64.\<close>

definition stoull :: "string \<Rightarrow> int option" where
  "stoull s = (case signed_digits s of
     None \<Rightarrow> None | Some v \<Rightarrow> if abs v < 2 ^ 64 then Some (v mod 2 ^ 64) else None)"

definition static_cast_int :: "int \<Rightarrow> int" where
  "static_cast_int v = sint (word_of_int v :: 32 word)"

section \<open>Reading what was printed\<close>

lemma of_char_digit: "d < 10 \<Longrightarrow> of_char (char_of (48 + d) :: char) = (48 + d :: nat)"
  by (simp add: of_char_of)

lemma isdigit_char: "d < 10 \<Longrightarrow> isdigit (char_of (48 + d :: nat))"
  by (simp add: isdigit_def of_char_digit)

lemma nat_digits_isdigit: "list_all isdigit (nat_digits n)"
proof (induction n rule: nat_digits.induct)
  case (1 n)
  then show ?case by (subst nat_digits.simps) (auto simp: isdigit_char)
qed

lemma of_char_int: "(of_char c :: int) = int (of_char c)"
  by (simp add: of_char_def of_bool_def) 

lemma digits_val_snoc: "digits_val (ds @ [c]) = 10 * digits_val ds + (of_char c - 48)"
  by (simp add: digits_val_def)

lemma digits_val_nat_digits: "digits_val (nat_digits n) = int n"
proof (induction n rule: nat_digits.induct)
  case (1 n)
  show ?case
  proof (cases "n < 10")
    case True
    then show ?thesis by (subst nat_digits.simps) (simp add: digits_val_def of_char_int of_char_digit)
  next
    case False
    have "10 * (n div 10) + n mod 10 = n" by simp
    then have "10 * int (n div 10) + int (n mod 10) = int n" by (metis of_nat_add of_nat_mult of_nat_numeral)
    with False 1 show ?thesis
      by (subst nat_digits.simps) (simp add: digits_val_snoc of_char_int of_char_digit)
  qed
qed

lemma to_string_head: "isdigit (hd (to_string t)) \<or> hd (to_string t) = CHR ''-''"
  using nat_digits_isdigit [of "nat t"] nat_digits_not_Nil [of "nat t"]
  by (cases "nat_digits (nat t)") (auto simp: to_string_def)

lemma signed_digits_to_string: "signed_digits (to_string t) = Some t"
proof -
  have tw: "takeWhile isdigit (nat_digits n) = nat_digits n" for n
    using nat_digits_isdigit [of n] by (simp add: takeWhile_eq_all_conv list_all_iff)
  have "\<not> isspace (hd (to_string t))" using to_string_head [of t] by (auto simp: isdigit_def isspace_def)
  then have dw: "dropWhile isspace (to_string t) = to_string t" by (cases "to_string t") auto
  show ?thesis
  proof (cases "t < 0")
    case True
    then have "to_string t = CHR ''-'' # nat_digits (nat (- t))" by (simp add: to_string_def)
    with dw True show ?thesis by (simp add: signed_digits_def Let_def digits_val_nat_digits tw)
  next
    case False
    then have s: "to_string t = nat_digits (nat t)" by (simp add: to_string_def)
    have "list_all isdigit (nat_digits (nat t))" by (rule nat_digits_isdigit)
    then have "isdigit (hd (nat_digits (nat t)))" by (cases "nat_digits (nat t)") auto
    then have "hd (nat_digits (nat t)) \<noteq> CHR ''-''" "hd (nat_digits (nat t)) \<noteq> CHR ''+''" by (auto simp: isdigit_def)
    with dw False show ?thesis by (simp add: s signed_digits_def Let_def digits_val_nat_digits tw)
  qed
qed

lemma stoll_to_string: "- (2 ^ 63) \<le> t \<Longrightarrow> t < 2 ^ 63 \<Longrightarrow> stoll (to_string t) = Some t"
  by (simp add: stoll_def signed_digits_to_string)

lemma stoi_to_string: "- (2 ^ 31) \<le> t \<Longrightarrow> t < 2 ^ 31 \<Longrightarrow> stoi (to_string t) = Some t"
  by (simp add: stoi_def signed_digits_to_string)

end
