(* ===== verification/Json_Parser.thy ===== *)
theory Json_Parser
  imports Wire Decimal Complex_Main "HOL-Library.Log_Nat"
begin

text \<open>
  \<open>src/server/saveManager/JsonParser.cpp\<close>: the JSON value and the recursive descent parser that
  reads the save file. A position in \<open>_src\<close> is the text from it on; a position at or past the end
  is the empty text, and reading there yields the terminating NUL, as \<open>std::string::operator[]\<close>
  does at \<open>size()\<close> (the parser never reads further). \<open>skipWs\<close> brings a position past the end back
  to it. The array loop can fail to advance, so the parser takes fuel: \<open>None\<close> is a parse that has
  not returned.

  \<open>std::from_chars\<close> on a \<open>double\<close> is modelled by its grammar and the rounding of binary64.
\<close>

section \<open>Doubles\<close>

datatype double = Finite rat | Infinite bool | NaN

definition ilog2 :: "rat \<Rightarrow> int" where
  "ilog2 x = (let (n, d) = quotient_of x; b = bitlen n - bitlen d in if 2 powi b \<le> x then b else b - 1)"

definition round_even :: "rat \<Rightarrow> int" where
  "round_even x =
     (let f = floor x; d = x - of_int f in
      if d < 1 / 2 then f else if d > 1 / 2 then f + 1 else if even f then f else f + 1)"

text \<open>The nearest double, ties to even; \<open>None\<close> when it is out of range.\<close>

definition binary64 :: "rat \<Rightarrow> rat option" where
  "binary64 x =
     (if x = 0 then Some 0
      else
        (let e = max (ilog2 (abs x) - 52) (-1074);
             y = of_int (round_even (x / 2 powi e)) * 2 powi e
         in if abs y \<ge> 2 ^ 1024 then None else Some y))"

definition lower :: "char \<Rightarrow> char" where
  "lower c = (let n = of_char c :: nat in if 65 \<le> n \<and> n \<le> 90 then char_of (n + 32) else c)"

text \<open>The special words, by the longest match: how many characters, and the value without its sign.\<close>

definition special :: "string \<Rightarrow> (nat \<times> (bool \<Rightarrow> double)) option" where
  "special s =
     (let l = map lower s in
      if take 8 l = ''infinity'' then Some (8, Infinite)
      else if take 3 l = ''inf'' then Some (3, Infinite)
      else if take 3 l = ''nan'' then
        (let body = drop 4 s;
             inner = takeWhile (\<lambda>c. isdigit c \<or> c = CHR ''_'' \<or> 97 \<le> (of_char (lower c) :: nat) \<and> (of_char (lower c) :: nat) \<le> 122) body
         in if take 1 (drop 3 s) = ''('' \<and> take 1 (drop (length inner) body) = '')''
            then Some (5 + length inner, \<lambda>_. NaN) else Some (3, \<lambda>_. NaN))
      else None)"

text \<open>The exponent part: how many characters, and its value.\<close>

definition exponent :: "string \<Rightarrow> nat \<times> int" where
  "exponent s =
     (if s \<noteq> [] \<and> lower (hd s) = CHR ''e'' then
        (let t = tl s;
             signed = (t \<noteq> [] \<and> (hd t = CHR ''-'' \<or> hd t = CHR ''+''));
             ds = takeWhile isdigit (if signed then tl t else t)
         in if ds = [] then (0, 0)
            else (1 + (if signed then 1 else 0) + length ds,
                  (if signed \<and> hd t = CHR ''-'' then - digits_val ds else digits_val ds)))
      else (0, 0))"

text \<open>\<open>std::from_chars(first, last, double&)\<close>: the number of characters matched and the value, which is
  \<open>None\<close> (the variable is left alone) when nothing matches or the value is out of range.\<close>

definition from_chars :: "string \<Rightarrow> nat \<times> double option" where
  "from_chars s =
     (let neg = (s \<noteq> [] \<and> hd s = CHR ''-'');
          n0 = (if neg then 1 else 0);
          t = drop n0 s
      in case special t of
           Some (n, v) \<Rightarrow> (n0 + n, Some (v neg))
         | None \<Rightarrow>
             (let ip = takeWhile isdigit t;
                  t1 = drop (length ip) t;
                  dot = (t1 \<noteq> [] \<and> hd t1 = CHR ''.'');
                  fp = (if dot then takeWhile isdigit (tl t1) else []);
                  t2 = (if dot then drop (1 + length fp) t1 else t1)
              in if ip = [] \<and> fp = [] then (0, None)
                 else case exponent t2 of (ne, ex) \<Rightarrow>
                   (let v = of_int (digits_val (ip @ fp)) * 10 powi (ex - int (length fp));
                        v' = (if neg then - v else v)
                    in (n0 + length ip + (if dot then 1 else 0) + length fp + ne,
                        map_option Finite (binary64 v')))))"

section \<open>Values\<close>

datatype jtype = Null | Bool | Num | Str | Arr | Obj

datatype jsonVal = JsonVal (j_type: jtype) (j_bVal: bool) (j_nVal: double) (j_sVal: string)
  (j_arrVal: "jsonVal list") (j_objVal: "(string \<times> jsonVal) list")

definition nullVal :: jsonVal where
  "nullVal = JsonVal Null False (Finite 0) [] [] []"

definition boolVal :: "bool \<Rightarrow> jsonVal" where
  "boolVal b = JsonVal Bool b (Finite 0) [] [] []"

definition numVal :: "double \<Rightarrow> jsonVal" where
  "numVal x = JsonVal Num False x [] [] []"

definition strVal :: "string \<Rightarrow> jsonVal" where
  "strVal s = JsonVal Str False (Finite 0) s [] []"

definition arrVal :: "jsonVal list \<Rightarrow> jsonVal" where
  "arrVal vs = JsonVal Arr False (Finite 0) [] vs []"

definition objVal :: "(string \<times> jsonVal) list \<Rightarrow> jsonVal" where
  "objVal m = JsonVal Obj False (Finite 0) [] [] m"

definition json_at :: "jsonVal \<Rightarrow> string \<Rightarrow> jsonVal" where
  "json_at v key = (case map_find key (j_objVal v) of None \<Rightarrow> nullVal | Some x \<Rightarrow> x)"

section \<open>The parser\<close>

definition skipWs :: "string \<Rightarrow> string" where
  "skipWs s = dropWhile isspace s"

fun parseStr_loop :: "string \<Rightarrow> string \<Rightarrow> string \<times> string" where
  "parseStr_loop result [] = (result, [])"
| "parseStr_loop result (c # s) =
     (if c = DQ then (result, s)
      else if c = BSL then
        (case s of [] \<Rightarrow> (result @ [NUL], []) | d # s' \<Rightarrow> parseStr_loop (result @ [d]) s')
      else parseStr_loop (result @ [c]) s)"

definition parseStr :: "string \<Rightarrow> string \<times> string" where
  "parseStr s = parseStr_loop [] (tl s)"

definition parseNum :: "string \<Rightarrow> jsonVal \<times> string" where
  "parseNum s =
     (case from_chars s of (n, v) \<Rightarrow>
        (numVal (case v of None \<Rightarrow> Finite 0 | Some x \<Rightarrow> x), drop n s))"

definition skipComma :: "string \<Rightarrow> string" where
  "skipComma s = (if s \<noteq> [] \<and> hd s = CHR '','' then tl s else s)"

fun parseValue :: "nat \<Rightarrow> string \<Rightarrow> (jsonVal \<times> string) option"
  and parseArray_loop :: "nat \<Rightarrow> jsonVal list \<Rightarrow> string \<Rightarrow> (jsonVal list \<times> string) option"
  and parseObject_loop :: "nat \<Rightarrow> (string \<times> jsonVal) list \<Rightarrow> string \<Rightarrow> ((string \<times> jsonVal) list \<times> string) option" where
  "parseValue 0 s = None"
| "parseValue (Suc n) s0 =
     (let s = skipWs s0 in
      if s = [] then Some (nullVal, [])
      else if hd s = DQ then (case parseStr s of (v, r) \<Rightarrow> Some (strVal v, r))
      else if hd s = CHR ''['' then
        (case parseArray_loop n [] (skipWs (tl s)) of None \<Rightarrow> None | Some (vs, r) \<Rightarrow> Some (arrVal vs, r))
      else if hd s = CHR ''{'' then
        (case parseObject_loop n [] (skipWs (tl s)) of None \<Rightarrow> None | Some (m, r) \<Rightarrow> Some (objVal m, r))
      else if hd s = CHR ''t'' then Some (boolVal True, drop 4 s)
      else if hd s = CHR ''f'' then Some (boolVal False, drop 5 s)
      else if hd s = CHR ''n'' then Some (nullVal, drop 4 s)
      else Some (parseNum s))"
| "parseArray_loop 0 vs s = None"
| "parseArray_loop (Suc n) vs s =
     (if s = [] \<or> hd s = CHR '']'' then Some (vs, tl s)
      else case parseValue n s of
        None \<Rightarrow> None
      | Some (v, r) \<Rightarrow> parseArray_loop n (vs @ [v]) (skipComma (skipWs r)))"
| "parseObject_loop 0 m s = None"
| "parseObject_loop (Suc n) m s =
     (if s = [] \<or> hd s = CHR ''}'' then Some (m, tl s)
      else case parseStr s of (key, r) \<Rightarrow>
        (case parseValue n (tl (skipWs r)) of
           None \<Rightarrow> None
         | Some (v, r') \<Rightarrow>
             parseObject_loop n (map_upsert key v (\<lambda>_. v) m) (skipWs (skipComma (skipWs r')))))"

definition json_parse :: "nat \<Rightarrow> string \<Rightarrow> jsonVal option" where
  "json_parse n src = map_option fst (parseValue n src)"

end
