(* ===== verification/Save_Manager.thy ===== *)
theory Save_Manager
  imports Json_Parser Server_State
begin

text \<open>
  Persistence: \<open>src/server/saveManager/JsonSerializer.cpp\<close> (the JSON text of each model class and the
  way back) and \<open>saveManager.cpp\<close> (\<open>save\<close> and \<open>load\<close>). The file is its content; \<open>None\<close> is a file
  that cannot be opened. The conversion of a \<open>double\<close> to \<open>time_t\<close> is undefined behaviour when
  the truncated value does not fit.
\<close>

section \<open>To JSON\<close>

fun escapeJson_loop :: "string \<Rightarrow> string" where
  "escapeJson_loop [] = []"
| "escapeJson_loop (c # s) =
     (if c = DQ then [BSL, DQ] else if c = BSL then [BSL, BSL] else [c]) @ escapeJson_loop s"

definition escapeJson :: "string \<Rightarrow> string" where
  "escapeJson s = DQ # escapeJson_loop s @ [DQ]"

definition addItem :: "string \<Rightarrow> string \<Rightarrow> string" where
  "addItem out item = (if out \<noteq> [] then out @ '','' else out) @ item"

definition jsonArray :: "('a \<Rightarrow> string) \<Rightarrow> 'a list \<Rightarrow> string" where
  "jsonArray mapper items = CHR ''['' # foldl (\<lambda>out item. addItem out (mapper item)) [] items @ '']''"

definition jsonMapOfArrays :: "('a \<Rightarrow> string) \<Rightarrow> 'a list std_map \<Rightarrow> string" where
  "jsonMapOfArrays mapper m =
     CHR ''{'' # foldl (\<lambda>out (key, values). addItem out (escapeJson key @ CHR '':'' # jsonArray mapper values)) [] m @ ''}''"

text \<open>The literal \<open>"\"key\":"\<close> followed by a value.\<close>

definition jsonField :: "string \<Rightarrow> string \<Rightarrow> string" where
  "jsonField key v = DQ # key @ DQ # CHR '':'' # v"

definition messageToJson :: "message \<Rightarrow> string" where
  "messageToJson m = ''{'' @ jsonField ''sender'' (escapeJson (msg_senderUuid m)) @ '','' @
     jsonField ''receiver'' (escapeJson (msg_receiverUuid m)) @ '','' @
     jsonField ''timestamp'' (to_string (msg_timestamp m)) @ '','' @
     jsonField ''body'' (escapeJson (msg_body m)) @ ''}''"

definition replyToJson :: "reply \<Rightarrow> string" where
  "replyToJson r = ''{'' @ jsonField ''uuid'' (escapeJson (rep_uuid r)) @ '','' @
     jsonField ''user_uuid'' (escapeJson (rep_userUuid r)) @ '','' @
     jsonField ''timestamp'' (to_string (rep_timestamp r)) @ '','' @
     jsonField ''body'' (escapeJson (rep_body r)) @ ''}''"

definition threadToJson :: "thread \<Rightarrow> string" where
  "threadToJson t = ''{'' @ jsonField ''uuid'' (escapeJson (thr_uuid t)) @ '','' @
     jsonField ''user_uuid'' (escapeJson (thr_userUuid t)) @ '','' @
     jsonField ''timestamp'' (to_string (thr_timestamp t)) @ '','' @
     jsonField ''title'' (escapeJson (thr_title t)) @ '','' @
     jsonField ''body'' (escapeJson (thr_body t)) @ '','' @
     jsonField ''replies'' (jsonArray replyToJson (thr_replies t)) @ ''}''"

definition channelToJson :: "channel \<Rightarrow> string" where
  "channelToJson c = ''{'' @ jsonField ''uuid'' (escapeJson (chn_uuid c)) @ '','' @
     jsonField ''name'' (escapeJson (chn_name c)) @ '','' @
     jsonField ''description'' (escapeJson (chn_description c)) @ '','' @
     jsonField ''threads'' (jsonArray threadToJson (chn_threads c)) @ ''}''"

definition teamToJson :: "team \<Rightarrow> string" where
  "teamToJson t = ''{'' @ jsonField ''uuid'' (escapeJson (team_uuid t)) @ '','' @
     jsonField ''name'' (escapeJson (team_name t)) @ '','' @
     jsonField ''description'' (escapeJson (team_description t)) @ '','' @
     jsonField ''subscribers'' (jsonArray escapeJson (team_subscriberUuids t)) @ '','' @
     jsonField ''channels'' (jsonArray channelToJson (team_channels t)) @ ''}''"

definition userToJson :: "user \<Rightarrow> string" where
  "userToJson u = ''{'' @ jsonField ''uuid'' (escapeJson (usr_uuid u)) @ '','' @
     jsonField ''name'' (escapeJson (usr_name u)) @ '','' @
     jsonField ''connected'' ''false'' @ '','' @
     jsonField ''teams'' (jsonArray escapeJson (usr_teams u)) @ '','' @
     jsonField ''messages'' (jsonMapOfArrays messageToJson (usr_messages u)) @ ''}''"

section \<open>From JSON\<close>

definition to_time :: "double \<Rightarrow> exn + int" where
  "to_time x =
     (case x of
        Finite r \<Rightarrow>
          (let i = (if r < 0 then - floor (- r) else floor r) in
           if - (2 ^ 63) \<le> i \<and> i < 2 ^ 63 then Inr i else Inl Undefined_behaviour)
      | _ \<Rightarrow> Inl Undefined_behaviour)"

definition bind_exn :: "exn + 'a \<Rightarrow> ('a \<Rightarrow> exn + 'b) \<Rightarrow> exn + 'b" where
  "bind_exn r f = (case r of Inl x \<Rightarrow> Inl x | Inr v \<Rightarrow> f v)"

fun map_exn :: "('a \<Rightarrow> exn + 'b) \<Rightarrow> 'a list \<Rightarrow> exn + 'b list" where
  "map_exn f [] = Inr []"
| "map_exn f (x # xs) = bind_exn (f x) (\<lambda>y. bind_exn (map_exn f xs) (\<lambda>ys. Inr (y # ys)))"

definition messageFromJson :: "jsonVal \<Rightarrow> exn + message" where
  "messageFromJson v =
     bind_exn (to_time (j_nVal (json_at v ''timestamp''))) (\<lambda>t.
       Inr \<lparr>msg_senderUuid = j_sVal (json_at v ''sender''), msg_receiverUuid = j_sVal (json_at v ''receiver''),
         msg_timestamp = t, msg_body = j_sVal (json_at v ''body'')\<rparr>)"

definition replyFromJson :: "jsonVal \<Rightarrow> exn + reply" where
  "replyFromJson v =
     bind_exn (to_time (j_nVal (json_at v ''timestamp''))) (\<lambda>t.
       Inr \<lparr>rep_uuid = j_sVal (json_at v ''uuid''), rep_userUuid = j_sVal (json_at v ''user_uuid''),
         rep_timestamp = t, rep_body = j_sVal (json_at v ''body'')\<rparr>)"

definition threadFromJson :: "jsonVal \<Rightarrow> exn + thread" where
  "threadFromJson v =
     bind_exn (to_time (j_nVal (json_at v ''timestamp''))) (\<lambda>t.
     bind_exn (map_exn replyFromJson (j_arrVal (json_at v ''replies''))) (\<lambda>rs.
       Inr \<lparr>thr_uuid = j_sVal (json_at v ''uuid''), thr_userUuid = j_sVal (json_at v ''user_uuid''),
         thr_timestamp = t, thr_title = j_sVal (json_at v ''title''), thr_body = j_sVal (json_at v ''body''),
         thr_replies = rs\<rparr>))"

definition channelFromJson :: "jsonVal \<Rightarrow> exn + channel" where
  "channelFromJson v =
     bind_exn (map_exn threadFromJson (j_arrVal (json_at v ''threads''))) (\<lambda>ths.
       Inr \<lparr>chn_uuid = j_sVal (json_at v ''uuid''), chn_name = j_sVal (json_at v ''name''),
         chn_description = j_sVal (json_at v ''description''), chn_threads = ths\<rparr>)"

definition teamFromJson :: "jsonVal \<Rightarrow> exn + team" where
  "teamFromJson v =
     bind_exn (map_exn channelFromJson (j_arrVal (json_at v ''channels''))) (\<lambda>cs.
       Inr \<lparr>team_uuid = j_sVal (json_at v ''uuid''), team_name = j_sVal (json_at v ''name''),
         team_description = j_sVal (json_at v ''description''),
         team_subscriberUuids = map j_sVal (j_arrVal (json_at v ''subscribers'')), team_channels = cs\<rparr>)"

fun messagesFromJson :: "message list std_map \<Rightarrow> (string \<times> jsonVal) list \<Rightarrow> exn + message list std_map" where
  "messagesFromJson messages [] = Inr messages"
| "messagesFromJson messages ((interlocutor, msgsVal) # rest) =
     bind_exn (map_exn messageFromJson (j_arrVal msgsVal)) (\<lambda>msgs.
       messagesFromJson (map_upsert interlocutor msgs (\<lambda>_. msgs) messages) rest)"

definition userFromJson :: "jsonVal \<Rightarrow> exn + user" where
  "userFromJson v =
     bind_exn (messagesFromJson [] (j_objVal (json_at v ''messages''))) (\<lambda>ms.
       Inr (setConnectionCount 0 \<lparr>usr_uuid = j_sVal (json_at v ''uuid''), usr_name = j_sVal (json_at v ''name''),
         usr_connectedCount = 0, usr_teams = map j_sVal (j_arrVal (json_at v ''teams'')), usr_messages = ms\<rparr>))"

section \<open>Saving and loading\<close>

definition SaveManager_save :: "database \<Rightarrow> string" where
  "SaveManager_save db =
     (let us = foldl (\<lambda>out u. addItem out (userToJson u)) [] (db_users db);
          ts = foldl (\<lambda>out t. addItem out (teamToJson t)) [] (db_teams db)
      in ''{'' @ DQ # ''users'' @ DQ # '':['' @ us @ ''],'' @ DQ # ''teams'' @ DQ # '':['' @ ts @ '']}'')"

definition loadUser :: "user \<Rightarrow> server \<Rightarrow> server" where
  "loadUser u s = logEvent (server_event_user_loaded (c_str (usr_uuid u)) (c_str (usr_name u))) (modifyDb (pushUser u) s)"

definition SaveManager_load :: "nat \<Rightarrow> string option \<Rightarrow> server \<Rightarrow> (exn + server) option" where
  "SaveManager_load n file s =
     (case file of
        None \<Rightarrow> Some (Inr s)
      | Some content \<Rightarrow>
          map_option (\<lambda>root.
            bind_exn (map_exn userFromJson (j_arrVal (json_at root ''users''))) (\<lambda>us.
            bind_exn (map_exn teamFromJson (j_arrVal (json_at root ''teams''))) (\<lambda>ts.
              Inr (fold (\<lambda>t. modifyDb (pushTeam t)) ts (fold loadUser us s)))))
            (json_parse n content))"

end
