(* ===== verification/Json_Roundtrip.thy ===== *)
theory Json_Roundtrip
  imports Save_Manager Fixtures
begin

text \<open>
  Reading back what was written. \<open>reads N s v\<close> says that with fuel \<open>N\<close> or more the parser turns the
  text \<open>s\<close>, followed by a delimiter, into the value \<open>v\<close> and leaves the rest; it is closed under the
  array and object syntax the serializer uses, so each class needs one application of it.
\<close>

section \<open>Strings\<close>

lemma parseStr_loop_escape: "parseStr_loop r (escapeJson_loop v @ DQ # rest) = (r @ v, rest)"
  by (induction v arbitrary: r) auto

lemma parseStr_escapeJson: "parseStr (escapeJson v @ rest) = (v, rest)"
  by (simp add: parseStr_def escapeJson_def parseStr_loop_escape)

lemma parseStr_plain: "DQ \<notin> set k \<Longrightarrow> BSL \<notin> set k \<Longrightarrow> parseStr (DQ # k @ DQ # rest) = (k, rest)"
proof -
  assume "DQ \<notin> set k" "BSL \<notin> set k"
  then have "parseStr_loop r (k @ DQ # rest) = (r @ k, rest)" for r
    by (induction k arbitrary: r) auto
  then show ?thesis by (simp add: parseStr_def)
qed

section \<open>Numbers\<close>

lemma ilog2_int:
  assumes "0 < n"
  shows "ilog2 (of_int n) = bitlen n - 1"
proof -
  have q: "quotient_of (of_int n) = (n, 1)" by (simp add: quotient_of_int)
  have "2 ^ nat (bitlen n - 1) \<le> n" using bitlen_bounds [OF assms] by simp
  then have "(2::rat) ^ nat (bitlen n - 1) \<le> of_int n" by (metis of_int_le_iff of_int_numeral of_int_power)
  moreover have "bitlen n \<ge> 1" using assms bitlen_nonneg [of n] bitlen_eq_zero_iff [of n] by linarith
  ultimately have "(2::rat) powi (bitlen n - 1) \<le> of_int n" by (simp add: power_int_def)
  moreover have "bitlen (1::int) = 1" by code_simp
  ultimately show ?thesis by (simp add: ilog2_def q Let_def)
qed

lemma round_even_int: "round_even (of_int k) = k"
  by (simp add: round_even_def)

lemma binary64_exact:
  assumes "exact_time t"
  shows "binary64 (of_int t) = Some (of_int t)"
proof (cases "t = 0")
  case False
  define e where "e = max (bitlen (abs t) - 53) (-1074)"
  have "abs t < 2 ^ 53" using assms by (simp add: exact_time_def)
  then have "bitlen (abs t) \<le> 53" by (simp add: bitlen_le_iff_power)
  then have e: "e \<le> 0" by (simp add: e_def)
  have l: "ilog2 (abs (of_int t)) = bitlen (abs t) - 1" using ilog2_int [of "abs t"] False by simp
  have "(of_int t :: rat) / 2 powi e = of_int (t * 2 ^ nat (- e))"
    using e by (cases "e = 0") (simp_all add: power_int_def field_simps)
  then have "round_even (of_int t / 2 powi e) = t * 2 ^ nat (- e)" by (simp only: round_even_int)
  moreover have "(of_int (t * 2 ^ nat (- e)) :: rat) * 2 powi e = of_int t"
    using e by (cases "e = 0") (simp_all add: power_int_def field_simps)
  ultimately have y: "of_int (round_even (of_int t / 2 powi e)) * 2 powi e = (of_int t :: rat)" by simp
  have ee: "max (ilog2 (abs (of_int t)) - 52) (-1074) = e" by (simp add: l e_def)
  have "\<not> abs (of_int t :: rat) \<ge> 2 ^ 1024"
  proof -
    have "abs t < 2 ^ 1024" using \<open>abs t < 2 ^ 53\<close> by (rule order.strict_trans2) (rule power_increasing, simp_all)
    then have "of_int (abs t) < (of_int (2 ^ 1024) :: rat)" by (simp only: of_int_less_iff)
    then show ?thesis by simp
  qed
  then show ?thesis unfolding binary64_def Let_def ee y using False by simp
qed (simp add: binary64_def)

abbreviation delim :: "string \<Rightarrow> bool" where
  "delim rest \<equiv> (rest = [] \<or> hd rest = CHR '','' \<or> hd rest = CHR '']'' \<or> hd rest = CHR ''}'')"

lemma special_digit: "isdigit d \<Longrightarrow> special (d # s) = None"
proof -
  assume d: "isdigit d"
  then have "lower d = d" by (simp add: lower_def isdigit_def Let_def)
  moreover have "d \<noteq> CHR ''i''" "d \<noteq> CHR ''n''" using d by (auto simp: isdigit_def)
  ultimately show ?thesis by (simp add: special_def Let_def numeral_3_eq_3 numeral_eq_Suc)
qed

lemma takeWhile_digits: "list_all isdigit ds \<Longrightarrow> delim rest \<Longrightarrow> takeWhile isdigit (ds @ rest) = ds"
proof (induction ds)
  case Nil
  then show ?case by (cases rest) (auto simp: isdigit_def)
qed simp

lemma exponent_delim: "delim rest \<Longrightarrow> exponent rest = (0, 0)"
  by (auto simp: exponent_def lower_def)

lemma from_chars_to_string:
  assumes "exact_time t" and "delim rest"
  shows "from_chars (to_string t @ rest) = (length (to_string t), Some (Finite (of_int t)))"
proof -
  define ds where "ds = nat_digits (nat (abs t))"
  have ts: "to_string t = (if t < 0 then CHR ''-'' # ds else ds)" by (simp add: to_string_def ds_def)
  have dig: "list_all isdigit ds" "ds \<noteq> []" "digits_val ds = abs t"
    by (simp_all add: ds_def nat_digits_isdigit digits_val_nat_digits)
  obtain d ds' where ds': "ds = d # ds'" using dig(2) by (cases ds) auto
  have sp: "special (ds @ rest) = None" using dig(1) by (simp add: ds' special_digit)
  have tw: "takeWhile isdigit (ds @ rest) = ds" using takeWhile_digits [OF dig(1) assms(2)] .
  have nd: "(rest \<noteq> [] \<and> hd rest = CHR ''.'') = False" using assms(2) by auto
  have "isdigit d" using dig(1) ds' by simp
  then have dm: "d \<noteq> CHR ''-''" by (auto simp: isdigit_def)
  have b: "binary64 (of_int t) = Some (of_int t)" by (rule binary64_exact [OF assms(1)])
  show ?thesis
  proof (cases "t < 0")
    case True
    then have "- (of_int (digits_val ds) :: rat) = of_int t" by (simp add: dig(3))
    with True b dig(2) show ?thesis
      unfolding from_chars_def ts Let_def by (simp add: sp tw exponent_delim [OF assms(2)] nd del: not_Cons_self2)
  next
    case False
    then have "(of_int (digits_val ds) :: rat) = of_int t" by (simp add: dig(3))
    moreover have "hd (ds @ rest) \<noteq> CHR ''-''" using dm ds' by simp
    ultimately show ?thesis using False b dig(2)
      unfolding from_chars_def ts Let_def by (simp add: sp tw exponent_delim [OF assms(2)] nd)
  qed
qed

section \<open>Values that read back\<close>

definition reads :: "nat \<Rightarrow> string \<Rightarrow> jsonVal \<Rightarrow> bool" where
  "reads N s v \<longleftrightarrow> s \<noteq> [] \<and> \<not> isspace (hd s) \<and> hd s \<noteq> CHR '']'' \<and>
     (\<forall>n \<ge> N. \<forall>rest. delim rest \<longrightarrow> parseValue n (s @ rest) = Some (v, rest))"

lemma reads_mono: "reads N s v \<Longrightarrow> N \<le> M \<Longrightarrow> reads M s v"
  by (simp add: reads_def)

lemma skipWs_id: "s = [] \<or> \<not> isspace (hd s) \<Longrightarrow> skipWs s = s"
  by (cases s) (auto simp: skipWs_def)

lemma delim_nonspace: "delim rest \<Longrightarrow> rest = [] \<or> \<not> isspace (hd rest)"
  by (auto simp: isspace_def)

lemma reads_escapeJson: "reads 1 (escapeJson v) (strVal v)"
  unfolding reads_def
proof (intro conjI allI impI)
  fix n :: nat and rest assume "1 \<le> n" and "delim rest"
  then obtain m where n: "n = Suc m" by (cases n) auto
  have "skipWs (escapeJson v @ rest) = escapeJson v @ rest"
    by (rule skipWs_id) (simp add: escapeJson_def)
  moreover have "hd (escapeJson v) = DQ" "escapeJson v \<noteq> []" by (simp_all add: escapeJson_def)
  ultimately show "parseValue n (escapeJson v @ rest) = Some (strVal v, rest)"
    by (simp add: n Let_def parseStr_escapeJson)
qed (simp_all add: escapeJson_def)

lemma reads_time:
  assumes "exact_time t"
  shows "reads 1 (to_string t) (numVal (Finite (of_int t)))"
proof -
  let ?c = "hd (to_string t)"
  have c: "\<not> isspace ?c" "?c \<noteq> CHR '']''" "?c \<noteq> DQ" "?c \<noteq> CHR ''[''" "?c \<noteq> CHR ''{''" "?c \<noteq> CHR ''t''"
    "?c \<noteq> CHR ''f''" "?c \<noteq> CHR ''n''"
    using to_string_head [of t] by (auto simp: isdigit_def isspace_def)
  have "parseValue n (to_string t @ rest) = Some (numVal (Finite (of_int t)), rest)" if "1 \<le> n" "delim rest" for n rest
  proof -
    from that obtain m where n: "n = Suc m" by (cases n) auto
    have "skipWs (to_string t @ rest) = to_string t @ rest" using c(1) by (intro skipWs_id) simp
    moreover have "parseNum (to_string t @ rest) = (numVal (Finite (of_int t)), rest)"
      using from_chars_to_string [OF assms that(2)] by (simp add: parseNum_def)
    ultimately show ?thesis using c by (simp add: n Let_def)
  qed
  with c show ?thesis by (simp add: reads_def)
qed

lemma reads_false: "reads 1 ''false'' (boolVal False)"
  unfolding reads_def
proof (intro conjI allI impI)
  fix n :: nat and rest assume "1 \<le> n"
  then obtain m where n: "n = Suc m" by (cases n) auto
  have "skipWs (''false'' @ rest) = ''false'' @ rest" by (rule skipWs_id) (simp add: isspace_def)
  then show "parseValue n (''false'' @ rest) = Some (boolVal False, rest)" by (simp add: n Let_def)
qed (simp_all add: isspace_def)

section \<open>Lists of items\<close>

fun commaSep :: "string list \<Rightarrow> string" where
  "commaSep [] = []"
| "commaSep (x # xs) = (if xs = [] then x else x @ CHR '','' # commaSep xs)"

lemma foldl_addItem:
  assumes "\<And>x. x \<in> set xs \<Longrightarrow> f x \<noteq> []"
  shows "foldl (\<lambda>out x. addItem out (f x)) [] xs = commaSep (map f xs)"
proof -
  have "foldl (\<lambda>out x. addItem out (f x)) out xs = (if xs = [] then out else out @ CHR '','' # commaSep (map f xs))"
    if "out \<noteq> []" "\<And>x. x \<in> set xs \<Longrightarrow> f x \<noteq> []" for out and xs :: "'a list"
    using that by (induction xs arbitrary: out) (auto simp: addItem_def)
  with assms show ?thesis by (cases xs) (auto simp: addItem_def)
qed

text \<open>The text that follows an item: the closing bracket or a comma and the other items.\<close>

abbreviation items_tail :: "string list \<Rightarrow> string \<Rightarrow> string" where
  "items_tail ss r \<equiv> (if ss = [] then r else CHR '','' # commaSep ss @ r)"

lemma commaSep_tail: "commaSep (s # ss) @ r = s @ items_tail ss r"
  by simp

lemma parseArray_items:
  assumes "list_all2 (reads N) ss vs" and "N + length ss < n"
  shows "parseArray_loop n acc (commaSep ss @ CHR '']'' # rest) = Some (acc @ vs, rest)"
  using assms
proof (induction ss vs arbitrary: n acc rule: list_all2_induct)
  case Nil
  then show ?case by (cases n) auto
next
  case (Cons s ss v vs)
  then obtain m where n: "n = Suc m" by (cases n) auto
  let ?tail = "items_tail ss (CHR '']'' # rest)"
  have s: "s \<noteq> []" "hd s \<noteq> CHR '']''" "parseValue m (s @ ?tail) = Some (v, ?tail)"
    using Cons.hyps(1) Cons.prems n by (auto simp: reads_def)
  have "skipWs ?tail = ?tail" by (rule skipWs_id) (simp add: isspace_def)
  then have "skipComma (skipWs ?tail) = commaSep ss @ CHR '']'' # rest" by (simp add: skipComma_def)
  moreover have "parseArray_loop m (acc @ [v]) (commaSep ss @ CHR '']'' # rest) = Some (acc @ v # vs, rest)"
    using Cons.IH [of m "acc @ [v]"] Cons.prems n by simp
  ultimately show ?case unfolding commaSep_tail n using s by simp
qed

lemma reads_head: "list_all2 (reads N) ss vs \<Longrightarrow> skipWs (commaSep ss @ CHR '']'' # rest) = commaSep ss @ CHR '']'' # rest"
  by (rule skipWs_id) (cases ss; auto simp: reads_def isspace_def list_all2_Cons1)

lemma reads_array:
  assumes "list_all2 (reads N) ss vs"
  shows "reads (N + length ss + 2) (CHR ''['' # commaSep ss @ '']'') (arrVal vs)"
proof -
  have "parseValue n ((CHR ''['' # commaSep ss @ '']'') @ rest) = Some (arrVal vs, rest)"
    if "N + length ss + 2 \<le> n" for n rest
  proof -
    from that obtain m where n: "n = Suc m" "N + length ss < m" by (cases n) auto
    have "skipWs (CHR ''['' # commaSep ss @ CHR '']'' # rest) = CHR ''['' # commaSep ss @ CHR '']'' # rest"
      by (rule skipWs_id) (simp add: isspace_def)
    with parseArray_items [OF assms n(2), of "[]" rest] reads_head [OF assms, of rest]
    show ?thesis by (simp add: n(1) Let_def)
  qed
  then show ?thesis by (simp add: reads_def isspace_def)
qed

section \<open>Objects\<close>

definition jsonEntry :: "string \<times> string \<times> jsonVal \<Rightarrow> string" where
  "jsonEntry e = (case e of (k, s, _) \<Rightarrow> escapeJson k @ CHR '':'' # s)"

definition upserts :: "(string \<times> jsonVal) list \<Rightarrow> (string \<times> jsonVal) list \<Rightarrow> (string \<times> jsonVal) list" where
  "upserts kvs m = fold (\<lambda>(k, v). map_upsert k v (\<lambda>_. v)) kvs m"

lemma parseObject_items:
  assumes "\<And>k s v. (k, s, v) \<in> set es \<Longrightarrow> reads N s v" and "N + length es < n"
  shows "parseObject_loop n m (commaSep (map jsonEntry es) @ CHR ''}'' # rest) =
    Some (upserts (map (\<lambda>(k, s, v). (k, v)) es) m, rest)"
  using assms
proof (induction es arbitrary: n m)
  case Nil
  then show ?case by (cases n) (auto simp: upserts_def)
next
  case (Cons e es)
  obtain k s v where e: "e = (k, s, v)" by (cases e)
  from Cons.prems obtain n' where n: "n = Suc n'" by (cases n) auto
  let ?tail = "items_tail (map jsonEntry es) (CHR ''}'' # rest)"
  have "delim ?tail" by simp
  then have v: "parseValue n' (s @ ?tail) = Some (v, ?tail)"
    using Cons.prems(1) [of k s v] Cons.prems(2) n by (simp add: e reads_def)
  have "skipWs ?tail = ?tail" by (rule skipWs_id) (simp add: isspace_def)
  then have tail: "skipWs (skipComma (skipWs ?tail)) = commaSep (map jsonEntry es) @ CHR ''}'' # rest"
    by (cases es) (auto simp: skipComma_def jsonEntry_def escapeJson_def isspace_def intro!: skipWs_id)
  have c: "skipWs (CHR '':'' # s @ ?tail) = CHR '':'' # s @ ?tail" by (rule skipWs_id) (simp add: isspace_def)
  have k: "parseStr (jsonEntry e @ ?tail) = (k, CHR '':'' # s @ ?tail)"
    by (simp only: e jsonEntry_def prod.case append_assoc append_Cons parseStr_escapeJson)
  have IH: "parseObject_loop n' (map_upsert k v (\<lambda>_. v) m) (commaSep (map jsonEntry es) @ CHR ''}'' # rest) =
    Some (upserts (map (\<lambda>(k, s, v). (k, v)) es) (map_upsert k v (\<lambda>_. v) m), rest)"
    using Cons.IH [of n'] Cons.prems n by (metis Suc_less_eq add_Suc_right length_Cons list.set_intros(2))
  have h: "jsonEntry e \<noteq> []" "hd (jsonEntry e) \<noteq> CHR ''}''" by (simp_all add: e jsonEntry_def escapeJson_def)
  have "commaSep (map jsonEntry (e # es)) @ CHR ''}'' # rest = jsonEntry e @ ?tail" by simp
  then have "parseObject_loop n m (commaSep (map jsonEntry (e # es)) @ CHR ''}'' # rest) =
    Some (upserts (map (\<lambda>(k, s, v). (k, v)) es) (map_upsert k v (\<lambda>_. v) m), rest)"
    unfolding n parseObject_loop.simps(2) using h by (simp only: k prod.case c list.sel(3) v option.case tail IH) simp
  then show ?case by (simp add: upserts_def e)
qed

lemma reads_object:
  assumes "\<And>k s v. (k, s, v) \<in> set es \<Longrightarrow> reads N s v"
  shows "reads (N + length es + 2) (CHR ''{'' # commaSep (map jsonEntry es) @ ''}'')
    (objVal (upserts (map (\<lambda>(k, s, v). (k, v)) es) []))"
proof -
  have "parseValue n ((CHR ''{'' # commaSep (map jsonEntry es) @ ''}'') @ rest) =
      Some (objVal (upserts (map (\<lambda>(k, s, v). (k, v)) es) []), rest)"
    if "N + length es + 2 \<le> n" for n rest
  proof -
    from that obtain m where n: "n = Suc m" "N + length es < m" by (cases n) auto
    have "skipWs (CHR ''{'' # commaSep (map jsonEntry es) @ CHR ''}'' # rest) = CHR ''{'' # commaSep (map jsonEntry es) @ CHR ''}'' # rest"
      by (rule skipWs_id) (simp add: isspace_def)
    moreover have "skipWs (commaSep (map jsonEntry es) @ CHR ''}'' # rest) = commaSep (map jsonEntry es) @ CHR ''}'' # rest"
      by (rule skipWs_id) (cases es; auto simp: jsonEntry_def escapeJson_def isspace_def)
    moreover have "parseObject_loop m [] (commaSep (map jsonEntry es) @ CHR ''}'' # rest) =
      Some (upserts (map (\<lambda>(k, s, v). (k, v)) es) [], rest)"
      by (rule parseObject_items [OF _ n(2)]) (rule assms)
    ultimately show ?thesis by (simp add: n(1) Let_def)
  qed
  then show ?thesis by (simp add: reads_def isspace_def)
qed

section \<open>Readable texts, whatever the fuel\<close>

definition readable :: "string \<Rightarrow> jsonVal \<Rightarrow> bool" where
  "readable s v \<longleftrightarrow> (\<exists>N. reads N s v)"

lemma readable_atoms [simp]:
  "readable (escapeJson v) (strVal v)" "readable ''false'' (boolVal False)"
  "exact_time t \<Longrightarrow> readable (to_string t) (numVal (Finite (of_int t)))"
  unfolding readable_def using reads_escapeJson reads_false reads_time by blast+

lemma readable_bound:
  "(\<And>x. x \<in> set xs \<Longrightarrow> readable (f x) (g x)) \<Longrightarrow> \<exists>N. \<forall>x \<in> set xs. reads N (f x) (g x)"
proof (induction xs)
  case (Cons x xs)
  then obtain N M where "\<forall>x \<in> set xs. reads N (f x) (g x)" "reads M (f x) (g x)"
    by (force simp: readable_def)
  then have "\<forall>y \<in> set (x # xs). reads (max N M) (f y) (g y)" by (auto intro: reads_mono)
  then show ?case by blast
qed simp

lemma readable_array:
  assumes "\<And>x. x \<in> set xs \<Longrightarrow> readable (f x) (g x)"
  shows "readable (jsonArray f xs) (arrVal (map g xs))"
proof -
  obtain N where N: "\<forall>x \<in> set xs. reads N (f x) (g x)" using readable_bound [of xs f g] assms by blast
  then have "f x \<noteq> []" if "x \<in> set xs" for x using that by (simp add: reads_def)
  then have "jsonArray f xs = CHR ''['' # commaSep (map f xs) @ '']''" by (simp add: jsonArray_def foldl_addItem)
  moreover have "list_all2 (reads N) (map f xs) (map g xs)" using N by (simp add: list_all2_conv_all_nth)
  ultimately show ?thesis unfolding readable_def using reads_array by fastforce
qed

lemma readable_object:
  assumes "\<And>k s v. (k, s, v) \<in> set es \<Longrightarrow> readable s v"
  shows "readable (CHR ''{'' # commaSep (map jsonEntry es) @ ''}'') (objVal (upserts (map (\<lambda>(k, s, v). (k, v)) es) []))"
proof -
  obtain N where N: "\<forall>x \<in> set es. reads N (fst (snd x)) (snd (snd x))"
    using readable_bound [of es "\<lambda>x. fst (snd x)" "\<lambda>x. snd (snd x)"] assms by fastforce
  then have "reads N s v" if "(k, s, v) \<in> set es" for k s v using that by force
  then show ?thesis unfolding readable_def using reads_object by blast
qed

lemma map_find_upserts:
  "map_ok m \<Longrightarrow> map_find k (upserts kvs m) = (case map_of (rev kvs) k of None \<Rightarrow> map_find k m | Some v \<Rightarrow> Some v)"
proof (induction kvs arbitrary: m)
  case (Cons kv kvs)
  obtain a v where kv: "kv = (a, v)" by fastforce
  have "map_find k (upserts (kv # kvs) m) = map_find k (upserts kvs (map_upsert a v (\<lambda>_. v) m))"
    by (simp add: upserts_def kv)
  also have "\<dots> = (case map_of (rev kvs) k of None \<Rightarrow> map_find k (map_upsert a v (\<lambda>_. v) m) | Some v \<Rightarrow> Some v)"
    by (rule Cons.IH) (rule map_ok_upsert [OF Cons.prems])
  finally show ?case using Cons.prems
    by (simp add: kv map_find_upsert map_add_def split: option.split)
qed (simp add: upserts_def)

lemma json_at_objVal:
  "json_at (objVal (upserts kvs [])) k = (case map_of (rev kvs) k of None \<Rightarrow> nullVal | Some v \<Rightarrow> v)"
  by (simp add: json_at_def objVal_def map_find_upserts map_ok_def split: option.split)

lemma map_upsert_last: "\<forall>a \<in> fst ` set m. a < k \<Longrightarrow> map_upsert k d f m = m @ [(k, f d)]"
  by (induction m) (auto simp: order.strict_implies_not_eq dest: order.asym)

lemma upserts_sorted: "map_ok (m @ kvs) \<Longrightarrow> upserts kvs m = m @ kvs"
proof (induction kvs arbitrary: m)
  case (Cons kv kvs)
  obtain a v where kv: "kv = (a, v)" by fastforce
  have "map_upsert a v (\<lambda>_. v) m = m @ [(a, v)]"
    using Cons.prems by (intro map_upsert_last) (auto simp: map_ok_def kv sorted_wrt_append)
  moreover have "upserts kvs (m @ [kv]) = m @ kv # kvs" using Cons by simp
  ultimately show ?case by (simp add: upserts_def kv)
qed (simp add: upserts_def)

section \<open>Each class reads back\<close>

definition restores :: "('a \<Rightarrow> string) \<Rightarrow> (jsonVal \<Rightarrow> exn + 'b) \<Rightarrow> 'a \<Rightarrow> 'b \<Rightarrow> bool" where
  "restores f fr x y \<longleftrightarrow> (\<exists>v. readable (f x) v \<and> fr v = Inr y)"

lemma restores_array:
  assumes "\<And>x. x \<in> set xs \<Longrightarrow> restores f fr x (h x)"
  shows "\<exists>vs. readable (jsonArray f xs) (arrVal vs) \<and> map_exn fr vs = Inr (map h xs)"
proof -
  obtain g where g: "\<And>x. x \<in> set xs \<Longrightarrow> readable (f x) (g x) \<and> fr (g x) = Inr (h x)"
    using assms unfolding restores_def by metis
  then have "map_exn fr (map g xs) = Inr (map h xs)" by (induction xs) (auto simp: bind_exn_def)
  moreover have "readable (jsonArray f xs) (arrVal (map g xs))" using g by (intro readable_array) auto
  ultimately show ?thesis by blast
qed

lemma restores_object:
  assumes "f x = CHR ''{'' # commaSep (map jsonEntry es) @ ''}''"
    and "\<And>k s v. (k, s, v) \<in> set es \<Longrightarrow> readable s v"
    and "fr (objVal (upserts (map (\<lambda>(k, s, v). (k, v)) es) [])) = Inr y"
  shows "restores f fr x y"
  using readable_object [of es] assms by (auto simp: restores_def)

lemma val_fields [simp]:
  "j_sVal (strVal s) = s" "j_nVal (numVal x) = x" "j_arrVal (arrVal vs) = vs" "j_objVal (objVal m) = m"
  by (simp_all add: strVal_def numVal_def arrVal_def objVal_def)

lemma to_time_exact: "exact_time t \<Longrightarrow> to_time (Finite (of_int t)) = Inr t"
  by (auto simp: to_time_def exact_time_def Let_def)

text \<open>A written object is its entries.\<close>

lemmas written = jsonField_def jsonEntry_def escapeJson_def [of "''sender''"] escapeJson_def [of "''receiver''"]
  escapeJson_def [of "''timestamp''"] escapeJson_def [of "''body''"] escapeJson_def [of "''uuid''"]
  escapeJson_def [of "''user_uuid''"] escapeJson_def [of "''title''"] escapeJson_def [of "''replies''"]
  escapeJson_def [of "''name''"] escapeJson_def [of "''description''"] escapeJson_def [of "''threads''"]
  escapeJson_def [of "''subscribers''"] escapeJson_def [of "''channels''"] escapeJson_def [of "''connected''"]
  escapeJson_def [of "''teams''"] escapeJson_def [of "''messages''"] escapeJson_def [of "''users''"]

lemma restores_message:
  "exact_time (msg_timestamp m) \<Longrightarrow> restores messageToJson messageFromJson m m"
  by (rule restores_object [where es =
        "[(''sender'', escapeJson (msg_senderUuid m), strVal (msg_senderUuid m)),
          (''receiver'', escapeJson (msg_receiverUuid m), strVal (msg_receiverUuid m)),
          (''timestamp'', to_string (msg_timestamp m), numVal (Finite (of_int (msg_timestamp m)))),
          (''body'', escapeJson (msg_body m), strVal (msg_body m))]"])
     (auto simp: messageToJson_def written messageFromJson_def json_at_objVal to_time_exact bind_exn_def)

lemma restores_reply:
  "exact_time (rep_timestamp r) \<Longrightarrow> restores replyToJson replyFromJson r r"
  by (rule restores_object [where es =
        "[(''uuid'', escapeJson (rep_uuid r), strVal (rep_uuid r)),
          (''user_uuid'', escapeJson (rep_userUuid r), strVal (rep_userUuid r)),
          (''timestamp'', to_string (rep_timestamp r), numVal (Finite (of_int (rep_timestamp r)))),
          (''body'', escapeJson (rep_body r), strVal (rep_body r))]"])
     (auto simp: replyToJson_def written replyFromJson_def json_at_objVal to_time_exact bind_exn_def)

definition thread_exact :: "thread \<Rightarrow> bool" where
  "thread_exact th \<longleftrightarrow> exact_time (thr_timestamp th) \<and> list_all (\<lambda>r. exact_time (rep_timestamp r)) (thr_replies th)"

lemma restores_thread:
  assumes "thread_exact t"
  shows "restores threadToJson threadFromJson t t"
proof -
  obtain vs where vs: "readable (jsonArray replyToJson (thr_replies t)) (arrVal vs)"
    "map_exn replyFromJson vs = Inr (thr_replies t)"
    using restores_array [of "thr_replies t" replyToJson replyFromJson "\<lambda>r. r"] restores_reply assms
    by (auto simp: thread_exact_def list_all_iff)
  have "exact_time (thr_timestamp t)" using assms by (simp add: thread_exact_def)
  with vs show ?thesis
    by (intro restores_object [where es =
        "[(''uuid'', escapeJson (thr_uuid t), strVal (thr_uuid t)),
          (''user_uuid'', escapeJson (thr_userUuid t), strVal (thr_userUuid t)),
          (''timestamp'', to_string (thr_timestamp t), numVal (Finite (of_int (thr_timestamp t)))),
          (''title'', escapeJson (thr_title t), strVal (thr_title t)),
          (''body'', escapeJson (thr_body t), strVal (thr_body t)),
          (''replies'', jsonArray replyToJson (thr_replies t), arrVal vs)]"])
       (auto simp: threadToJson_def written threadFromJson_def json_at_objVal to_time_exact bind_exn_def)
qed

lemma restores_channel:
  assumes "list_all thread_exact (chn_threads c)"
  shows "restores channelToJson channelFromJson c c"
proof -
  obtain vs where "readable (jsonArray threadToJson (chn_threads c)) (arrVal vs)"
    "map_exn threadFromJson vs = Inr (chn_threads c)"
    using restores_array [of "chn_threads c" threadToJson threadFromJson "\<lambda>t. t"] restores_thread assms
    by (auto simp: list_all_iff)
  then show ?thesis
    by (intro restores_object [where es =
        "[(''uuid'', escapeJson (chn_uuid c), strVal (chn_uuid c)),
          (''name'', escapeJson (chn_name c), strVal (chn_name c)),
          (''description'', escapeJson (chn_description c), strVal (chn_description c)),
          (''threads'', jsonArray threadToJson (chn_threads c), arrVal vs)]"])
       (auto simp: channelToJson_def written channelFromJson_def json_at_objVal bind_exn_def)
qed

lemma readable_strings: "readable (jsonArray escapeJson ss) (arrVal (map strVal ss))"
  by (rule readable_array) simp

definition team_exact :: "team \<Rightarrow> bool" where
  "team_exact t \<longleftrightarrow> list_all (\<lambda>c. list_all thread_exact (chn_threads c)) (team_channels t)"

lemma restores_team:
  assumes "team_exact t"
  shows "restores teamToJson teamFromJson t t"
proof -
  obtain vs where "readable (jsonArray channelToJson (team_channels t)) (arrVal vs)"
    "map_exn channelFromJson vs = Inr (team_channels t)"
    using restores_array [of "team_channels t" channelToJson channelFromJson "\<lambda>c. c"] restores_channel assms
    by (auto simp: list_all_iff team_exact_def)
  then show ?thesis
    by (intro restores_object [where es =
        "[(''uuid'', escapeJson (team_uuid t), strVal (team_uuid t)),
          (''name'', escapeJson (team_name t), strVal (team_name t)),
          (''description'', escapeJson (team_description t), strVal (team_description t)),
          (''subscribers'', jsonArray escapeJson (team_subscriberUuids t), arrVal (map strVal (team_subscriberUuids t))),
          (''channels'', jsonArray channelToJson (team_channels t), arrVal vs)]"])
       (auto simp: teamToJson_def written teamFromJson_def json_at_objVal bind_exn_def readable_strings comp_def)
qed

definition user_exact :: "user \<Rightarrow> bool" where
  "user_exact u \<longleftrightarrow> map_ok (usr_messages u) \<and>
     list_all (\<lambda>(k, ms). list_all (\<lambda>m. exact_time (msg_timestamp m)) ms) (usr_messages u)"

lemma messagesFromJson_upserts:
  "(\<And>k v. (k, v) \<in> set kvs \<Longrightarrow> map_exn messageFromJson (j_arrVal v) = Inr (g k)) \<Longrightarrow> map_ok (m @ map (\<lambda>(k, v). (k, g k)) kvs) \<Longrightarrow>
   messagesFromJson m kvs = Inr (m @ map (\<lambda>(k, v). (k, g k)) kvs)"
proof (induction kvs arbitrary: m)
  case (Cons kv kvs)
  obtain k v where kv: "kv = (k, v)" by fastforce
  have "map_upsert k (g k) (\<lambda>_. g k) m = m @ [(k, g k)]"
    using Cons.prems(2) by (intro map_upsert_last) (auto simp: map_ok_def kv sorted_wrt_append)
  moreover have "messagesFromJson (m @ [(k, g k)]) kvs = Inr (m @ (k, g k) # map (\<lambda>(k, v). (k, g k)) kvs)"
    using Cons.IH [of "m @ [(k, g k)]"] Cons.prems by (simp add: kv)
  ultimately show ?case using Cons.prems(1) [of k v] by (simp add: kv bind_exn_def)
qed simp

lemma restores_messages:
  assumes "user_exact u"
  shows "\<exists>kvs. readable (jsonMapOfArrays messageToJson (usr_messages u)) (objVal kvs) \<and>
    messagesFromJson [] kvs = Inr (usr_messages u)"
proof -
  define ms where "ms = usr_messages u"
  have ok: "map_ok ms" using assms by (simp add: user_exact_def ms_def)
  then have d: "distinct (map fst ms)" by (simp add: map_ok_def strict_sorted_iff)
  have "\<exists>vs. readable (jsonArray messageToJson (snd x)) (arrVal vs) \<and> map_exn messageFromJson vs = Inr (snd x)"
    if "x \<in> set ms" for x
    using restores_array [of "snd x" messageToJson messageFromJson "\<lambda>m. m"] restores_message assms that
    by (fastforce simp: user_exact_def list_all_iff ms_def)
  then obtain vs where vs: "\<And>x. x \<in> set ms \<Longrightarrow> readable (jsonArray messageToJson (snd x)) (arrVal (vs x)) \<and>
      map_exn messageFromJson (vs x) = Inr (snd x)" by metis
  define es where "es = map (\<lambda>x. (fst x, jsonArray messageToJson (snd x), arrVal (vs x))) ms"
  define kvs where "kvs = map (\<lambda>x. (fst x, arrVal (vs x))) ms"
  have "jsonMapOfArrays messageToJson ms = CHR ''{'' # commaSep (map jsonEntry es) @ ''}''"
    using foldl_addItem [of ms "\<lambda>(k, v). escapeJson k @ CHR '':'' # jsonArray messageToJson v"]
    by (auto simp: jsonMapOfArrays_def es_def jsonEntry_def comp_def case_prod_unfold)
  moreover have "map (\<lambda>(k, s, v). (k, v)) es = kvs" by (simp add: es_def kvs_def)
  moreover have "upserts kvs [] = kvs" using ok upserts_sorted [of "[]" kvs] by (simp add: map_ok_def kvs_def comp_def)
  moreover have "readable s v" if "(k, s, v) \<in> set es" for k s v using that vs by (auto simp: es_def)
  ultimately have r: "readable (jsonMapOfArrays messageToJson ms) (objVal kvs)" using readable_object [of es] by simp
  have again: "map (\<lambda>(k, v). (k, the (map_of ms k))) kvs = ms"
    using d by (auto simp: kvs_def intro!: map_idI)
  have "map_exn messageFromJson (j_arrVal v) = Inr (the (map_of ms k))" if "(k, v) \<in> set kvs" for k v
    using that vs d by (auto simp: kvs_def)
  then have "messagesFromJson [] kvs = Inr ms"
    using messagesFromJson_upserts [of kvs "\<lambda>k. the (map_of ms k)" "[]"] ok by (simp add: again)
  with r show ?thesis unfolding ms_def by blast
qed

lemma restores_user:
  assumes "user_exact u"
  shows "restores userToJson userFromJson u (setConnectionCount 0 u)"
proof -
  obtain kvs where "readable (jsonMapOfArrays messageToJson (usr_messages u)) (objVal kvs)"
    "messagesFromJson [] kvs = Inr (usr_messages u)" using restores_messages [OF assms] by blast
  then show ?thesis
    by (intro restores_object [where es =
        "[(''uuid'', escapeJson (usr_uuid u), strVal (usr_uuid u)),
          (''name'', escapeJson (usr_name u), strVal (usr_name u)),
          (''connected'', ''false'', boolVal False),
          (''teams'', jsonArray escapeJson (usr_teams u), arrVal (map strVal (usr_teams u))),
          (''messages'', jsonMapOfArrays messageToJson (usr_messages u), objVal kvs)]"])
       (auto simp: userToJson_def written userFromJson_def json_at_objVal bind_exn_def readable_strings comp_def
          setConnectionCount_def)
qed

section \<open>The save file\<close>

definition savable :: "database \<Rightarrow> bool" where
  "savable db \<longleftrightarrow> list_all user_exact (db_users db) \<and> list_all team_exact (db_teams db)"

lemma save_reads:
  assumes "savable db"
  shows "\<exists>v. readable (SaveManager_save db) v \<and>
    map_exn userFromJson (j_arrVal (json_at v ''users'')) = Inr (map (setConnectionCount 0) (db_users db)) \<and>
    map_exn teamFromJson (j_arrVal (json_at v ''teams'')) = Inr (db_teams db)"
proof -
  obtain us where us: "readable (jsonArray userToJson (db_users db)) (arrVal us)"
    "map_exn userFromJson us = Inr (map (setConnectionCount 0) (db_users db))"
    using restores_array [of "db_users db" userToJson userFromJson "setConnectionCount 0"] restores_user assms
    by (auto simp: list_all_iff savable_def)
  obtain ts where ts: "readable (jsonArray teamToJson (db_teams db)) (arrVal ts)"
    "map_exn teamFromJson ts = Inr (db_teams db)"
    using restores_array [of "db_teams db" teamToJson teamFromJson "\<lambda>t. t"] restores_team assms
    by (auto simp: list_all_iff savable_def)
  define es where "es = [(''users'', jsonArray userToJson (db_users db), arrVal us), (''teams'', jsonArray teamToJson (db_teams db), arrVal ts)]"
  have "SaveManager_save db = CHR ''{'' # commaSep (map jsonEntry es) @ ''}''"
    by (simp add: SaveManager_save_def es_def written jsonArray_def Let_def)
  moreover have "readable s v" if "(k, s, v) \<in> set es" for k s v using that us ts by (auto simp: es_def)
  ultimately have "readable (SaveManager_save db) (objVal (upserts (map (\<lambda>(k, s, v). (k, v)) es) []))"
    using readable_object [of es] by simp
  moreover have "json_at (objVal (upserts (map (\<lambda>(k, s, v). (k, v)) es) [])) ''users'' = arrVal us"
    "json_at (objVal (upserts (map (\<lambda>(k, s, v). (k, v)) es) [])) ''teams'' = arrVal ts"
    by (simp_all add: json_at_objVal es_def)
  ultimately show ?thesis using us(2) ts(2) by (intro exI conjI) auto
qed

lemma load_teams: "fold (\<lambda>t. modifyDb (pushTeam t)) ts s = modifyDb (\<lambda>db. db\<lparr>db_teams := db_teams db @ ts\<rparr>) s"
  by (induction ts arbitrary: s) (simp_all add: modifyDb_def pushTeam_def)

definition user_loaded :: "user \<Rightarrow> log_event" where
  "user_loaded u = server_event_user_loaded (c_str (usr_uuid u)) (c_str (usr_name u))"

lemma load_users:
  "fold loadUser us s = s\<lparr>srv_db := (srv_db s)\<lparr>db_users := db_users (srv_db s) @ us\<rparr>, srv_log := srv_log s @ map user_loaded us\<rparr>"
  by (induction us arbitrary: s) (simp_all add: loadUser_def logEvent_def modifyDb_def pushUser_def user_loaded_def)

lemma load_reads:
  assumes "reads N content v" and "N \<le> n"
    and "map_exn userFromJson (j_arrVal (json_at v ''users'')) = Inr (map (setConnectionCount 0) us)"
    and "map_exn teamFromJson (j_arrVal (json_at v ''teams'')) = Inr ts"
  shows "SaveManager_load n (Some content) s =
    Some (Inr (s\<lparr>srv_db := \<lparr>db_users = db_users (srv_db s) @ map (setConnectionCount 0) us, db_teams = db_teams (srv_db s) @ ts\<rparr>,
      srv_log := srv_log s @ map user_loaded us\<rparr>))"
proof -
  have "parseValue n content = Some (v, [])"
    using assms(1,2) by (auto simp: reads_def dest: spec [where x = "[]"])
  moreover have "map user_loaded (map (setConnectionCount 0) us) = map user_loaded us"
    by (simp add: user_loaded_def setConnectionCount_def)
  ultimately show ?thesis
    using assms(3,4) by (simp add: SaveManager_load_def json_parse_def bind_exn_def load_users load_teams modifyDb_def)
qed

text \<open>C10. Persistence round trip: what \<open>SaveManager::load\<close> reads from the file \<open>SaveManager::save\<close> wrote is the
  saved database, with every counter of connections at zero, appended to the tables the server has, and one
  \<open>user_loaded\<close> event per user. The parser returns: some amount of fuel suffices. The timestamps have to be
  integers a \<open>double\<close> holds exactly, which every clock value below 2^53 is.\<close>

theorem SaveManager_roundtrip:
  assumes "savable db"
  shows "\<exists>N. \<forall>n \<ge> N. SaveManager_load n (Some (SaveManager_save db)) s =
    Some (Inr (s\<lparr>srv_db := \<lparr>db_users = db_users (srv_db s) @ map (setConnectionCount 0) (db_users db),
                           db_teams = db_teams (srv_db s) @ db_teams db\<rparr>,
                srv_log := srv_log s @ map user_loaded (db_users db)\<rparr>))"
proof -
  obtain v N where "reads N (SaveManager_save db) v"
    and v: "map_exn userFromJson (j_arrVal (json_at v ''users'')) = Inr (map (setConnectionCount 0) (db_users db))"
      "map_exn teamFromJson (j_arrVal (json_at v ''teams'')) = Inr (db_teams db)"
    using save_reads [OF assms] by (auto simp: readable_def)
  then show ?thesis using load_reads [OF _ _ v] by blast
qed

theorem SaveManager_roundtrip_witness:
  "savable demo_db \<and> (\<exists>n. SaveManager_load n (Some (SaveManager_save demo_db)) (demo_idle\<lparr>srv_db := emptyDb\<rparr>) =
    Some (Inr (demo_idle\<lparr>srv_log := map user_loaded (db_users demo_db)\<rparr>)))"
proof -
  have ok: "savable demo_db" by code_simp
  have "map (setConnectionCount 0) (db_users demo_db) = db_users (srv_db demo_idle)" by code_simp
  moreover have "db_teams demo_db = db_teams (srv_db demo_idle)" by (simp add: demo_idle_def)
  moreover have "srv_log demo_idle = []" by (simp add: demo_idle_def)
  moreover obtain N where "SaveManager_load N (Some (SaveManager_save demo_db)) (demo_idle\<lparr>srv_db := emptyDb\<rparr>) =
      Some (Inr (demo_idle\<lparr>srv_db := \<lparr>db_users = map (setConnectionCount 0) (db_users demo_db), db_teams = db_teams demo_db\<rparr>,
        srv_log := srv_log demo_idle @ map user_loaded (db_users demo_db)\<rparr>))"
    using SaveManager_roundtrip [OF ok, of "demo_idle\<lparr>srv_db := emptyDb\<rparr>"] by (auto simp: emptyDb_def)
  ultimately show ?thesis using ok by (intro conjI exI [of _ N]) simp_all
qed

section \<open>Arrays the parser never leaves\<close>

text \<open>More fuel does not change what the parser returns.\<close>

lemma parse_more:
  "(\<forall>s x. parseValue n s = Some x \<longrightarrow> parseValue (Suc n) s = Some x) \<and>
   (\<forall>vs s x. parseArray_loop n vs s = Some x \<longrightarrow> parseArray_loop (Suc n) vs s = Some x) \<and>
   (\<forall>m s x. parseObject_loop n m s = Some x \<longrightarrow> parseObject_loop (Suc n) m s = Some x)"
proof (induction n)
  case (Suc n)
  show ?case
  proof (intro conjI allI impI)
    show "parseValue (Suc (Suc n)) s = Some x" if "parseValue (Suc n) s = Some x" for s x
    proof -
      have "parseArray_loop n [] r = Some y \<Longrightarrow> parseArray_loop (Suc n) [] r = Some y"
        "parseObject_loop n [] r = Some z \<Longrightarrow> parseObject_loop (Suc n) [] r = Some z" for r y z using Suc by blast+
      with that show ?thesis
        by (auto simp: Let_def split: if_splits option.splits simp del: parseArray_loop.simps parseObject_loop.simps)
    qed
    show "parseArray_loop (Suc (Suc n)) vs s = Some x" if a: "parseArray_loop (Suc n) vs s = Some x" for vs s x
    proof (cases "s = [] \<or> hd s = CHR '']''")
      case False
      with a obtain v r where "parseValue n s = Some (v, r)" "parseArray_loop n (vs @ [v]) (skipComma (skipWs r)) = Some x"
        by (auto split: option.splits)
      with Suc have "parseValue (Suc n) s = Some (v, r)" "parseArray_loop (Suc n) (vs @ [v]) (skipComma (skipWs r)) = Some x" by blast+
      then show ?thesis using False by (subst parseArray_loop.simps(2)) (simp del: parseValue.simps parseArray_loop.simps)
    qed (use a in simp)
    show "parseObject_loop (Suc (Suc n)) m s = Some x" if a: "parseObject_loop (Suc n) m s = Some x" for m s x
    proof (cases "s = [] \<or> hd s = CHR ''}''")
      case False
      obtain k r where k: "parseStr s = (k, r)" by fastforce
      with a False obtain v r' where "parseValue n (tl (skipWs r)) = Some (v, r')"
        "parseObject_loop n (map_upsert k v (\<lambda>_. v) m) (skipWs (skipComma (skipWs r'))) = Some x"
        by (auto split: option.splits)
      with Suc have "parseValue (Suc n) (tl (skipWs r)) = Some (v, r')"
        "parseObject_loop (Suc n) (map_upsert k v (\<lambda>_. v) m) (skipWs (skipComma (skipWs r'))) = Some x" by blast+
      then show ?thesis using False k by (subst parseObject_loop.simps(2)) (simp del: parseValue.simps parseObject_loop.simps)
    qed (use a in simp)
  qed
qed simp

lemma parseValue_agree:
  assumes "parseValue n s = Some x" and "parseValue m s = Some y"
  shows "x = y"
proof -
  have up: "parseValue (n + k) s = Some x" if "parseValue n s = Some x" for n k x
  proof (induction k)
    case (Suc k)
    with parse_more [of "n + k"] show ?case unfolding add_Suc_right by blast
  qed (use that in simp)
  from up [OF assms(1), of m] up [OF assms(2), of n] show ?thesis by (simp add: add.commute)
qed

text \<open>
  The calls of the parser on a text: \<open>parseValue\<close> there, or an iteration of the loop of \<open>parseArray\<close> or
  \<open>parseObject\<close> there. An iteration makes a call for its value and, once that has returned, goes on behind it.
\<close>

datatype parse_call = Value string | Elements string | Members string

inductive calls :: "parse_call \<Rightarrow> parse_call \<Rightarrow> bool" where
  array: "skipWs s = CHR ''['' # r \<Longrightarrow> calls (Value s) (Elements (skipWs r))"
| object: "skipWs s = CHR ''{'' # r \<Longrightarrow> calls (Value s) (Members (skipWs r))"
| element: "s \<noteq> [] \<Longrightarrow> hd s \<noteq> CHR '']'' \<Longrightarrow> calls (Elements s) (Value s)"
| next_element: "s \<noteq> [] \<Longrightarrow> hd s \<noteq> CHR '']'' \<Longrightarrow> parseValue n s = Some (v, r) \<Longrightarrow>
    calls (Elements s) (Elements (skipComma (skipWs r)))"
| member: "s \<noteq> [] \<Longrightarrow> hd s \<noteq> CHR ''}'' \<Longrightarrow> parseStr s = (k, r) \<Longrightarrow> calls (Members s) (Value (tl (skipWs r)))"
| next_member: "s \<noteq> [] \<Longrightarrow> hd s \<noteq> CHR ''}'' \<Longrightarrow> parseStr s = (k, r) \<Longrightarrow> parseValue n (tl (skipWs r)) = Some (v, r') \<Longrightarrow>
    calls (Members s) (Members (skipWs (skipComma (skipWs r'))))"

fun returns :: "nat \<Rightarrow> parse_call \<Rightarrow> bool" where
  "returns n (Value s) \<longleftrightarrow> parseValue n s \<noteq> None"
| "returns n (Elements s) \<longleftrightarrow> (\<exists>vs. parseArray_loop n vs s \<noteq> None)"
| "returns n (Members s) \<longleftrightarrow> (\<exists>m. parseObject_loop n m s \<noteq> None)"

lemma calls_return:
  assumes "calls p q" and "returns n p"
  shows "returns (n - 1) q"
proof (cases n)
  case 0
  with assms(2) show ?thesis by (cases p) simp_all
next
  case (Suc n')
  from assms(1) show ?thesis
  proof cases
    case (next_element s m v r)
    from assms(2) obtain vs where "parseArray_loop (Suc n') vs s \<noteq> None" by (auto simp: next_element(1) Suc)
    then obtain w q where "parseValue n' s = Some (w, q)" "parseArray_loop n' (vs @ [w]) (skipComma (skipWs q)) \<noteq> None"
      using next_element(3,4) by (auto split: option.splits)
    with parseValue_agree [OF next_element(5) this(1)] show ?thesis unfolding next_element(2) Suc by auto
  next
    case (next_member s k r m v r')
    from assms(2) obtain ms where "parseObject_loop (Suc n') ms s \<noteq> None" by (auto simp: next_member(1) Suc)
    then obtain w q where "parseValue n' (tl (skipWs r)) = Some (w, q)"
      "parseObject_loop n' (map_upsert k w (\<lambda>_. w) ms) (skipWs (skipComma (skipWs q))) \<noteq> None"
      using next_member(3-5) by (auto split: option.splits)
    with parseValue_agree [OF next_member(6) this(1)] show ?thesis unfolding next_member(2) Suc by auto
  qed (use assms(2) Suc in \<open>auto simp: Let_def split: option.splits\<close>)
qed

text \<open>An element the loop of \<open>parseArray\<close> cannot pass: behind blanks, a character that begins no string, array,
  object, word with t, f or n, or number, and is neither a comma nor the closing bracket.\<close>

definition stuck :: "string \<Rightarrow> bool" where
  "stuck s \<longleftrightarrow> (s \<noteq> [] \<and> hd s \<noteq> CHR '']'') \<and> (let t = skipWs s in
     t \<noteq> [] \<and> hd t \<notin> set [DQ, CHR ''['', CHR ''{'', CHR ''t'', CHR ''f'', CHR ''n'', CHR '']'', CHR '','']
     \<and> from_chars t = (0, None))"

lemma parseArray_stuck: "stuck s \<Longrightarrow> parseArray_loop n vs s = None"
proof (induction n arbitrary: vs s)
  case (Suc n)
  let ?t = "skipWs s"
  have t: "?t \<noteq> []" "skipComma ?t = ?t" "parseNum ?t = (numVal (Finite 0), ?t)" "skipWs ?t = ?t"
    using Suc.prems by (auto simp: stuck_def skipComma_def parseNum_def Let_def skipWs_def)
  have "stuck ?t" using Suc.prems by (simp add: stuck_def t Let_def)
  then have "parseArray_loop n vs' ?t = None" for vs' by (rule Suc.IH)
  then show ?case using Suc.prems t by (cases n) (simp_all add: stuck_def Let_def)
qed simp

text \<open>C35. Wherever the parser gets to an array element that begins, behind blanks, with none of the characters
  a value may begin with (nor with a comma or the closing bracket), however deep the array is nested and whatever it has read
  of it before, it never returns: \<open>parseNum\<close> consumes nothing there and \<open>parseArray\<close> pushes zeros for
  ever. Loading such a save file hangs: no amount of fuel is enough.\<close>

theorem json_array_diverges:
  assumes "calls\<^sup>*\<^sup>* (Value file) (Elements s)" and "stuck s"
  shows "SaveManager_load n (Some file) srv = None"
proof -
  have down: "\<exists>m. returns m q" if "calls\<^sup>*\<^sup>* p q" "returns n p" for p q
    using that by (induction rule: rtranclp_induct) (blast intro: calls_return)+
  have "\<not> returns m (Elements s)" for m using parseArray_stuck [OF assms(2)] by simp
  with down [OF assms(1)] have "\<not> returns n (Value file)" by blast
  then have "parseValue n file = None" by (simp only: returns.simps not_not)
  then show ?thesis by (simp add: SaveManager_load_def json_parse_def)
qed

text \<open>A file with the list of users cut off after a first, empty one.\<close>

theorem json_array_diverges_witness:
  "SaveManager_load 1000 (Some (''{'' @ DQ # ''users'' @ DQ # '':[{}, ?]}'')) demo_idle = None"
proof -
  let ?file = "''{'' @ DQ # ''users'' @ DQ # '':[{}, ?]}''" and ?list = "''[{}, ?]}''" and ?m = "DQ # ''users'' @ DQ # '':[{}, ?]}''"
  have a: "skipWs ?file = CHR ''{'' # ?m" "skipWs ?m = ?m" "parseStr ?m = (''users'', CHR '':'' # ?list)"
    "tl (skipWs (CHR '':'' # ?list)) = ?list" "skipWs ?list = CHR ''['' # ''{}, ?]}''" "skipWs ''{}, ?]}'' = ''{}, ?]}''"
    "hd ?m \<noteq> CHR ''}''" "hd ''{}, ?]}'' \<noteq> CHR '']''"
    by code_simp+
  have e: "parseValue 2 ''{}, ?]}'' = Some (objVal [], '', ?]}'')" "skipComma (skipWs '', ?]}'') = '' ?]}''" "stuck '' ?]}''" by code_simp+
  note go = converse_rtranclp_into_rtranclp [of calls]
  have "calls\<^sup>*\<^sup>* (Value ?file) (Elements '' ?]}'')"
    using calls.object [OF a(1)] calls.member [OF _ a(7,3)] calls.array [OF a(5)] calls.next_element [OF _ a(8) e(1)]
    by (simp only: a e) (blast intro: go)
  from json_array_diverges [OF this e(3), of 1000 demo_idle] show ?thesis .
qed

end
