(* ===== verification/Server_Main.thy ===== *)
theory Server_Main
  imports Loop_Inv Json_Roundtrip
begin

text \<open>
  The life of the server: \<open>Server::init\<close> (the listening socket and the save file), \<open>Server::run\<close> with
  the save at its end (\<open>src/server/server.cpp\<close>), and \<open>main\<close> (\<open>src/server/main.cpp\<close>). The kernel's
  answers and the content of the save file are arguments; \<open>None\<close> is a call that has not returned.
\<close>

record init_answers =
  ia_socket :: "int sys"
  ia_reuse :: "unit sys"
  ia_v6only :: "unit sys"
  ia_getfl :: "32 word sys"
  ia_setfl :: "32 word \<Rightarrow> unit sys"
  ia_bind :: "unit sys"
  ia_listen :: "unit sys"

definition newServer :: server where
  "newServer = \<lparr>srv_fd = -1, srv_clients = [], srv_db = emptyDb, srv_log = []\<rparr>"

definition openListener :: "init_answers \<Rightarrow> exn + int" where
  "openListener a =
     bind_exn (Posix_socket (ia_socket a)) (\<lambda>fd.
     bind_exn (Posix_setsockopt (ia_reuse a)) (\<lambda>_.
     bind_exn (Posix_setsockopt (ia_v6only a)) (\<lambda>_.
     bind_exn (Posix_setNonBlocking (ia_getfl a) (ia_setfl a)) (\<lambda>_.
     bind_exn (Posix_bind (ia_bind a)) (\<lambda>_.
     bind_exn (Posix_listen (ia_listen a)) (\<lambda>_. Inr fd))))))"

definition Server_init :: "nat \<Rightarrow> init_answers \<Rightarrow> string option \<Rightarrow> server \<Rightarrow> (exn + server) option" where
  "Server_init n a file s =
     (case openListener a of
        Inl x \<Rightarrow> Some (Inl x)
      | Inr fd \<Rightarrow> SaveManager_load n file (s\<lparr>srv_fd := fd\<rparr>))"

text \<open>\<open>run\<close>: the state at the end and the text written to the save file; \<open>writable\<close> says whether the
  file can be opened.\<close>

definition Server_run :: "turn list \<Rightarrow> bool \<Rightarrow> server \<Rightarrow> (exn + server \<times> string option) option" where
  "Server_run turns writable s =
     map_option (map_sum id (\<lambda>(t, ps). (t, if writable then Some (SaveManager_save (srv_db t)) else None)))
       (run_loop turns True (run_start s))"

text \<open>The plain sequence of turns, to say when \<open>run\<close> returns.\<close>

primrec run_turns :: "turn list \<Rightarrow> server \<times> poller \<Rightarrow> (exn + server \<times> poller) option" where
  "run_turns [] st = Some (Inr st)"
| "run_turns (t # ts) st =
     (case run_turn t st of
        None \<Rightarrow> None
      | Some (Inl x) \<Rightarrow> Some (Inl x)
      | Some (Inr st1) \<Rightarrow> run_turns ts st1)"

definition quiet :: "turn list \<Rightarrow> bool" where
  "quiet ts \<longleftrightarrow> list_all (\<lambda>t. trn_signals t = []) ts"

lemma run_loop_returns:
  "run_loop ts True st = Some (Inr st') \<longleftrightarrow>
     (\<exists>us u vs. ts = us @ u # vs \<and> quiet us \<and> trn_signals u \<noteq> [] \<and> run_turns (us @ [u]) st = Some (Inr st'))"
proof (induction ts arbitrary: st)
  case (Cons t ts)
  show ?case
  proof (cases "\<exists>st1. run_turn t st = Some (Inr st1)")
    case False
    then show ?thesis
      by (auto simp: Cons_eq_append_conv quiet_def split: option.splits sum.splits)
  next
    case True
    then obtain st1 where st1: "run_turn t st = Some (Inr st1)" by blast
    show ?thesis
    proof (cases "trn_signals t = []")
      case True
      let ?stop = "\<lambda>ts st. \<exists>us u vs. ts = us @ u # vs \<and> quiet us \<and> trn_signals u \<noteq> [] \<and> run_turns (us @ [u]) st = Some (Inr st')"
      have "?stop ts st1 \<longleftrightarrow> ?stop (t # ts) st"
      proof
        assume "?stop ts st1"
        then obtain us u vs where "ts = us @ u # vs \<and> quiet us \<and> trn_signals u \<noteq> [] \<and> run_turns (us @ [u]) st1 = Some (Inr st')"
          by blast
        then show "?stop (t # ts) st"
          by (intro exI [of _ "t # us"] exI [of _ u] exI [of _ vs]) (simp add: st1 True quiet_def)
      next
        assume "?stop (t # ts) st"
        then obtain us u vs where u: "t # ts = us @ u # vs" "quiet us" "trn_signals u \<noteq> []" "run_turns (us @ [u]) st = Some (Inr st')"
          by blast
        with True obtain us' where us': "us = t # us'" by (cases us) auto
        with u st1 show "?stop ts st1"
          by (intro exI [of _ us'] exI [of _ u] exI [of _ vs]) (simp add: quiet_def)
      qed
      with True show ?thesis by (simp add: st1 Cons.IH)
    next
      case False
      have "st1 = st'" if "t # ts = us @ u # vs" "quiet us" "run_turns (us @ [u]) st = Some (Inr st')" for us u vs
        using that False st1 by (cases us) (simp_all add: quiet_def)
      moreover have "run_loop (t # ts) True st = Some (Inr st1)" using False by (simp add: st1)
      moreover have "\<exists>us u vs. t # ts = us @ u # vs \<and> quiet us \<and> trn_signals u \<noteq> [] \<and> run_turns (us @ [u]) st = Some (Inr st1)"
        using False by (intro exI [of _ "[]"] exI [of _ t] exI [of _ ts]) (simp add: st1 quiet_def)
      ultimately show ?thesis by auto
    qed
  qed
qed simp

text \<open>C20. The server stops exactly by a signal: \<open>run\<close> returns if and only if a signal arrives in some turn and
  that turn and those before it return, and then after handling all the events of that turn, none of a
  later one, and with the database of that moment written to the save file when it can be opened.\<close>

theorem Server_run_stops:
  "Server_run turns writable s = Some (Inr (t, saved)) \<longleftrightarrow>
     (\<exists>us u vs ps. turns = us @ u # vs \<and> quiet us \<and> trn_signals u \<noteq> [] \<and>
        run_turns (us @ [u]) (run_start s) = Some (Inr (t, ps)) \<and>
        saved = (if writable then Some (SaveManager_save (srv_db t)) else None))"
proof -
  have "Server_run turns writable s = Some (Inr (t, saved)) \<longleftrightarrow>
      (\<exists>ps. run_loop turns True (run_start s) = Some (Inr (t, ps)) \<and>
        saved = (if writable then Some (SaveManager_save (srv_db t)) else None))"
    by (cases "run_loop turns True (run_start s)"; cases "the (run_loop turns True (run_start s))")
      (auto simp: Server_run_def)
  then show ?thesis unfolding run_loop_returns by blast
qed

definition EXIT_ERROR :: int where "EXIT_ERROR = 84"

text \<open>\<open>main\<close>: the exit status, for the arguments after the program name.\<close>

definition server_main :: "string list \<Rightarrow> nat \<Rightarrow> init_answers \<Rightarrow> string option \<Rightarrow> turn list \<Rightarrow> bool \<Rightarrow> int option" where
  "server_main argv n a file turns writable =
     (if argv = [''--help''] then Some 0
      else if length argv \<noteq> 1 then Some EXIT_ERROR
      else case stoull (hd argv) of
        None \<Rightarrow> Some EXIT_ERROR
      | Some rawPort \<Rightarrow>
          if rawPort = 0 \<or> rawPort > 65535 then Some EXIT_ERROR
          else
            (case Server_init n a file newServer of
               None \<Rightarrow> None
             | Some (Inl x) \<Rightarrow> Some EXIT_ERROR
             | Some (Inr s) \<Rightarrow>
                 (case Server_run turns writable s of
                    None \<Rightarrow> None
                  | Some (Inl x) \<Rightarrow> Some EXIT_ERROR
                  | Some (Inr r) \<Rightarrow> Some 0)))"

section \<open>Resetting the counters keeps the database well-formed\<close>

lemma reset_fields [simp]:
  "usr_uuid (setConnectionCount n u) = usr_uuid u" "usr_name (setConnectionCount n u) = usr_name u"
  "usr_messages (setConnectionCount n u) = usr_messages u" "conversation (setConnectionCount n u) k = conversation u k"
  by (simp_all add: setConnectionCount_def conversation_def)

lemma db_ok_reset:
  assumes "db_ok db"
  shows "db_ok \<lparr>db_users = map (setConnectionCount 0) (db_users db), db_teams = db_teams db\<rparr>"
proof -
  let ?db = "\<lparr>db_users = map (setConnectionCount 0) (db_users db), db_teams = db_teams db\<rparr>"
  have ids: "user_ids ?db = user_ids db" by (simp add: user_ids_def comp_def)
  have "user_ok us (setConnectionCount 0 u) = user_ok us u" for us u by (simp add: user_ok_def)
  then have "users_ok ?db" using assms
    unfolding db_ok_def users_ok_def ids by (simp add: comp_def mirrored_def list.pred_map)
  then show ?thesis using assms by (simp add: db_ok_def ids)
qed

text \<open>Every stored time is an integer a \<open>double\<close> holds exactly; the rest of what saving needs is part of \<open>db_ok\<close>.\<close>

definition exact_times :: "database \<Rightarrow> bool" where
  "exact_times db \<longleftrightarrow> list_all team_exact (db_teams db) \<and>
     list_all (\<lambda>u. list_all (\<lambda>(k, ms). list_all (\<lambda>m. exact_time (msg_timestamp m)) ms) (usr_messages u)) (db_users db)"

lemma savable_exact: "db_ok db \<Longrightarrow> exact_times db \<Longrightarrow> savable db"
  by (auto simp: savable_def exact_times_def user_exact_def db_ok_def users_ok_def user_ok_def list_all_iff)

text \<open>\<open>init\<close> on a fresh server returns, with the given answers and save file: some fuel is enough, and all larger
  amounts give the same state.\<close>

definition inits :: "init_answers \<Rightarrow> string option \<Rightarrow> server \<Rightarrow> bool" where
  "inits a file s \<longleftrightarrow> (\<exists>N. \<forall>n \<ge> N. Server_init n a file newServer = Some (Inr s))"

lemma inits_unique: "inits a file s \<Longrightarrow> inits a file t \<Longrightarrow> s = t"
proof -
  assume "inits a file s" and "inits a file t"
  then obtain M N where "\<forall>n \<ge> M. Server_init n a file newServer = Some (Inr s)"
    "\<forall>n \<ge> N. Server_init n a file newServer = Some (Inr t)" unfolding inits_def by blast
  then have "Some (Inr s) = (Some (Inr t) :: (exn + server) option)" by (metis max.cobounded1 max.cobounded2)
  then show "s = t" by simp
qed

lemma inits_listener: "inits a file s \<Longrightarrow> \<exists>fd. openListener a = Inr fd"
  by (cases "openListener a") (auto simp: inits_def Server_init_def)

text \<open>From the file \<open>save\<close> wrote for a well-formed database, \<open>init\<close> restores it, with everybody disconnected.\<close>

lemma init_restores:
  assumes "db_ok db" and "exact_times db" and "openListener a = Inr fd"
  shows "\<exists>s'. inits a (Some (SaveManager_save db)) s' \<and> started s' \<and> srv_fd s' = fd \<and> db_teams (srv_db s') = db_teams db \<and>
    db_users (srv_db s') = map (setConnectionCount 0) (db_users db)"
proof -
  let ?s0 = "newServer\<lparr>srv_fd := fd\<rparr>"
  let ?s1 = "?s0\<lparr>srv_db := \<lparr>db_users = map (setConnectionCount 0) (db_users db), db_teams = db_teams db\<rparr>,
    srv_log := map user_loaded (db_users db)\<rparr>"
  obtain v N where rd: "reads N (SaveManager_save db) v"
    and v: "map_exn userFromJson (j_arrVal (json_at v ''users'')) = Inr (map (setConnectionCount 0) (db_users db))"
      "map_exn teamFromJson (j_arrVal (json_at v ''teams'')) = Inr (db_teams db)"
    using save_reads [OF savable_exact [OF assms(1,2)]] by (auto simp: readable_def)
  have "Server_init n a (Some (SaveManager_save db)) newServer = Some (Inr ?s1)" if "N \<le> n" for n
    using load_reads [OF rd that v] assms(3) by (simp add: Server_init_def newServer_def emptyDb_def)
  then have "inits a (Some (SaveManager_save db)) ?s1" unfolding inits_def by blast
  moreover have "started ?s1"
    using db_ok_reset [OF assms(1)] by (simp add: started_def newServer_def setConnectionCount_def list.pred_map comp_def list_all_iff)
  ultimately show ?thesis by (intro exI [of _ ?s1]) simp
qed

definition demo_init :: init_answers where
  "demo_init = \<lparr>ia_socket = Ok 3, ia_reuse = Ok (), ia_v6only = Ok (), ia_getfl = Ok 2, ia_setfl = (\<lambda>_. Ok ()),
     ia_bind = Ok (), ia_listen = Ok ()\<rparr>"

text \<open>The exit status of the server is 0 or 84. It is 84, without a socket being opened, for every argument list
  but \<open>--help\<close> and one decimal port from 1 to 65535, and when a system call of the set-up fails.\<close>

theorem server_main_status:
  "server_main argv n a file turns writable \<in> {None, Some 0, Some EXIT_ERROR} \<and>
   (length argv \<noteq> 1 \<or> (\<exists>v. argv = [v] \<and> v \<noteq> ''--help'' \<and> (stoull v = None \<or> stoull v = Some 0 \<or> the (stoull v) > 65535)) \<or>
      isl (openListener a) \<and> argv \<noteq> [''--help''] \<longrightarrow>
    server_main argv n a file turns writable = Some EXIT_ERROR)"
  by (auto simp: server_main_def Server_init_def split: option.splits sum.splits)

theorem server_main_status_witness:
  "stoull ''70000'' = Some 70000 \<and> server_main [''70000''] 0 demo_init None [] True = Some EXIT_ERROR"
proof -
  have "stoull ''70000'' = Some 70000" by code_simp
  then show ?thesis using server_main_status [of "[''70000'']" 0 demo_init None "[]" True] by simp
qed

end
