(* ===== verification/Chat_Spec.thy ===== *)
theory Chat_Spec
  imports Session_Inv
begin

text \<open>
  What the server is for, without how it does it: a chat state of maps and logs, and the steps users
  can make on it. There is one log per pair of users (the server keeps two copies), members are a set,
  teams, channels and threads are maps over their path (the server nests vectors), who is online is
  which connection belongs to whom (the server counts). \<open>Chat_Refinement\<close> shows that the server
  implements it. The steps carry their guards: identifiers are new, names are unique, texts within their
  limits, and only members write in a team.
\<close>

section \<open>State\<close>

record post =
  post_author :: uuid
  post_time :: int
  post_title :: string
  post_body :: string

record chat =
  ch_names :: "uuid \<rightharpoonup> string"
  ch_online :: "fd \<rightharpoonup> uuid"
  ch_talk :: "uuid \<Rightarrow> uuid \<Rightarrow> message list"
  ch_members :: "uuid \<Rightarrow> uuid set"
  ch_teams :: "uuid \<rightharpoonup> string \<times> string"
  ch_channels :: "uuid \<times> uuid \<rightharpoonup> string \<times> string"
  ch_threads :: "uuid \<times> uuid \<rightharpoonup> post"
  ch_replies :: "uuid \<times> uuid \<Rightarrow> reply list"

definition ch_ids :: "chat \<Rightarrow> uuid set" where
  "ch_ids C = dom (ch_names C) \<union> dom (ch_teams C) \<union> snd ` dom (ch_channels C) \<union> snd ` dom (ch_threads C)"

definition ch_new :: "uuid \<Rightarrow> chat \<Rightarrow> bool" where
  "ch_new v C \<longleftrightarrow> v \<noteq> [] \<and> v \<notin> ch_ids C"

text \<open>A message is appended to the log of its pair, seen from both sides; a message to oneself is
  appended twice, once as sent and once as received.\<close>

definition say :: "uuid \<Rightarrow> uuid \<Rightarrow> message \<Rightarrow> (uuid \<Rightarrow> uuid \<Rightarrow> message list) \<Rightarrow> uuid \<Rightarrow> uuid \<Rightarrow> message list" where
  "say a b m l x y = l x y @ (if x = a \<and> y = b then [m] else []) @ (if x = b \<and> y = a then [m] else [])"

section \<open>Steps\<close>

inductive chat_step :: "chat \<Rightarrow> chat \<Rightarrow> bool" where
  register: "ch_online C fd = None \<Longrightarrow> ch_new v C \<Longrightarrow> within 32 n \<Longrightarrow> n \<notin> ran (ch_names C) \<Longrightarrow>
    chat_step C (C\<lparr>ch_names := (ch_names C)(v \<mapsto> n), ch_online := (ch_online C)(fd \<mapsto> v)\<rparr>)"
| login: "ch_online C fd = None \<Longrightarrow> ch_names C u = Some n \<Longrightarrow>
    chat_step C (C\<lparr>ch_online := (ch_online C)(fd \<mapsto> u)\<rparr>)"
| leave: "ch_online C fd = Some u \<Longrightarrow> chat_step C (C\<lparr>ch_online := (ch_online C)(fd := None)\<rparr>)"
| message: "ch_online C fd = Some a \<Longrightarrow> ch_names C b \<noteq> None \<Longrightarrow> within 512 w \<Longrightarrow> exact_time now \<Longrightarrow>
    chat_step C (C\<lparr>ch_talk := say a b (sent now a b w) (ch_talk C)\<rparr>)"
| join: "ch_online C fd = Some u \<Longrightarrow> ch_teams C t \<noteq> None \<Longrightarrow> u \<notin> ch_members C t \<Longrightarrow>
    chat_step C (C\<lparr>ch_members := (ch_members C)(t := insert u (ch_members C t))\<rparr>)"
| part: "ch_online C fd = Some u \<Longrightarrow> u \<in> ch_members C t \<Longrightarrow>
    chat_step C (C\<lparr>ch_members := (ch_members C)(t := ch_members C t - {u})\<rparr>)"
| team: "ch_online C fd = Some u \<Longrightarrow> ch_new v C \<Longrightarrow> within 32 n \<Longrightarrow> within 255 d \<Longrightarrow>
    n \<notin> fst ` ran (ch_teams C) \<Longrightarrow>
    chat_step C (C\<lparr>ch_teams := (ch_teams C)(v \<mapsto> (n, d)), ch_members := (ch_members C)(v := {u})\<rparr>)"
| channel: "ch_online C fd = Some u \<Longrightarrow> u \<in> ch_members C t \<Longrightarrow> ch_new v C \<Longrightarrow> within 32 n \<Longrightarrow> within 255 d \<Longrightarrow>
    \<forall>c d'. ch_channels C (t, c) \<noteq> Some (n, d') \<Longrightarrow>
    chat_step C (C\<lparr>ch_channels := (ch_channels C)((t, v) \<mapsto> (n, d))\<rparr>)"
| thread: "ch_online C fd = Some u \<Longrightarrow> u \<in> ch_members C t \<Longrightarrow> ch_channels C (t, c) \<noteq> None \<Longrightarrow> ch_new v C \<Longrightarrow>
    within 32 n \<Longrightarrow> within 512 w \<Longrightarrow> exact_time now \<Longrightarrow>
    \<forall>h p. ch_threads C (c, h) = Some p \<longrightarrow> post_title p \<noteq> n \<Longrightarrow>
    chat_step C (C\<lparr>ch_threads := (ch_threads C)((c, v) \<mapsto>
      \<lparr>post_author = u, post_time = now, post_title = n, post_body = w\<rparr>)\<rparr>)"
| reply: "ch_online C fd = Some u \<Longrightarrow> u \<in> ch_members C t \<Longrightarrow> ch_channels C (t, c) \<noteq> None \<Longrightarrow>
    ch_threads C (c, h) \<noteq> None \<Longrightarrow> ch_new v C \<Longrightarrow> within 512 w \<Longrightarrow> exact_time now \<Longrightarrow>
    chat_step C (C\<lparr>ch_replies := (ch_replies C)((c, h) := ch_replies C (c, h) @
      [\<lparr>rep_uuid = v, rep_userUuid = u, rep_timestamp = now, rep_body = w\<rparr>])\<rparr>)"

inductive_cases chat_stepE: "chat_step C C'"

section \<open>Nothing said or created is lost\<close>

definition ch_le :: "chat \<Rightarrow> chat \<Rightarrow> bool" where
  "ch_le C D \<longleftrightarrow> ch_names C \<subseteq>\<^sub>m ch_names D \<and> ch_teams C \<subseteq>\<^sub>m ch_teams D \<and> ch_channels C \<subseteq>\<^sub>m ch_channels D \<and>
     ch_threads C \<subseteq>\<^sub>m ch_threads D \<and> (\<forall>x y. prefix (ch_talk C x y) (ch_talk D x y)) \<and>
     (\<forall>k. prefix (ch_replies C k) (ch_replies D k))"

lemma ch_le_refl [simp]: "ch_le C C"
  by (simp add: ch_le_def)

lemma ch_le_trans: "ch_le C D \<Longrightarrow> ch_le D E \<Longrightarrow> ch_le C E"
  unfolding ch_le_def by (metis map_le_trans prefix_order.trans)

lemma ch_new_None:
  assumes "ch_new v C"
  shows "ch_names C v = None" "ch_teams C v = None" "ch_channels C (t, v) = None" "ch_threads C (c, v) = None"
  using assms by (force simp: ch_new_def ch_ids_def)+

lemma map_le_upd: "m k = None \<Longrightarrow> m \<subseteq>\<^sub>m m(k \<mapsto> v)"
  by (auto simp: map_le_def)

lemma chat_step_le: "chat_step C D \<Longrightarrow> ch_le C D"
  by (induction rule: chat_step.induct) (simp_all add: ch_le_def map_le_upd ch_new_None say_def)

lemma chat_steps_le: "chat_step\<^sup>*\<^sup>* C D \<Longrightarrow> ch_le C D"
  by (induction rule: rtranclp_induct) (auto intro: ch_le_trans chat_step_le)

section \<open>Every time is one the clock gave\<close>

definition ch_exact :: "chat \<Rightarrow> bool" where
  "ch_exact C \<longleftrightarrow> (\<forall>x y. \<forall>m \<in> set (ch_talk C x y). exact_time (msg_timestamp m)) \<and>
     (\<forall>k p. ch_threads C k = Some p \<longrightarrow> exact_time (post_time p)) \<and>
     (\<forall>k. \<forall>r \<in> set (ch_replies C k). exact_time (rep_timestamp r))"

lemma chat_step_exact: "chat_step C D \<Longrightarrow> ch_exact C \<Longrightarrow> ch_exact D"
  by (induction rule: chat_step.induct)
    (auto simp: ch_exact_def say_def sent_def split: if_splits)

lemma chat_steps_exact: "chat_step\<^sup>*\<^sup>* C D \<Longrightarrow> ch_exact C \<Longrightarrow> ch_exact D"
  by (induction rule: rtranclp_induct) (auto intro: chat_step_exact)

end
