(* ===== verification/Command_Specs.thy ===== *)
theory Command_Specs
  imports Command_Handling Fixtures
begin

text \<open>
  What the commands do, stated over the database and the queued output: login and logout, private
  messages, subscriptions, creation and who may create, navigation, and what a connection that is
  not logged in can do.
\<close>

section \<open>Shared observations\<close>

definition conv :: "database \<Rightarrow> uuid \<Rightarrow> uuid \<Rightarrow> message list" where
  "conv db a b = (case findUser db a of None \<Rightarrow> [] | Some x \<Rightarrow> conversation x b)"

lemma find_map:
  "(\<And>x. P (f x) = P x) \<Longrightarrow> find P (map f xs) = map_option f (find P xs)"
  by (induction xs) auto

lemma conv_exchanged:
  assumes "db_ok db" and "a \<in> set (user_ids db)" and "b \<in> set (user_ids db)"
  shows "conv (exchanged a b m db) x y =
    conv db x y @ (if x = a \<and> y = b then [m] else []) @ (if x = b \<and> y = a then [m] else [])"
proof -
  have d: "distinct (user_ids db)" using assms(1) by (simp add: db_ok_def users_ok_def)
  have f: "findUser (exchanged a b m db) x = map_option (exchange a b m) (findUser db x)"
    by (simp add: exchanged_users [OF d] findUser_def find_map)
  show ?thesis
  proof (cases "findUser db x")
    case None
    then have "x \<noteq> a" "x \<noteq> b" using assms(2,3) findUser_in by blast+
    with None f show ?thesis by (simp add: conv_def)
  next
    case (Some u)
    then have u: "u \<in> set (db_users db)" "usr_uuid u = x" using findUser_iff [OF assms(1)] by auto
    then have "map_ok (usr_messages u)"
      using assms(1) by (auto simp: db_ok_def users_ok_def user_ok_def list_all_iff)
    from conversation_exchange [OF this, of a b m y] Some f u(2) show ?thesis by (simp add: conv_def)
  qed
qed

lemma inv_db_ok: "server_inv s \<Longrightarrow> db_ok (srv_db s)"
  by (simp add: server_inv_def)

section \<open>Private messages\<close>

text \<open>C25. An accepted \<open>/send\<close> appends the message to the sender's conversation with the receiver and
  to the receiver's conversation with the sender, and changes no other conversation. When a user
  writes to itself the two are the same conversation, which gets the message twice.\<close>

theorem Send_execute_conversations:
  assumes "server_inv s" and "send_refusal (srv_db s) (cl_userUuid (clientAt s fd)) (cl_args (clientAt s fd)) = None"
  shows "let u = cl_userUuid (clientAt s fd); k = cl_args (clientAt s fd) ! 1;
      m = \<lparr>msg_senderUuid = u, msg_receiverUuid = k, msg_timestamp = env_time e, msg_body = cl_args (clientAt s fd) ! 2\<rparr>
    in conv (srv_db (Send_execute e fd s)) x y =
      conv (srv_db s) x y @ (if x = u \<and> y = k then [m] else []) @ (if x = k \<and> y = u then [m] else [])"
proof -
  have db: "srv_db (Send_execute e fd s) = exchanged (cl_userUuid (clientAt s fd)) (cl_args (clientAt s fd) ! 1)
      (sent (env_time e) (cl_userUuid (clientAt s fd)) (cl_args (clientAt s fd) ! 1) (cl_args (clientAt s fd) ! 2)) (srv_db s)"
    using assms(2) by (simp add: Send_execute_outcome Let_def frame_simps)
  from send_refusal_None [OF assms(2)]
  have ids: "cl_userUuid (clientAt s fd) \<in> set (user_ids (srv_db s))"
    "cl_args (clientAt s fd) ! 1 \<in> set (user_ids (srv_db s))" by blast+
  show ?thesis unfolding Let_def db sent_def by (rule conv_exchanged [OF inv_db_ok [OF assms(1)] ids])
qed

theorem Send_execute_conversations_witness:
  "let s = demo emptyCtx [''/send'', ''u2'', ''hi''] in
     server_inv s \<and> send_refusal (srv_db s) (cl_userUuid (clientAt s 4)) (cl_args (clientAt s 4)) = None \<and>
     conv (srv_db (Send_execute demo_env 4 s)) ''u2'' ''u1'' = conv (srv_db s) ''u2'' ''u1'' @
       [\<lparr>msg_senderUuid = ''u1'', msg_receiverUuid = ''u2'', msg_timestamp = 1700000000, msg_body = ''hi''\<rparr>]"
proof -
  let ?s = "demo emptyCtx [''/send'', ''u2'', ''hi'']"
  have i: "server_inv ?s" by code_simp
  have r: "send_refusal (srv_db ?s) (cl_userUuid (clientAt ?s 4)) (cl_args (clientAt ?s 4)) = None" by code_simp
  have c: "cl_userUuid (clientAt ?s 4) = ''u1''" "cl_args (clientAt ?s 4) = [''/send'', ''u2'', ''hi'']" by code_simp+
  from i r Send_execute_conversations [OF i r, of demo_env "''u2''" "''u1''"] show ?thesis
    by (simp add: Let_def c demo_env_def)
qed

text \<open>\<open>/messages\<close> sends exactly the stored conversation, in order, between the begin and end
  markers, whether or not the map has an entry for the interlocutor, and changes nothing else.\<close>

theorem Messages_execute_lists:
  assumes "findUser (srv_db s) (cl_userUuid (clientAt s fd)) \<noteq> None" and "cl_userUuid (clientAt s fd) \<noteq> []"
    and "length (cl_args (clientAt s fd)) \<ge> 2" and "cl_args (clientAt s fd) ! 1 \<noteq> []"
    and "findUser (srv_db s) (cl_args (clientAt s fd) ! 1) \<noteq> None"
  shows "Messages_execute e fd s =
    sendToClient (''210-BEGIN MESSAGES'' @ CRLF @
      concat (map messageLine (conv (srv_db s) (cl_userUuid (clientAt s fd)) (cl_args (clientAt s fd) ! 1))) @
      ''210-END MESSAGES'' @ CRLF) fd s"
  using assms
  by (auto simp: Messages_execute_def Let_def conv_def conversation_def fold_sendMessageLine split: option.splits)

theorem Messages_execute_lists_witness:
  "let s = demo emptyCtx [''/messages'', ''u2''] in
     findUser (srv_db s) (cl_userUuid (clientAt s 4)) \<noteq> None \<and>
     Messages_execute demo_env 4 s = sendToClient (''210-BEGIN MESSAGES'' @ CRLF @ ''210-END MESSAGES'' @ CRLF) 4 s"
proof -
  let ?s = "demo emptyCtx [''/messages'', ''u2'']"
  have a: "findUser (srv_db ?s) (cl_userUuid (clientAt ?s 4)) \<noteq> None" "cl_userUuid (clientAt ?s 4) \<noteq> []"
    "length (cl_args (clientAt ?s 4)) \<ge> 2" "cl_args (clientAt ?s 4) ! 1 \<noteq> []"
    "findUser (srv_db ?s) (cl_args (clientAt ?s 4) ! 1) \<noteq> None" by code_simp+
  have "conv (srv_db ?s) (cl_userUuid (clientAt ?s 4)) (cl_args (clientAt ?s 4) ! 1) = []" by code_simp
  with a(1) Messages_execute_lists [OF a, of demo_env] show ?thesis by (simp add: Let_def)
qed

section \<open>Login and logout\<close>

lemma clientAt_fields_setUserUuid:
  "fd \<in> set (fds s) \<Longrightarrow> clientAt (setUserUuid fd u s) fd = (clientAt s fd)\<lparr>cl_userUuid := u\<rparr>"
  by (simp add: setUserUuid_def modifyClient_def clientAt_map_clients)

lemma set_user_twice: "set_user fd v (set_user fd u ss) = set_user fd v ss"
  by (simp add: set_user_def split_def)

lemma set_user_same:
  assumes "distinct (map fst ss)" and "(fd, u, x) \<in> set ss"
  shows "set_user fd u ss = ss"
proof -
  have "v = u" if "(fd, v, y) \<in> set ss" for v y using assms that by (meson eq_key_imp_eq_value prod.inject)
  then show ?thesis unfolding set_user_def by (intro map_idI) auto
qed

lemma update_first_twice:
  "(\<And>x. P (f x) = P x) \<Longrightarrow> update_first P g (update_first P f xs) = update_first P (\<lambda>x. g (f x)) xs"
  by (induction xs) auto

lemma update_first_cong_on:
  "(\<And>x. x \<in> set xs \<Longrightarrow> P x = Q x) \<Longrightarrow> (\<And>x. x \<in> set xs \<Longrightarrow> f x = x) \<Longrightarrow> update_first P f xs = xs"
  by (induction xs) auto

lemma logUserIn_effect:
  assumes "server_inv s" and "fd \<in> set (fds s)" and "findUserByName (srv_db s) name = Some u"
  shows "srv_db (logUserIn fd name s) = modifyUser (usr_uuid u) incrementConnection (srv_db s)"
    and "sessions (logUserIn fd name s) = set_user fd (usr_uuid u) (sessions s)"
    and "cl_userUuid (clientAt (logUserIn fd name s) fd) = usr_uuid u"
proof -
  have ok: "db_ok (srv_db s)" using assms(1) by (rule inv_db_ok)
  have u: "u \<in> set (db_users (srv_db s))" "usr_name u = name" using assms(3) findUserByName_iff [OF ok] by auto
  have P: "usr_name v = name \<longleftrightarrow> usr_uuid v = usr_uuid u" if "v \<in> set (db_users (srv_db s))" for v
    using that u findUserByName_iff [OF ok, of name v] findUserByName_iff [OF ok, of name u]
      findUser_iff [OF ok, of "usr_uuid u" v] findUser_iff [OF ok, of "usr_uuid u" u] by auto
  have "update_first (\<lambda>x. usr_name x = name) incrementConnection us =
      update_first (\<lambda>x. usr_uuid x = usr_uuid u) incrementConnection us" if "set us \<subseteq> set (db_users (srv_db s))" for us
    using that P by (induction us) auto
  then have "modifyUserByName name incrementConnection (srv_db s) = modifyUser (usr_uuid u) incrementConnection (srv_db s)"
    by (simp add: modifyUserByName_def modifyUser_def)
  with assms(3) show "srv_db (logUserIn fd name s) = modifyUser (usr_uuid u) incrementConnection (srv_db s)"
    and "sessions (logUserIn fd name s) = set_user fd (usr_uuid u) (sessions s)"
    by (simp_all add: logUserIn_def Let_def frame_simps)
  from assms show "cl_userUuid (clientAt (logUserIn fd name s) fd) = usr_uuid u"
    by (simp add: logUserIn_def Let_def broadcast_deliver sendToClient_deliver frame_simps
        clientAt_fields_setUserUuid)
qed

lemma Logout_execute_db:
  assumes "server_inv s" and "cl_userUuid (clientAt s fd) = u" and "u \<noteq> []"
  shows "srv_db (Logout_execute e fd s) = modifyUser u decrementConnection (srv_db s)"
    and "sessions (Logout_execute e fd s) = set_user fd [] (sessions s)"
proof -
  obtain x where "findUser (srv_db s) u = Some x"
    using session_user_known(1) [OF assms(1), of fd] assms(2,3) findUser_in by blast
  with assms(2,3) show "srv_db (Logout_execute e fd s) = modifyUser u decrementConnection (srv_db s)"
    and "sessions (Logout_execute e fd s) = set_user fd [] (sessions s)"
    by (simp_all add: Logout_execute_def Let_def frame_simps)
qed

text \<open>C26. Logging in as an existing user and logging out again restores the database, connection
  counters included, and the sessions; in between the connection is that user's.\<close>

theorem login_logout_roundtrip:
  assumes "server_inv s" and "fd \<in> set (fds s)" and "cl_userUuid (clientAt s fd) = []"
    and "length (cl_args (clientAt s fd)) \<ge> 2" and "findUserByName (srv_db s) (cl_args (clientAt s fd) ! 1) = Some u"
  shows "cl_userUuid (clientAt (Login_execute e fd s) fd) = usr_uuid u \<and>
    srv_db (Logout_execute e' fd (Login_execute e fd s)) = srv_db s \<and>
    sessions (Logout_execute e' fd (Login_execute e fd s)) = sessions s"
proof -
  let ?name = "cl_args (clientAt s fd) ! 1" and ?t = "Login_execute e fd s"
  have ok: "db_ok (srv_db s)" using assms(1) by (rule inv_db_ok)
  have u: "u \<in> set (db_users (srv_db s))" "usr_name u = ?name" using assms(5) findUserByName_iff [OF ok] by auto
  then have "within 32 ?name" using ok by (auto simp: db_ok_def users_ok_def user_ok_def list_all_iff)
  then have t: "?t = logUserIn fd ?name s"
    using assms by (simp add: Login_execute_def Let_def within_def MAX_NAME_LENGTH_def)
  note e = logUserIn_effect [OF assms(1,2,5), folded t]
  have inv: "server_inv ?t" unfolding t by (rule inv_logUserIn [OF assms(1-3)])
  note o = Logout_execute_db [OF inv e(3) user_facts(1) [OF assms(1) u(1)]]
  have "decrementConnection (incrementConnection v) = v" if "v \<in> set (db_users (srv_db s))" for v
    using user_facts(2) [OF assms(1) that] by (simp add: decrementConnection_def incrementConnection_def)
  then have db: "modifyUser (usr_uuid u) decrementConnection (modifyUser (usr_uuid u) incrementConnection (srv_db s)) = srv_db s"
    by (simp add: modifyUser_def update_first_twice frame_simps update_first_cong_on)
  have "(fd, [], cl_context (clientAt s fd)) \<in> set (sessions s)"
    using sessions_clientAt [OF assms(2)] assms(3) by simp
  then have "set_user fd [] (sessions s) = sessions s"
    using assms(1) by (intro set_user_same) (auto simp: server_inv_def sessions_ok_def)
  with o e db show ?thesis by (simp add: set_user_twice)
qed

theorem login_logout_roundtrip_witness:
  "let s = setArgs 6 [''/login'', ''bob''] (demo emptyCtx []) in
     server_inv s \<and> cl_userUuid (clientAt (Login_execute demo_env 6 s) 6) = ''u2'' \<and>
     srv_db (Logout_execute demo_env 6 (Login_execute demo_env 6 s)) = srv_db s"
proof -
  let ?s = "setArgs 6 [''/login'', ''bob''] (demo emptyCtx [])"
  have i: "server_inv ?s" by code_simp
  have a: "6 \<in> set (fds ?s)" "cl_userUuid (clientAt ?s 6) = []" "length (cl_args (clientAt ?s 6)) \<ge> 2"
    "findUserByName (srv_db ?s) (cl_args (clientAt ?s 6) ! 1) = Some (demo_user ''u2'' ''bob'' 1)" by code_simp+
  from i login_logout_roundtrip [OF i a, of demo_env demo_env] show ?thesis by (simp add: Let_def demo_user_def)
qed

text \<open>\<open>/login\<close> with a new valid name creates exactly one user, with the generated identifier, that
  name, one connection and no messages; the connection is then logged in as that user, is answered
  with the identifier, and every open connection is told.\<close>

theorem Login_execute_creates:
  assumes "fd \<in> set (fds s)" and "cl_userUuid (clientAt s fd) = []" and "length (cl_args (clientAt s fd)) \<ge> 2"
    and "cl_args (clientAt s fd) ! 1 = name" and "name \<noteq> []" and "length name \<le> 32"
    and "findUserByName (srv_db s) name = None" and "k \<in> set (fds s)"
  shows "db_users (srv_db (Login_execute e fd s)) = db_users (srv_db s) @
      [\<lparr>usr_uuid = env_uuid e, usr_name = name, usr_connectedCount = 1, usr_teams = [], usr_messages = []\<rparr>] \<and>
    db_teams (srv_db (Login_execute e fd s)) = db_teams (srv_db s) \<and>
    cl_userUuid (clientAt (Login_execute e fd s) fd) = env_uuid e \<and>
    writeBufferAt (Login_execute e fd s) k = writeBufferAt s k @
      (if k = fd then ''200 OK '' @ DQ # env_uuid e @ DQ # SP # DQ # name @ DQ # CRLF else []) @
      ''EVENT USER_LOGGED_IN '' @ quoteProtocolField (env_uuid e) @ '' '' @ quoteProtocolField name @ CRLF"
proof -
  have t: "Login_execute e fd s = createNewUser e fd name s"
    using assms by (simp add: Login_execute_def Let_def MAX_NAME_LENGTH_def)
  have w: "writeBufferAt (setUserUuid fd u s') k = writeBufferAt s' k" for u s'
    by (cases "k \<in> set (fds s')")
      (simp_all add: writeBufferAt_def setUserUuid_def modifyClient_def clientAt_map_clients clientAt_absent frame_simps)
  have m: "writeBufferAt (modifyDb g s') k = writeBufferAt s' k" "writeBufferAt (logEvent ev s') k = writeBufferAt s' k"
    for g ev s' by (simp_all add: writeBufferAt_def frame_simps)
  have f: "fds (setUserUuid fd u s') = fds s'" for u s' by (simp add: setUserUuid_def frame_simps)
  show ?thesis unfolding t createNewUser_def Let_def using assms(1,8)
    by (simp add: broadcast_deliver sendToClient_deliver frame_simps writeBufferAt_deliver w m f
        clientAt_fields_setUserUuid newUser_def incrementConnection_def pushUser_def)
qed

theorem Login_execute_creates_witness:
  "let s = setArgs 6 [''/login'', ''carl''] (demo emptyCtx []) in
     findUserByName (srv_db s) ''carl'' = None \<and> length (db_users (srv_db (Login_execute demo_env 6 s))) = 3 \<and>
     cl_userUuid (clientAt (Login_execute demo_env 6 s) 6) = ''n1''"
proof -
  let ?s = "setArgs 6 [''/login'', ''carl''] (demo emptyCtx [])"
  have a: "6 \<in> set (fds ?s)" "cl_userUuid (clientAt ?s 6) = []" "length (cl_args (clientAt ?s 6)) \<ge> 2"
    "cl_args (clientAt ?s 6) ! 1 = ''carl''" "''carl'' \<noteq> []" "length ''carl'' \<le> 32"
    "findUserByName (srv_db ?s) ''carl'' = None" "6 \<in> set (fds ?s)" by code_simp+
  have n: "length (db_users (srv_db ?s)) = 2" by code_simp
  from n a(7) Login_execute_creates [OF a, of demo_env] show ?thesis by (simp add: Let_def demo_env_def)
qed

section \<open>Before login\<close>

lemma clientAt_setArgs:
  "cl_userUuid (clientAt (setArgs fd as s) k) = cl_userUuid (clientAt s k)"
  "cl_context (clientAt (setArgs fd as s) k) = cl_context (clientAt s k)"
  by (cases "k \<in> set (fds s)";
      simp add: setArgs_def modifyClient_def clientAt_map_clients clientAt_absent frame_simps)+

lemma Send_unauthenticated:
  assumes "server_inv s" and "cl_userUuid (clientAt s fd) = []"
  shows "\<exists>m. Send_execute e fd s = sendToClient m fd s"
proof -
  have "findUser (srv_db s) [] = None"
  proof (rule ccontr)
    assume "findUser (srv_db s) [] \<noteq> None"
    then obtain u where "findUser (srv_db s) [] = Some u" by blast
    then show False using findUser_iff [OF inv_db_ok [OF assms(1)]] user_facts(1) [OF assms(1)] by blast
  qed
  with assms(2) have "send_refusal (srv_db s) (cl_userUuid (clientAt s fd)) (cl_args (clientAt s fd)) \<noteq> None"
    by (simp add: send_refusal_def)
  then show ?thesis by (auto simp: Send_execute_outcome Let_def)
qed

text \<open>C27. On a connection that is not logged in, no line except a \<open>/login\<close> changes the database, the
  log or any session, whatever its arguments; at most a reply to the connection itself is queued.\<close>

theorem unauthenticated_no_effect:
  assumes "server_inv s" and "cl_userUuid (clientAt s fd) = []" and "handleCommand e raw fd s = Inr t"
    and "parseArgs raw = Inr args" and "args = [] \<or> hd args \<noteq> ''/login''"
  shows "srv_db t = srv_db s \<and> srv_log t = srv_log s \<and> sessions t = sessions s"
  using assms(3)
proof (cases rule: handleCommand_cases)
  case (known as f)
  then have as: "as = args" using assms(4) by simp
  let ?s = "setArgs fd args s"
  have s: "server_inv ?s" "cl_userUuid (clientAt ?s fd) = []"
    using assms(1,2) by (simp_all add: frame_simps clientAt_setArgs)
  have fr: "srv_db ?s = srv_db s" "srv_log ?s = srv_log s" "sessions ?s = sessions s"
    by (simp_all add: frame_simps) (simp add: setArgs_def frame_simps)
  show ?thesis
  proof (cases "hd args = ''/send''")
    case True
    then have "f = Send_execute" using known(3) as by (simp add: commands_def)
    with known(4) as Send_unauthenticated [OF s, of e] fr show ?thesis by (auto simp: frame_simps)
  next
    case False
    with known as assms(5) have "authenticated_command f"
      using commands_authenticated command_dispatch by blast
    from authenticated_command.unauthenticated_effect [OF this s(2), of e] known(4) as fr
    show ?thesis by simp
  qed
next
  case (unknown as)
  then show ?thesis by (simp add: frame_simps) (simp add: setArgs_def frame_simps)
qed simp

theorem unauthenticated_no_effect_witness:
  "let s = demo emptyCtx [] in server_inv s \<and>
     (\<exists>t. handleCommand demo_env ''/create x y'' 6 s = Inr t \<and> srv_db t = srv_db s)"
proof -
  let ?s = "demo emptyCtx []"
  have a: "server_inv ?s" "cl_userUuid (clientAt ?s 6) = []" by code_simp+
  have p: "parseArgs ''/create x y'' = Inr [''/create'', ''x'', ''y'']" by code_simp
  obtain t where t: "handleCommand demo_env ''/create x y'' 6 ?s = Inr t"
    using p by (simp add: handleCommand_def commands_def)
  from a(1) t unauthenticated_no_effect [OF a t p] show ?thesis by (auto simp: Let_def)
qed

section \<open>Who may change a team\<close>

text \<open>The channels of the teams, threads and replies included.\<close>

definition content :: "database \<Rightarrow> uuid \<Rightarrow> channel list option" where
  "content db k = map_option team_channels (findTeam db k)"

lemma content_users: "db_teams db' = db_teams db \<Longrightarrow> content db' k = content db k"
  by (simp add: content_def findTeam_def)

lemma content_modifyTeam_other:
  "(\<And>t. team_uuid (f t) = team_uuid t) \<Longrightarrow> k \<noteq> j \<Longrightarrow> content (modifyTeam j f db) k = content db k"
  by (simp add: content_def teams.lookup_modify_other)

lemma content_subscribers:
  "content (modifyTeam j (\<lambda>t. snd (addSubscriber u t)) db) k = content db k"
  "content (modifyTeam j (\<lambda>t. snd (removeSubscriber u t)) db) k = content db k"
  unfolding content_def by (rule teams.modify_invisible; simp add: frame_simps)+

lemma content_pushTeam: "content db k \<noteq> None \<Longrightarrow> content (pushTeam t db) k = content db k"
  by (auto simp: content_def teams.lookup_push)

lemma channel_owner:
  assumes "distinct (channel_ids ts)" and "t \<in> set ts" and "t' \<in> set ts" and "c \<in> chn_uuid ` set (team_channels t)"
    and "c \<in> chn_uuid ` set (team_channels t')"
  shows "t = t'"
proof -
  have sub: "chn_uuid ` set (team_channels t) \<subseteq> set (channel_ids ts)" if "t \<in> set ts" for t ts
    using that by (auto simp: channel_ids_def)
  from assms show ?thesis
  proof (induction ts)
    case (Cons x ts)
    then show ?case using sub [of _ ts] by auto
  qed simp
qed

text \<open>A write to a thread only touches the team that has its channel.\<close>

lemma content_modifyThread:
  assumes "db_ok db" and "findChannel db j c \<noteq> None" and "k \<noteq> j"
  shows "content (modifyThread c th f db) k = content db k"
proof -
  let ?ts = "db_teams db"
  from assms(2) obtain y where y: "findChannel db j c = Some y" by blast
  then obtain tj where tj: "tj \<in> set ?ts" "team_uuid tj = j" "y \<in> set (team_channels tj)" "chn_uuid y = c"
    using findChannel_iff [OF assms(1)] by blast
  have dist: "distinct (channel_ids ?ts)" using assms(1) by (simp add: db_ok_def teams_ok_def)
  have only: "has_channel c t \<longleftrightarrow> t = tj" if "t \<in> set ?ts" for t
    using channel_owner [OF dist that tj(1), of c] tj(3,4) by (auto simp: has_channel_def)
  have "find (\<lambda>t. team_uuid t = k) (update_first (has_channel c) (modifyThread_team c th f) ts) =
      find (\<lambda>t. team_uuid t = k) ts" if "set ts \<subseteq> set ?ts" for ts
    using that only tj(2) assms(3) by (induction ts) (auto simp: modifyThread_team_def)
  then show ?thesis by (simp add: content_def findTeam_def modifyThread_def)
qed

lemma db_teams_session:
  "db_teams (srv_db (Login_execute e fd s)) = db_teams (srv_db s)"
  "db_teams (srv_db (Logout_execute e fd s)) = db_teams (srv_db s)"
  "db_teams (srv_db (Send_execute e fd s)) = db_teams (srv_db s)"
  by (simp_all add: Login_execute_def createNewUser_def logUserIn_def Logout_execute_def Send_execute_def Let_def
      frame_simps split: option.split)

lemma content_subscription:
  "content (srv_db (Subscribe_execute e fd s)) k = content (srv_db s) k"
  "content (srv_db (Unsubscribe_execute e fd s)) k = content (srv_db s) k"
  by (simp_all add: Subscribe_execute_def Unsubscribe_execute_def Let_def frame_simps content_subscribers
      split: option.split)

lemma content_not_create:
  assumes "(n, f) \<in> set commands" and "n \<noteq> ''/create''"
  shows "content (srv_db (f e fd s)) k = content (srv_db s) k"
  using assms unfolding commands_def
  by (auto simp: ids_answers content_subscription content_users [OF db_teams_session(1)]
      content_users [OF db_teams_session(2)] content_users [OF db_teams_session(3)])

lemma accessible_subscribed:
  "findAccessibleTeam fd k s = Inr t \<Longrightarrow> findTeam (srv_db s) k = Some t \<and> isUserSubscribed t (cl_userUuid (clientAt s fd))"
  by (auto simp: findAccessibleTeam_def split: option.splits if_splits)

lemma content_create:
  assumes "server_inv s" and "content (srv_db s) k \<noteq> None"
    and "content (srv_db (Create_execute e fd s)) k \<noteq> content (srv_db s) k"
  shows "\<exists>t. findTeam (srv_db s) k = Some t \<and> isUserSubscribed t (cl_userUuid (clientAt s fd))"
proof -
  let ?x = "cl_context (clientAt s fd)"
  have team: "content (srv_db (Create_executeTeam e fd s)) k = content (srv_db s) k"
    using assms(2) by (simp add: Create_executeTeam_def Let_def frame_simps content_pushTeam)
  have chan: "content (srv_db (Create_executeChannel e fd s)) k = content (srv_db s) k" if "k \<noteq> ctx_teamUuid ?x"
    using that by (simp add: Create_executeChannel_def Let_def frame_simps content_modifyTeam_other split: sum.split)
  have thr: "content (srv_db (Create_executeThread e fd s)) k = content (srv_db s) k" if "k \<noteq> ctx_teamUuid ?x"
    using that by (simp add: Create_executeThread_def Let_def frame_simps modifyChannel_def content_modifyTeam_other
        split: sum.split)
  have rep: "content (srv_db (Create_executeReply e fd s)) k = content (srv_db s) k" if "k \<noteq> ctx_teamUuid ?x"
    using that content_modifyThread [OF inv_db_ok [OF assms(1)], of "ctx_teamUuid ?x" "ctx_channelUuid ?x" k]
    by (cases "findChannelOrSend404 (ctx_teamUuid ?x) (ctx_channelUuid ?x) s")
      (simp_all add: Create_executeReply_def Let_def frame_simps channelOr404_Inr split: sum.split)
  from assms(3) team chan thr rep have k: "k = ctx_teamUuid ?x"
    by (auto simp: Create_execute_def Let_def frame_simps split: if_splits)
  from assms(3) team have "Create_execute e fd s \<in> {Create_executeChannel e fd s, Create_executeThread e fd s,
      Create_executeReply e fd s}"
    by (auto simp: Create_execute_def Let_def frame_simps split: if_splits)
  then have "\<exists>t. findAccessibleTeam fd k s = Inr t"
    using assms(3) unfolding k
    by (cases "findAccessibleTeam fd (ctx_teamUuid ?x) s")
      (auto simp: Create_executeChannel_def Create_executeThread_def Create_executeReply_def Let_def frame_simps)
  then show ?thesis using accessible_subscribed by blast
qed

text \<open>C6. Only a subscriber changes a team: if handling a line changes the channels, threads or replies
  of an existing team, the connection is logged in as a user subscribed to that team.\<close>

theorem only_subscribers_write:
  assumes "server_inv s" and "handleCommand e raw fd s = Inr t" and "findTeam (srv_db s) k = Some x"
    and "map_option team_channels (findTeam (srv_db t) k) \<noteq> Some (team_channels x)"
  shows "isUserSubscribed x (cl_userUuid (clientAt s fd))"
proof -
  have c: "content (srv_db t) k \<noteq> content (srv_db s) k" "content (srv_db s) k \<noteq> None"
    using assms(3,4) by (simp_all add: content_def)
  from assms(2) show ?thesis
  proof (cases rule: handleCommand_cases)
    case (known args f)
    let ?s = "setArgs fd args s"
    have n: "(hd args, f) \<in> set commands" using known(3) command_dispatch by blast
    have db: "srv_db ?s = srv_db s" by (simp add: frame_simps)
    have "hd args = ''/create''"
      using content_not_create [OF n, of e fd ?s k] c(1) known(4) db by auto
    then have "t = Create_execute e fd ?s" using known by (simp add: commands_def)
    moreover have "server_inv ?s" using assms(1) by (simp add: frame_simps)
    ultimately show ?thesis using content_create [of ?s k e fd] c assms(3) db by (auto simp: clientAt_setArgs)
  qed (use c in \<open>simp_all add: frame_simps\<close>)
qed

theorem only_subscribers_write_witness:
  "let s = demo (demo_ctx ''t1'' [] []) [] in server_inv s \<and>
     (\<exists>t. handleCommand demo_env ''/create news all'' 4 s = Inr t \<and>
        map_option team_channels (findTeam (srv_db t) ''t1'') \<noteq> Some (team_channels demo_team)) \<and>
     isUserSubscribed demo_team (cl_userUuid (clientAt s 4))"
proof -
  let ?s = "demo (demo_ctx ''t1'' [] []) []"
  define r where "r = handleCommand demo_env ''/create news all'' 4 ?s"
  have i: "server_inv ?s" "findTeam (srv_db ?s) ''t1'' = Some demo_team" by code_simp+
  have "case r of Inl x \<Rightarrow> False
      | Inr t \<Rightarrow> map_option team_channels (findTeam (srv_db t) ''t1'') \<noteq> Some (team_channels demo_team)"
    unfolding r_def by code_simp
  then obtain t where t: "r = Inr t"
    and d: "map_option team_channels (findTeam (srv_db t) ''t1'') \<noteq> Some (team_channels demo_team)"
    by (cases r) auto
  have h: "handleCommand demo_env ''/create news all'' 4 ?s = Inr t" using t by (simp only: r_def)
  from only_subscribers_write [OF i(1) h i(2) d] h d i(1) show ?thesis by (auto simp: Let_def)
qed

section \<open>Creation and its announcement\<close>

lemma writeBufferAt_frames:
  "writeBufferAt (modifyDb g s) k = writeBufferAt s k" "writeBufferAt (logEvent ev s) k = writeBufferAt s k"
  by (simp_all add: writeBufferAt_def frame_simps)

text \<open>C28. An accepted \<open>/create\<close> in a team context appends exactly one channel, with the generated
  identifier, to that team; the author is answered with it, and every connection of a subscriber of
  the team, and no other connection, is sent the event. Arguments after the description are ignored.\<close>

theorem Create_executeChannel_announces:
  assumes "cl_userUuid (clientAt s fd) \<noteq> []" and "cl_context (clientAt s fd) = \<lparr>ctx_teamUuid = tu, ctx_channelUuid = [], ctx_threadUuid = h\<rparr>"
    and "tu \<noteq> []" and "findTeam (srv_db s) tu = Some team" and "isUserSubscribed team (cl_userUuid (clientAt s fd))"
    and "cl_args (clientAt s fd) = cmd # name # desc # extra" and "name \<noteq> []" and "length name \<le> 32"
    and "desc \<noteq> []" and "length desc \<le> 255" and "name \<notin> chn_name ` set (team_channels team)" and "k \<in> set (fds s)"
  shows "let c = \<lparr>chn_uuid = env_uuid e, chn_name = name, chn_description = desc, chn_threads = []\<rparr>;
      t = Create_execute e fd s in
    findTeam (srv_db t) tu = Some (team\<lparr>team_channels := team_channels team @ [c]\<rparr>) \<and>
    writeBufferAt t k = writeBufferAt s k @ (if k = fd then ''201 CREATED CHANNEL '' @ channelFields c else []) @
      (if cl_userUuid (clientAt s k) \<noteq> [] \<and> isUserSubscribed team (cl_userUuid (clientAt s k))
       then ''EVENT CHANNEL_CREATED '' @ channelFields c else [])"
proof -
  define c where "c = \<lparr>chn_uuid = env_uuid e, chn_name = name, chn_description = desc, chn_threads = []\<rparr>"
  define db where "db = modifyTeam tu (\<lambda>t. t\<lparr>team_channels := team_channels t @ [c]\<rparr>) (srv_db s)"
  have f: "findTeam db tu = Some (team\<lparr>team_channels := team_channels team @ [c]\<rparr>)"
    by (simp add: db_def teams.lookup_modify_same assms(4))
  have t: "Create_execute e fd s = emitChannelCreated fd tu c (modifyDb (\<lambda>_. db) s)"
  proof -
    have "\<not> (\<exists>x \<in> set (team_channels team). chn_name x = name)" using assms(11) by auto
    then show ?thesis using assms(1-10)
      by (simp add: Create_execute_def Create_executeChannel_def findAccessibleTeam_def Let_def isInvalidLength_def
          MAX_NAME_LENGTH_def MAX_DESCRIPTION_LENGTH_def newChannel_def c_def db_def modifyDb_def)
  qed
  have sub: "isUserSubscribed (team\<lparr>team_channels := cs\<rparr>) u = isUserSubscribed team u" for cs u
    by (simp add: isUserSubscribed_def)
  have "writeBufferAt (Create_execute e fd s) k = writeBufferAt s k @
      (if k = fd then ''201 CREATED CHANNEL '' @ channelFields c else []) @
      (if cl_userUuid (clientAt s k) \<noteq> [] \<and> isUserSubscribed team (cl_userUuid (clientAt s k))
       then ''EVENT CHANNEL_CREATED '' @ channelFields c else [])"
    unfolding t emitChannelCreated_def Let_def using assms(3,12) f
    by (simp add: notifySubscribers_deliver sendToClient_deliver writeBufferAt_deliver writeBufferAt_frames
        frame_simps sub)
  moreover have "findTeam (srv_db (Create_execute e fd s)) tu = Some (team\<lparr>team_channels := team_channels team @ [c]\<rparr>)"
    unfolding t by (simp add: frame_simps f)
  ultimately show ?thesis unfolding Let_def c_def [symmetric] by blast
qed

theorem Create_executeChannel_announces_witness:
  "let s = demo (demo_ctx ''t1'' [] []) [''/create'', ''news'', ''all the news''];
     c = \<lparr>chn_uuid = ''n1'', chn_name = ''news'', chn_description = ''all the news'', chn_threads = []\<rparr> in
     findTeam (srv_db (Create_execute demo_env 4 s)) ''t1'' = Some (demo_team\<lparr>team_channels := [demo_channel, c]\<rparr>) \<and>
     writeBufferAt (Create_execute demo_env 4 s) 5 = writeBufferAt s 5"
proof -
  let ?s = "demo (demo_ctx ''t1'' [] []) [''/create'', ''news'', ''all the news'']"
  have a: "cl_userUuid (clientAt ?s 4) \<noteq> []"
    "cl_context (clientAt ?s 4) = \<lparr>ctx_teamUuid = ''t1'', ctx_channelUuid = [], ctx_threadUuid = []\<rparr>"
    "''t1'' \<noteq> []" "findTeam (srv_db ?s) ''t1'' = Some demo_team" "isUserSubscribed demo_team (cl_userUuid (clientAt ?s 4))"
    "cl_args (clientAt ?s 4) = [''/create'', ''news'', ''all the news'']" "''news'' \<noteq> []" "length ''news'' \<le> 32"
    "''all the news'' \<noteq> []" "length ''all the news'' \<le> 255" "''news'' \<notin> chn_name ` set (team_channels demo_team)"
    "5 \<in> set (fds ?s)" by code_simp+
  have b: "\<not> isUserSubscribed demo_team (cl_userUuid (clientAt ?s 5))" by code_simp
  have d: "team_channels demo_team = [demo_channel]" by code_simp
  show ?thesis using Create_executeChannel_announces [OF a, of demo_env] b d by (simp add: Let_def demo_env_def)
qed

section \<open>Navigation\<close>

text \<open>C29. \<open>/use\<close> of a logged-in connection, on every branch: the three staged checks answer and install
  exactly what the flat specification says. A level that fails leaves the old context in place, but
  the \<open>200 OK\<close> of the levels before it has already been queued in front of the error.\<close>

theorem Use_execute_spec:
  assumes "cl_userUuid (clientAt s fd) \<noteq> []" and "cl_args (clientAt s fd) = args"
  shows "Use_execute e fd s =
    (if length args > 4 then sendToClient R400 fd s
     else if length args < 2 then setContext fd emptyCtx (sendToClient R200 fd s)
     else case findTeam (srv_db s) (args ! 1) of
       None \<Rightarrow> sendToClient (notFoundTeam (args ! 1)) fd s
     | Some t \<Rightarrow>
         if \<not> isUserSubscribed t (cl_userUuid (clientAt s fd)) then sendToClient R403 fd s
         else if length args \<ge> 3 \<and> findChannel (srv_db s) (args ! 1) (args ! 2) = None
         then sendToClient (R200 @ notFoundChannel (args ! 2)) fd s
         else if length args = 4 \<and> findThread (srv_db s) (args ! 2) (args ! 3) = None
         then sendToClient (R200 @ R200 @ notFoundThread (args ! 3)) fd s
         else setContext fd (use_ctx args) (sendToClient (concat (replicate (length args - 1) R200)) fd s))"
proof -
  consider "length args > 4" | "length args < 2" | "length args = 2" | "length args = 3" | "length args = 4"
    by linarith
  then show ?thesis unfolding Use_execute_outcome [OF assms(1)] assms(2)
    by cases (simp_all add: use_outcome_def use_ctx_def emptyCtx_def numeral_2_eq_2 numeral_3_eq_3 split: option.split)
qed

theorem Use_execute_spec_witness:
  "let s = demo emptyCtx [''/use'', ''t1'', ''zz''] in
     Use_execute demo_env 4 s = sendToClient (R200 @ notFoundChannel ''zz'') 4 s"
proof -
  let ?s = "demo emptyCtx [''/use'', ''t1'', ''zz'']"
  have a: "cl_userUuid (clientAt ?s 4) \<noteq> []" "cl_args (clientAt ?s 4) = [''/use'', ''t1'', ''zz'']" by code_simp+
  have b: "findTeam (srv_db ?s) ''t1'' = Some demo_team" "isUserSubscribed demo_team (cl_userUuid (clientAt ?s 4))"
    "findChannel (srv_db ?s) ''t1'' ''zz'' = None" by code_simp+
  from Use_execute_spec [OF a, of demo_env] b show ?thesis by (simp add: Let_def)
qed

section \<open>Subscriptions\<close>

text \<open>Subscribing to a team and unsubscribing again restores the list of subscribers, and so the
  database, when the user was not subscribed.\<close>

theorem subscribe_unsubscribe_roundtrip:
  assumes "cl_userUuid (clientAt s fd) \<noteq> []" and "cl_args (clientAt s fd) = [cmd, k]" and "k \<noteq> []"
    and "findTeam (srv_db s) k = Some t" and "\<not> isUserSubscribed t (cl_userUuid (clientAt s fd))"
  shows "findTeam (srv_db (Subscribe_execute e fd s)) k =
      Some (t\<lparr>team_subscriberUuids := team_subscriberUuids t @ [cl_userUuid (clientAt s fd)]\<rparr>) \<and>
    srv_db (Unsubscribe_execute e' fd (Subscribe_execute e fd s)) = srv_db s"
proof -
  let ?u = "cl_userUuid (clientAt s fd)" and ?t = "Subscribe_execute e fd s"
  have db: "srv_db ?t = modifyTeam k (\<lambda>x. snd (addSubscriber ?u x)) (srv_db s)"
    using assms by (simp add: Subscribe_execute_def Let_def frame_simps)
  have cl: "cl_userUuid (clientAt ?t fd) = ?u" "cl_args (clientAt ?t fd) = [cmd, k]"
    using assms by (simp_all add: Subscribe_execute_def Let_def delivery_defs frame_simps)
  have add: "snd (addSubscriber ?u t) = t\<lparr>team_subscriberUuids := team_subscriberUuids t @ [?u]\<rparr>"
    using assms(5) by (simp add: addSubscriber_def)
  have f: "findTeam (srv_db ?t) k = Some (snd (addSubscriber ?u t))"
    unfolding db by (simp add: teams.lookup_modify_same frame_simps assms(4))
  have db2: "srv_db (Unsubscribe_execute e' fd ?t) = modifyTeam k (\<lambda>x. snd (removeSubscriber ?u x)) (srv_db ?t)"
    using assms(1,3) cl f by (simp add: Unsubscribe_execute_def Let_def frame_simps)
  have undo: "snd (removeSubscriber ?u (snd (addSubscriber ?u t))) = t"
  proof -
    have "filter (\<lambda>v. v \<noteq> ?u) (team_subscriberUuids t) = team_subscriberUuids t"
      using assms(5) by (intro filter_True) (auto simp: isUserSubscribed_def)
    then show ?thesis unfolding add by (simp add: removeSubscriber_def Let_def)
  qed
  have first: "update_first P g ts = ts" if "find P ts = Some t" "g t = t" for P and g :: "team \<Rightarrow> team" and ts
    using that by (induction ts) (auto split: if_splits)
  have "update_first (\<lambda>x. team_uuid x = k) (\<lambda>x. snd (removeSubscriber ?u (snd (addSubscriber ?u x)))) (db_teams (srv_db s))
      = db_teams (srv_db s)"
    by (rule first) (use assms(4) undo in \<open>simp_all add: findTeam_def\<close>)
  then have "srv_db (Unsubscribe_execute e' fd ?t) = srv_db s"
    unfolding db2 db by (simp add: modifyTeam_def update_first_twice frame_simps)
  with f add show ?thesis by simp
qed

theorem subscribe_unsubscribe_roundtrip_witness:
  "let s = setArgs 5 [''/subscribe'', ''t1''] (demo emptyCtx []) in
     findTeam (srv_db (Subscribe_execute demo_env 5 s)) ''t1'' = Some (demo_team\<lparr>team_subscriberUuids := [''u1'', ''u2'']\<rparr>) \<and>
     srv_db (Unsubscribe_execute demo_env 5 (Subscribe_execute demo_env 5 s)) = srv_db s"
proof -
  let ?s = "setArgs 5 [''/subscribe'', ''t1''] (demo emptyCtx [])"
  have a: "cl_userUuid (clientAt ?s 5) \<noteq> []" "cl_args (clientAt ?s 5) = [''/subscribe'', ''t1'']" "''t1'' \<noteq> []"
    "findTeam (srv_db ?s) ''t1'' = Some demo_team" "\<not> isUserSubscribed demo_team (cl_userUuid (clientAt ?s 5))"
    by code_simp+
  have b: "cl_userUuid (clientAt ?s 5) = ''u2''" "team_subscriberUuids demo_team = [''u1'']" by code_simp+
  from subscribe_unsubscribe_roundtrip [OF a, of demo_env demo_env] b show ?thesis by (simp add: Let_def)
qed

end
