(* ===== verification/Chat_View.thy ===== *)
theory Chat_View
  imports Chat_Spec Command_Specs
begin

text \<open>
  The state of the server seen as a chat of \<open>Chat_Spec\<close>: the abstraction function, and how each write
  the commands make to the database looks through it.
\<close>

section \<open>The abstraction\<close>

definition online :: "server \<Rightarrow> fd \<rightharpoonup> uuid" where
  "online s k = (let u = cl_userUuid (clientAt s k) in if u = [] then None else Some u)"

definition names :: "database \<Rightarrow> uuid \<rightharpoonup> string" where
  "names db u = map_option usr_name (findUser db u)"

definition post_of :: "thread \<Rightarrow> post" where
  "post_of z = \<lparr>post_author = thr_userUuid z, post_time = thr_timestamp z, post_title = thr_title z,
     post_body = thr_body z\<rparr>"

definition chat_db :: "database \<Rightarrow> (fd \<rightharpoonup> uuid) \<Rightarrow> chat" where
  "chat_db db on = \<lparr>ch_names = names db, ch_online = on, ch_talk = conv db,
     ch_members = (\<lambda>t. case findTeam db t of None \<Rightarrow> {} | Some x \<Rightarrow> set (team_subscriberUuids x)),
     ch_teams = (\<lambda>t. map_option (\<lambda>x. (team_name x, team_description x)) (findTeam db t)),
     ch_channels = (\<lambda>(t, c). map_option (\<lambda>y. (chn_name y, chn_description y)) (findChannel db t c)),
     ch_threads = (\<lambda>(c, h). map_option post_of (findThread db c h)),
     ch_replies = (\<lambda>(c, h). case findThread db c h of None \<Rightarrow> [] | Some z \<Rightarrow> thr_replies z)\<rparr>"

definition chat_of :: "server \<Rightarrow> chat" where
  "chat_of s = chat_db (srv_db s) (online s)"

lemma chat_db_simps [simp]:
  "ch_names (chat_db db on) = names db" "ch_online (chat_db db on) = on" "ch_talk (chat_db db on) = conv db"
  "ch_members (chat_db db on) t = (case findTeam db t of None \<Rightarrow> {} | Some x \<Rightarrow> set (team_subscriberUuids x))"
  "ch_teams (chat_db db on) t = map_option (\<lambda>x. (team_name x, team_description x)) (findTeam db t)"
  "ch_channels (chat_db db on) (t, c) = map_option (\<lambda>y. (chn_name y, chn_description y)) (findChannel db t c)"
  "ch_threads (chat_db db on) (c, h) = map_option post_of (findThread db c h)"
  "ch_replies (chat_db db on) (c, h) = (case findThread db c h of None \<Rightarrow> [] | Some z \<Rightarrow> thr_replies z)"
  by (simp_all add: chat_db_def)

lemma chat_db_eqI:
  assumes "names db = ch_names C" and "on = ch_online C" and "conv db = ch_talk C"
    and "\<And>t. ch_members (chat_db db on) t = ch_members C t" and "\<And>t. ch_teams (chat_db db on) t = ch_teams C t"
    and "\<And>t c. ch_channels (chat_db db on) (t, c) = ch_channels C (t, c)"
    and "\<And>c h. ch_threads (chat_db db on) (c, h) = ch_threads C (c, h)"
    and "\<And>c h. ch_replies (chat_db db on) (c, h) = ch_replies C (c, h)"
  shows "chat_db db on = C"
  using assms by (intro chat.equality ext) (auto simp del: chat_db_simps(4-) simp: fun_eq_iff)

lemma online_sessions:
  "online s k = (case map_of (sessions s) k of None \<Rightarrow> None | Some (u, x) \<Rightarrow> if u = [] then None else Some u)"
proof -
  have "map_of (sessions s) k = map_option (\<lambda>c. (cl_userUuid c, cl_context c)) (getClient s k)"
  proof -
    have "map_of (map (\<lambda>(k, c). (k, cl_userUuid c, cl_context c)) xs) k =
        map_option (\<lambda>c. (cl_userUuid c, cl_context c)) (map_of xs k)" for xs
      by (induction xs) auto
    then show ?thesis by (simp add: sessions_def getClient_def)
  qed
  then show ?thesis by (cases "getClient s k") (simp_all add: online_def clientAt_def newClient_def Let_def)
qed

lemma online_same: "sessions t = sessions s \<Longrightarrow> online t = online s"
  by (rule ext) (simp add: online_sessions)

lemma online_set_ctx: "sessions t = set_ctx fd x (sessions s) \<Longrightarrow> online t = online s"
proof -
  have "map_of (set_ctx fd x ss) k = map_option (\<lambda>(u, y). (u, if k = fd then x else y)) (map_of ss k)" for ss k
    by (induction ss) (auto simp: set_ctx_def)
  then show "sessions t = set_ctx fd x (sessions s) \<Longrightarrow> online t = online s"
    by (intro ext) (simp add: online_sessions split: option.split)
qed

lemma online_set_user:
  assumes "fd \<in> set (fds s)" and "sessions t = set_user fd u (sessions s)"
  shows "online t = (online s)(fd := if u = [] then None else Some u)"
proof -
  have m: "map_of (set_user fd u ss) k = map_option (\<lambda>(v, y). (if k = fd then u else v, y)) (map_of ss k)" for ss k
    by (induction ss) (auto simp: set_user_def)
  obtain y where y: "map_of (sessions s) fd = Some y"
    using weak_map_of_SomeI [OF sessions_clientAt [OF assms(1)]] by blast
  have "online t k = (if k = fd then if u = [] then None else Some u else online s k)" for k
  proof (cases "k = fd")
    case True
    then show ?thesis unfolding online_sessions assms(2) m by (simp add: y split_def)
  next
    case False
    have "online t k = online s k"
      unfolding online_sessions assms(2) m by (cases "map_of (sessions s) k") (simp_all add: False split_def)
    then show ?thesis using False by simp
  qed
  then show ?thesis by auto
qed

lemma chat_of_same: "srv_db t = srv_db s \<Longrightarrow> sessions t = sessions s \<Longrightarrow> chat_of t = chat_of s"
  using online_same [of t s] by (simp add: chat_of_def)

section \<open>Writes to the users\<close>

lemma find_update_invisible:
  "(\<And>x. Q (f x) = Q x) \<Longrightarrow> (\<And>x. g (f x) = g x) \<Longrightarrow>
   map_option g (find Q (update_first P f xs)) = map_option g (find Q xs)"
  by (induction xs) auto

lemma conv_option: "conv db a b = (case map_option (\<lambda>x. conversation x b) (findUser db a) of None \<Rightarrow> [] | Some l \<Rightarrow> l)"
  by (simp add: conv_def option.case_eq_if option.map_sel)

lemma chat_db_users:
  assumes "db_teams db' = db_teams db"
  shows "chat_db db' on = (chat_db db on)\<lparr>ch_names := names db', ch_talk := conv db'\<rparr>"
  by (rule chat_db_eqI) (simp_all add: find_frames(3-) [OF assms])

lemma chat_connection:
  assumes "\<And>u. usr_uuid (f u) = usr_uuid u" "\<And>u. usr_name (f u) = usr_name u" "\<And>u. conversation (f u) = conversation u"
  shows "chat_db (db\<lparr>db_users := update_first P f (db_users db)\<rparr>) on = chat_db db on"
proof -
  let ?db = "db\<lparr>db_users := update_first P f (db_users db)\<rparr>"
  have "names ?db = names db"
    by (simp add: fun_eq_iff names_def findUser_def find_update_invisible assms)
  moreover have "conv ?db = conv db"
    by (simp add: fun_eq_iff conv_option findUser_def find_update_invisible assms)
  ultimately show ?thesis
    using chat_db_users [of ?db db on] by (simp add: chat_db_def)
qed

lemmas chat_counter = chat_connection [where f = incrementConnection] chat_connection [where f = decrementConnection]

lemma chat_counters [simp]:
  "chat_db (modifyUser u decrementConnection db) on = chat_db db on"
  "chat_db (modifyUserByName n incrementConnection db) on = chat_db db on"
  by (simp_all add: modifyUser_def modifyUserByName_def chat_counter frame_simps)

lemma chat_pushUser:
  assumes "findUser db (usr_uuid u) = None" and "usr_messages u = []"
  shows "chat_db (pushUser u db) on = (chat_db db on)\<lparr>ch_names := (names db)(usr_uuid u \<mapsto> usr_name u)\<rparr>"
proof -
  have find: "findUser (pushUser u db) k = (if k = usr_uuid u then Some u else findUser db k)" for k
    by (rule users.lookup_push_fresh) (rule assms(1))
  have "names (pushUser u db) = (names db)(usr_uuid u \<mapsto> usr_name u)"
    by (simp add: fun_eq_iff names_def find)
  moreover have "conv (pushUser u db) = conv db"
    using assms by (simp add: fun_eq_iff conv_def find conversation_def)
  ultimately show ?thesis
    using chat_db_users [of "pushUser u db" db on] by (simp add: frame_simps)
qed

lemma chat_exchanged:
  assumes "db_ok db" and "a \<in> set (user_ids db)" and "b \<in> set (user_ids db)"
  shows "chat_db (exchanged a b m db) on = (chat_db db on)\<lparr>ch_talk := say a b m (conv db)\<rparr>"
proof -
  have d: "distinct (user_ids db)" using assms(1) by (simp add: db_ok_def users_ok_def)
  have "names (exchanged a b m db) = names db"
    by (simp add: fun_eq_iff names_def exchanged_users [OF d] findUser_def find_map option.map_comp o_def)
  moreover have "conv (exchanged a b m db) = say a b m (conv db)"
    by (simp add: fun_eq_iff say_def conv_exchanged [OF assms])
  moreover have "db_teams (exchanged a b m db) = db_teams db" by (simp add: exchanged_users [OF d])
  ultimately show ?thesis using chat_db_users [of "exchanged a b m db" db on] by (simp add: chat_db_def)
qed

section \<open>Writes to the teams\<close>

lemma chat_db_teams:
  assumes "db_users db' = db_users db"
  shows "names db' = names db" and "conv db' = conv db"
  using find_frames(1) [OF assms] by (simp_all add: names_def conv_def fun_eq_iff)

lemma find_concat_update:
  "(\<And>t. find Q (g (f t)) = find Q (g t)) \<Longrightarrow>
   find Q (concat (map g (update_first P f ts))) = find Q (concat (map g ts))"
  by (induction ts) (simp_all add: find_append split: option.split)

lemma findThread_modifyTeam:
  assumes "\<And>t. find (\<lambda>y. chn_uuid y = c) (team_channels (f t)) = find (\<lambda>y. chn_uuid y = c) (team_channels t)"
  shows "findThread (modifyTeam k f db) c h = findThread db c h"
  using find_concat_update [where g = team_channels and f = f, OF assms]
  by (simp add: findThread_def findThread_teams_flat modifyTeam_def)

lemma findChannel_modifyTeam:
  assumes "\<And>x. team_uuid (f x) = team_uuid x"
  shows "findChannel (modifyTeam k f db) j c =
    (if j = k then Option.bind (findTeam db k) (\<lambda>x. find (\<lambda>y. chn_uuid y = c) (team_channels (f x)))
     else findChannel db j c)"
  using teams.lookup_modify [OF assms, where s = db and k = k and j = j]
  by (cases "findTeam db k") (simp_all add: findChannel_def)

lemma findChannel_bind: "findChannel db t c = Option.bind (findTeam db t) (\<lambda>x. find (\<lambda>y. chn_uuid y = c) (team_channels x))"
  by (simp add: findChannel_def split: option.split)

lemma chat_subscribers:
  assumes "\<And>x. team_uuid (f x) = team_uuid x" "\<And>x. team_name (f x) = team_name x"
    "\<And>x. team_description (f x) = team_description x" "\<And>x. team_channels (f x) = team_channels x"
    and "findTeam db k = Some t"
  shows "chat_db (modifyTeam k f db) on =
    (chat_db db on)\<lparr>ch_members := (ch_members (chat_db db on))(k := set (team_subscriberUuids (f t)))\<rparr>"
proof -
  have find: "findTeam (modifyTeam k f db) j = (if j = k then Some (f t) else findTeam db j)" for j
    using teams.lookup_modify [OF assms(1), where s = db and k = k and j = j] assms(5) by simp
  have chan: "findChannel (modifyTeam k f db) j c = findChannel db j c" for j c
    unfolding findChannel_modifyTeam [where f = f, OF assms(1)] assms(4) by (simp add: findChannel_bind)
  have thr: "findThread (modifyTeam k f db) c h = findThread db c h" for c h
    by (simp add: findThread_modifyTeam assms(4))
  show ?thesis
    by (rule chat_db_eqI) (simp_all add: find chan thr assms chat_db_teams [of "modifyTeam k f db" db] frame_simps)
qed

lemma chat_pushTeam:
  assumes "findTeam db (team_uuid t) = None" and "team_channels t = []"
  shows "chat_db (pushTeam t db) on = (chat_db db on)\<lparr>
    ch_teams := (ch_teams (chat_db db on))(team_uuid t \<mapsto> (team_name t, team_description t)),
    ch_members := (ch_members (chat_db db on))(team_uuid t := set (team_subscriberUuids t))\<rparr>"
proof -
  have find: "findTeam (pushTeam t db) j = (if j = team_uuid t then Some t else findTeam db j)" for j
    by (rule teams.lookup_push_fresh) (rule assms(1))
  have chan: "findChannel (pushTeam t db) j c = findChannel db j c" for j c
    using assms by (simp add: findChannel_bind find)
  have thr: "findThread (pushTeam t db) c h = findThread db c h" for c h
    using assms(2) by (simp add: findThread_def findThread_teams_flat pushTeam_def)
  show ?thesis
    by (rule chat_db_eqI) (simp_all add: find chan thr chat_db_teams [of "pushTeam t db" db] frame_simps)
qed

section \<open>Writes inside a team\<close>

lemma findThread_Some:
  assumes "findThread db c h = Some z"
  obtains t y where "t \<in> set (db_teams db)" "y \<in> set (team_channels t)" "chn_uuid y = c" "chn_threads y \<noteq> []"
proof (cases "find (\<lambda>y. chn_uuid y = c) (concat (map team_channels (db_teams db)))")
  case None
  with assms show ?thesis by (simp add: findThread_def findThread_teams_flat)
next
  case (Some y)
  with assms have "find (\<lambda>z. thr_uuid z = h) (chn_threads y) = Some z" by (simp add: findThread_def findThread_teams_flat)
  then have "chn_threads y \<noteq> []" by auto
  moreover from find_Some_mem [OF Some] obtain t where "t \<in> set (db_teams db)" "y \<in> set (team_channels t)" "chn_uuid y = c"
    by auto
  ultimately show ?thesis using that by blast
qed

lemma chat_pushChannel:
  assumes "findTeam db k \<noteq> None" and "fresh_uuid (chn_uuid c) db" and "chn_threads c = []"
  shows "chat_db (modifyTeam k (\<lambda>t. t\<lparr>team_channels := team_channels t @ [c]\<rparr>) db) on = (chat_db db on)\<lparr>
    ch_channels := (ch_channels (chat_db db on))((k, chn_uuid c) \<mapsto> (chn_name c, chn_description c))\<rparr>"
proof -
  let ?f = "\<lambda>t. t\<lparr>team_channels := team_channels t @ [c]\<rparr>"
  let ?db = "modifyTeam k ?f db"
  have absent: "chn_uuid c \<notin> chn_uuid ` set (team_channels t)" if "t \<in> set (db_teams db)" for t
    using assms(2) that by (auto simp: fresh_uuid_iff channel_ids_def)
  obtain t where t: "findTeam db k = Some t" using assms(1) by blast
  then have "t \<in> set (db_teams db)" using find_Some_mem by (fastforce simp: findTeam_def)
  then have none: "find (\<lambda>y. chn_uuid y = chn_uuid c) (team_channels t) = None"
    using absent by (simp add: find_key_None)
  have find: "findTeam ?db j = (if j = k then Some (?f t) else findTeam db j)" for j
    using teams.lookup_modify [where s = db and k = k and j = j and f = ?f] t by simp
  have chan: "findChannel ?db j cu = (if j = k \<and> cu = chn_uuid c then Some c else findChannel db j cu)" for j cu
    using none t findChannel_modifyTeam [of ?f k db j cu]
    by (auto simp: find_append findChannel_bind split: option.split)
  have thr: "findThread ?db cu h = findThread db cu h" for cu h
  proof (cases "cu = chn_uuid c")
    case False
    then show ?thesis by (intro findThread_modifyTeam) (simp add: find_append split: option.split)
  next
    case True
    have "findThread db cu h = None"
    proof (rule ccontr)
      assume "findThread db cu h \<noteq> None"
      then obtain z where "findThread db cu h = Some z" by blast
      then obtain t' y where "t' \<in> set (db_teams db)" "y \<in> set (team_channels t')" "chn_uuid y = cu"
        by (rule findThread_Some)
      with absent True show False by (metis image_eqI)
    qed
    moreover have "findThread ?db cu h = None"
    proof (rule ccontr)
      assume "findThread ?db cu h \<noteq> None"
      then obtain z where "findThread ?db cu h = Some z" by blast
      then obtain t' y where y: "t' \<in> set (db_teams ?db)" "y \<in> set (team_channels t')" "chn_uuid y = cu" "chn_threads y \<noteq> []"
        by (rule findThread_Some)
      with set_update_first_subset [of "\<lambda>t. team_uuid t = k" ?f "db_teams db"]
      have "t' \<in> set (db_teams db) \<or> (\<exists>t \<in> set (db_teams db). t' = ?f t)" by (auto simp: modifyTeam_def)
      with y(2) have "y = c \<or> (\<exists>t \<in> set (db_teams db). y \<in> set (team_channels t))" by auto
      with y(3,4) assms(3) absent True show False by (metis image_eqI)
    qed
    ultimately show ?thesis by simp
  qed
  show ?thesis
    by (rule chat_db_eqI) (simp_all add: find chan thr t chat_db_teams [of ?db db] frame_simps)
qed

lemma findChannel_modifyChannel:
  assumes "\<And>y. chn_uuid (g y) = chn_uuid y"
  shows "findChannel (modifyChannel k c g db) j cu = map_option (if j = k \<and> cu = c then g else id) (findChannel db j cu)"
proof -
  let ?f = "\<lambda>x. x\<lparr>team_channels := update_first (\<lambda>y. chn_uuid y = c) g (team_channels x)\<rparr>"
  have "find (\<lambda>y. chn_uuid y = cu) (update_first (\<lambda>y. chn_uuid y = c) g ys) =
      map_option (if cu = c then g else id) (find (\<lambda>y. chn_uuid y = cu) ys)" for ys
    using assms by (cases "cu = c") (simp_all add: find_update_first_same find_update_first_other option.map_id)
  then show ?thesis
    using findChannel_modifyTeam [of ?f k db j cu] unfolding modifyChannel_def
    by (cases "j = k"; cases "findTeam db k") (simp_all add: findChannel_def option.map_id)
qed

lemma find_concat_at:
  assumes "distinct (map key ts)" and "\<And>t. t \<in> set ts \<Longrightarrow> find Q (g t) \<noteq> None \<Longrightarrow> key t = k"
    and "\<And>t. find Q (g (f t)) = map_option G (find Q (g t))"
  shows "find Q (concat (map g (update_first (\<lambda>t. key t = k) f ts))) = map_option G (find Q (concat (map g ts)))"
  using assms(1,2)
proof (induction ts)
  case (Cons t ts)
  show ?case
  proof (cases "key t = k")
    case True
    with Cons.prems(1) have "k \<notin> key ` set ts" by simp
    then have "key t' \<noteq> k" if "t' \<in> set ts" for t' using that by blast
    with Cons.prems(2) have "find Q (g t') = None" if "t' \<in> set ts" for t' using that by force
    then have "find Q (concat (map g ts)) = None" by (induction ts) (auto simp: find_append)
    with True show ?thesis by (simp add: find_append assms(3) split: option.split)
  next
    case False
    with Cons.prems(2) [of t] have "find Q (g t) = None" by (cases "find Q (g t)") auto
    with False Cons show ?thesis by (simp add: find_append)
  qed
qed simp

text \<open>Appending a thread to an existing channel, seen by the search of threads.\<close>

lemma findThread_pushThread:
  fixes z :: thread
  assumes "db_ok db" and "findChannel db k c \<noteq> None"
  defines "db' \<equiv> modifyChannel k c (\<lambda>y. y\<lparr>chn_threads := chn_threads y @ [z]\<rparr>) db"
  shows "findThread db' cu h = (case findThread db cu h of Some z \<Rightarrow> Some z
    | None \<Rightarrow> if cu = c \<and> h = thr_uuid z then Some z else None)"
proof (cases "cu = c")
  case False
  then have "findThread db' cu h = findThread db cu h"
    unfolding db'_def modifyChannel_def
    by (intro findThread_modifyTeam) (simp add: find_update_first_other)
  with False show ?thesis by (simp split: option.split)
next
  case True
  let ?g = "\<lambda>y. y\<lparr>chn_threads := chn_threads y @ [z]\<rparr>"
  let ?ts = "db_teams db"
  obtain y where y: "findChannel db k c = Some y" using assms(2) by blast
  then obtain tk where tk: "tk \<in> set ?ts" "team_uuid tk = k" "y \<in> set (team_channels tk)" "chn_uuid y = c"
    using findChannel_iff [OF assms(1)] by blast
  have dist: "distinct (channel_ids ?ts)" "distinct (map team_uuid ?ts)"
    using assms(1) by (simp_all add: db_ok_def teams_ok_def)
  have at: "team_uuid t = k" if "t \<in> set ?ts" "find (\<lambda>y. chn_uuid y = c) (team_channels t) \<noteq> None" for t
    using channel_owner [OF dist(1) that(1) tk(1), of c] that(2) tk(2-4) by (auto simp: find_key_None)
  have "find (\<lambda>y. chn_uuid y = c) (concat (map team_channels (db_teams db'))) =
      map_option ?g (find (\<lambda>y. chn_uuid y = c) (concat (map team_channels ?ts)))"
    using find_concat_at [where g = team_channels and Q = "\<lambda>y. chn_uuid y = c" and k = k, OF dist(2) at]
    unfolding db'_def modifyChannel_def modifyTeam_def by (simp add: find_update_first_same)
  moreover have "find (\<lambda>y. chn_uuid y = c) (concat (map team_channels ?ts)) \<noteq> None"
    using tk by (auto simp: find_key_None simp del: set_concat) force
  ultimately show ?thesis
    using True by (auto simp: findThread_def findThread_teams_flat find_append split: option.split)
qed

lemma chat_pushThread:
  assumes "db_ok db" and "findChannel db k c \<noteq> None" and "fresh_uuid (thr_uuid z) db" and "thr_replies z = []"
  shows "chat_db (modifyChannel k c (\<lambda>y. y\<lparr>chn_threads := chn_threads y @ [z]\<rparr>) db) on = (chat_db db on)\<lparr>
    ch_threads := (ch_threads (chat_db db on))((c, thr_uuid z) \<mapsto> post_of z)\<rparr>"
proof -
  let ?g = "\<lambda>y. y\<lparr>chn_threads := chn_threads y @ [z]\<rparr>"
  let ?db = "modifyChannel k c ?g db"
  have find: "map_option F (findTeam ?db j) = map_option F (findTeam db j)"
    if "\<And>t xs. F (t\<lparr>team_channels := xs\<rparr>) = F t" for F :: "team \<Rightarrow> 'a" and j
    unfolding modifyChannel_def by (rule teams.modify_invisible) (simp_all add: that)
  have members: "(case findTeam ?db j of None \<Rightarrow> {} | Some x \<Rightarrow> set (team_subscriberUuids x)) =
      (case findTeam db j of None \<Rightarrow> {} | Some x \<Rightarrow> set (team_subscriberUuids x))" for j
    using find [of team_subscriberUuids j] by (cases "findTeam db j"; cases "findTeam ?db j") simp_all
  have chan: "findChannel ?db j cu = map_option (if j = k \<and> cu = c then ?g else id) (findChannel db j cu)" for j cu
    by (rule findChannel_modifyChannel) simp
  have none: "findThread db c (thr_uuid z) = None"
  proof (rule ccontr)
    assume "findThread db c (thr_uuid z) \<noteq> None"
    then obtain t y x where "t \<in> set (db_teams db)" "y \<in> set (team_channels t)" "x \<in> set (chn_threads y)" "thr_uuid x = thr_uuid z"
      using findThread_iff [OF assms(1)] by blast
    moreover from this(1-3) have "thr_uuid x \<in> set (thread_ids (db_teams db))" by (auto simp: thread_ids_def)
    ultimately show False using assms(3) by (simp add: fresh_uuid_iff)
  qed
  have thr: "findThread ?db cu h = (if cu = c \<and> h = thr_uuid z then Some z else findThread db cu h)" for cu h
    using none unfolding findThread_pushThread [OF assms(1,2)] by (auto split: option.split)
  have users: "db_users ?db = db_users db" by (simp add: frame_simps)
  show ?thesis
    by (rule chat_db_eqI)
      (use none assms(4) in \<open>simp_all add: find members chan thr chat_db_teams [OF users] option.map_comp o_def\<close>)
qed

lemma findThread_modifyThread:
  assumes "\<And>z. thr_uuid (f z) = thr_uuid z"
  shows "findThread (modifyThread c th f db) cu h =
    map_option (if cu = c \<and> h = th then f else id) (findThread db cu h)"
proof -
  let ?F = "\<lambda>y. y\<lparr>chn_threads := update_first (\<lambda>z. thr_uuid z = th) f (chn_threads y)\<rparr>"
  have inner: "find (\<lambda>z. thr_uuid z = k) (update_first (\<lambda>z. thr_uuid z = th) f zs) =
      map_option (if k = th then f else id) (find (\<lambda>z. thr_uuid z = k) zs)" for k zs
    using assms by (cases "k = th") (simp_all add: find_update_first_same find_update_first_other option.map_id)
  have ch: "find (\<lambda>y. chn_uuid y = k) (update_first (\<lambda>y. chn_uuid y = c) ?F ys) =
      map_option (if k = c then ?F else id) (find (\<lambda>y. chn_uuid y = k) ys)" for k ys
    by (cases "k = c") (simp_all add: find_update_first_same find_update_first_other option.map_id)
  have "find (\<lambda>y. chn_uuid y = cu) (concat (map team_channels (update_first (has_channel c) (modifyThread_team c th f) ts))) =
      map_option (if cu = c then ?F else id) (find (\<lambda>y. chn_uuid y = cu) (concat (map team_channels ts)))" for ts
  proof (induction ts)
    case (Cons t ts)
    have "\<not> has_channel c t \<Longrightarrow> find (\<lambda>y. chn_uuid y = c) (team_channels t) = None"
      by (simp add: has_channel_def find_key_None)
    moreover have "has_channel c t \<Longrightarrow> find (\<lambda>y. chn_uuid y = c) (team_channels t) \<noteq> None"
      by (simp add: has_channel_def find_key_None)
    ultimately show ?case using Cons
      by (cases "cu = c"; cases "has_channel c t")
        (auto simp: find_append modifyThread_team_def ch option.map_id option.map_ident split: option.split)
  qed simp
  then show ?thesis
    by (cases "cu = c") (auto simp: findThread_def findThread_teams_flat modifyThread_def inner option.map_id split: option.split)
qed

lemma chat_pushReply:
  assumes "findThread db c h \<noteq> None"
  shows "chat_db (modifyThread c h (\<lambda>z. z\<lparr>thr_replies := thr_replies z @ [r]\<rparr>) db) on = (chat_db db on)\<lparr>
    ch_replies := (ch_replies (chat_db db on))((c, h) := ch_replies (chat_db db on) (c, h) @ [r])\<rparr>"
proof -
  let ?f = "\<lambda>z. z\<lparr>thr_replies := thr_replies z @ [r]\<rparr>"
  let ?db = "modifyThread c h ?f db"
  have thr: "findThread ?db cu hu = map_option (if cu = c \<and> hu = h then ?f else id) (findThread db cu hu)" for cu hu
    by (rule findThread_modifyThread) simp
  have find: "map_option F (findTeam ?db j) = map_option F (findTeam db j)"
    if "\<And>t. F (modifyThread_team c h ?f t) = F t" for F :: "team \<Rightarrow> 'a" and j
    using that by (simp add: findTeam_def modifyThread_def find_update_invisible modifyThread_team_def)
  have members: "(case findTeam ?db j of None \<Rightarrow> {} | Some x \<Rightarrow> set (team_subscriberUuids x)) =
      (case findTeam db j of None \<Rightarrow> {} | Some x \<Rightarrow> set (team_subscriberUuids x))" for j
    using find [of team_subscriberUuids j] by (cases "findTeam db j"; cases "findTeam ?db j") (simp_all add: modifyThread_team_def)
  have teams: "map_option (\<lambda>x. (team_name x, team_description x)) (findTeam ?db j) =
      map_option (\<lambda>x. (team_name x, team_description x)) (findTeam db j)" for j
    by (rule find) (simp add: modifyThread_team_def)
  define G where "G = (\<lambda>cu (x :: team). map_option (\<lambda>y. (chn_name y, chn_description y)) (find (\<lambda>y. chn_uuid y = cu) (team_channels x)))"
  have "G cu (modifyThread_team c h ?f t) = G cu t" for cu t
    by (simp add: G_def modifyThread_team_def find_update_invisible)
  then have eq: "map_option (G cu) (findTeam ?db j) = map_option (G cu) (findTeam db j)" for cu j by (rule find)
  have chan: "map_option (\<lambda>y. (chn_name y, chn_description y)) (findChannel ?db j cu) =
      map_option (\<lambda>y. (chn_name y, chn_description y)) (findChannel db j cu)" for j cu
    using eq [of cu j] by (cases "findTeam ?db j"; cases "findTeam db j") (simp_all add: findChannel_def G_def)
  have users: "db_users ?db = db_users db" by (simp add: frame_simps)
  show ?thesis
    by (rule chat_db_eqI)
      (use assms in \<open>auto simp: members teams chan thr chat_db_teams [OF users] option.map_comp post_of_def split: option.split\<close>)
qed

end
