(* ===== verification/Chat_Refinement.thy ===== *)
theory Chat_Refinement
  imports Chat_View Loop_Inv
begin

text \<open>
  The server implements the chat of \<open>Chat_Spec\<close>: a locale for the commands whose effect is at most one
  chat step, interpreted on all thirteen, and the simulation of the event loop: lines, disconnections,
  and every reachable state.
\<close>

section \<open>Guards\<close>

lemma ch_new_fresh:
  assumes "db_ok db" and "fresh_uuid v db"
  shows "ch_new v (chat_db db on)"
proof -
  have n: "findUser db v = None" using assms(2) findUser_in [of db v] by (simp add: fresh_uuid_iff)
  have t: "findTeam db v = None" using assms(2) by (simp add: findTeam_def find_key_None fresh_uuid_iff)
  have c: "findChannel db k v = None" for k
  proof (rule ccontr)
    assume "findChannel db k v \<noteq> None"
    then obtain t y where "t \<in> set (db_teams db)" "y \<in> set (team_channels t)" "chn_uuid y = v"
      using findChannel_iff [OF assms(1)] by blast
    then have "v \<in> set (channel_ids (db_teams db))" by (auto simp: channel_ids_def)
    then show False using assms(2) by (simp add: fresh_uuid_iff)
  qed
  have h: "findThread db k v = None" for k
  proof (rule ccontr)
    assume "findThread db k v \<noteq> None"
    then obtain t y z where "t \<in> set (db_teams db)" "y \<in> set (team_channels t)" "z \<in> set (chn_threads y)" "thr_uuid z = v"
      using findThread_iff [OF assms(1)] by blast
    then have "v \<in> set (thread_ids (db_teams db))" by (auto simp: thread_ids_def)
    then show False using assms(2) by (simp add: fresh_uuid_iff)
  qed
  have path: "v \<notin> snd ` dom f" if "\<And>k. f (k, v) = None" for f :: "uuid \<times> uuid \<rightharpoonup> 'b"
    using that by (auto simp: domIff)
  have "v \<notin> snd ` dom (ch_channels (chat_db db on))" "v \<notin> snd ` dom (ch_threads (chat_db db on))"
    by (rule path; simp add: c h)+
  then have "v \<notin> ch_ids (chat_db db on)"
    by (simp add: ch_ids_def domIff names_def n t)
  then show ?thesis using assms(2) by (simp add: ch_new_def fresh_uuid_iff)
qed

lemma names_dom: "names db u \<noteq> None \<longleftrightarrow> u \<in> set (user_ids db)"
  using findUser_in [of db u] by (simp add: names_def)

lemma names_ran: "n \<in> ran (names db) \<Longrightarrow> n \<in> usr_name ` set (db_users db)"
  by (auto simp: names_def ran_def findUser_def dest!: find_Some_mem)

lemma teams_ran: "n \<in> fst ` ran (ch_teams (chat_db db on)) \<Longrightarrow> \<exists>t \<in> set (db_teams db). team_name t = n"
  by (auto simp: ran_def findTeam_def dest!: find_Some_mem)

lemma online_user: "cl_userUuid (clientAt s fd) \<noteq> [] \<Longrightarrow> online s fd = Some (cl_userUuid (clientAt s fd))"
  by (simp add: online_def)

section \<open>Each command is at most one step\<close>

lemma at_most_one: "chat_step C D \<Longrightarrow> chat_step\<^sup>=\<^sup>= C D"
  by simp

lemma simulates_same: "srv_db t = srv_db s \<Longrightarrow> sessions t = sessions s \<Longrightarrow> chat_step\<^sup>=\<^sup>= (chat_of s) (chat_of t)"
  using chat_of_same [of t s] by simp

lemma chat_of_write: "srv_db t = db \<Longrightarrow> sessions t = sessions s \<Longrightarrow> chat_of t = chat_db db (online s)"
  using online_same [of t s] by (simp add: chat_of_def)

lemma sessions_answers:
  "sessions (UsersCommand_execute e fd s) = sessions s" "sessions (UserCommand_execute e fd s) = sessions s"
  "sessions (Messages_execute e fd s) = sessions s" "sessions (Subscribed_execute e fd s) = sessions s"
  "sessions (List_execute e fd s) = sessions s" "sessions (Info_execute e fd s) = sessions s"
  subgoal by (simp add: UsersCommand_execute_def Let_def fold_sendToClient frame_simps)
  subgoal by (simp add: UserCommand_execute_def Let_def frame_simps split: option.split)
  subgoal by (simp add: Messages_execute_def Let_def fold_sendMessageLine frame_simps split: option.split)
  subgoal by (simp add: Subscribed_execute_def listAllTeams_def listSubscribedUsers_def Let_def
      fold_sendToClient_if fold_sendToClient_option frame_simps split: option.split)
  subgoal by (simp add: List_execute_def List_executeReply_def List_executeThread_def List_executeChannel_def
      List_executeTeam_def Let_def fold_sendToClient frame_simps split: option.split)
  subgoal by (simp add: Info_execute_def Info_executeTeam_def Info_executeChannel_def Info_executeThread_def
      Info_executeUser_def Let_def frame_simps split: option.split)
  done

lemma simulates_answers:
  "chat_step\<^sup>=\<^sup>= (chat_of s) (chat_of (UsersCommand_execute e fd s))"
  "chat_step\<^sup>=\<^sup>= (chat_of s) (chat_of (UserCommand_execute e fd s))"
  "chat_step\<^sup>=\<^sup>= (chat_of s) (chat_of (Messages_execute e fd s))"
  "chat_step\<^sup>=\<^sup>= (chat_of s) (chat_of (Subscribed_execute e fd s))"
  "chat_step\<^sup>=\<^sup>= (chat_of s) (chat_of (List_execute e fd s))"
  "chat_step\<^sup>=\<^sup>= (chat_of s) (chat_of (Info_execute e fd s))"
  by (rule simulates_same; simp only: sessions_answers ids_answers)+

lemma simulates_Use: "chat_step\<^sup>=\<^sup>= (chat_of s) (chat_of (Use_execute e fd s))"
proof -
  have "sessions (Use_execute e fd s) = sessions s \<or> (\<exists>x. sessions (Use_execute e fd s) = set_ctx fd x (sessions s))"
    using Use_execute_shape [of e fd s] by (auto simp: frame_simps)
  then have "online (Use_execute e fd s) = online s" using online_same online_set_ctx by blast
  then show ?thesis by (simp add: chat_of_def ids_answers)
qed

lemma simulates_Send:
  assumes "server_inv s" and "exact_time (env_time e)"
  shows "chat_step\<^sup>=\<^sup>= (chat_of s) (chat_of (Send_execute e fd s))"
proof -
  let ?u = "cl_userUuid (clientAt s fd)" and ?as = "cl_args (clientAt s fd)"
  show ?thesis
  proof (cases "send_refusal (srv_db s) ?u ?as")
    case (Some r)
    then show ?thesis by (intro simulates_same) (simp_all add: Send_execute_outcome Let_def frame_simps)
  next
    case None
    note ok = send_refusal_None [OF None]
    have db: "db_ok (srv_db s)" using assms(1) by (rule inv_db_ok)
    have "[] \<notin> set (user_ids (srv_db s))" using db by (auto simp: db_ok_def users_ok_def user_ok_def list_all_iff user_ids_def)
    then have u: "online s fd = Some ?u" using ok by (intro online_user) auto
    have w: "within 512 (?as ! 2)" using None by (auto simp: send_refusal_def within_def split: if_splits)
    have "chat_of (Send_execute e fd s) = chat_db (exchanged ?u (?as ! 1) (sent (env_time e) ?u (?as ! 1) (?as ! 2)) (srv_db s)) (online s)"
      by (rule chat_of_write) (simp_all add: Send_execute_outcome None Let_def frame_simps)
    also have "\<dots> = (chat_of s)\<lparr>ch_talk := say ?u (?as ! 1) (sent (env_time e) ?u (?as ! 1) (?as ! 2)) (ch_talk (chat_of s))\<rparr>"
      using ok by (simp add: chat_exchanged [OF db] chat_of_def)
    finally have eq: "chat_of (Send_execute e fd s) = \<dots>" .
    have "names (srv_db s) (?as ! 1) \<noteq> None" using ok by (simp only: names_dom)
    then have "chat_step (chat_of s) (chat_of (Send_execute e fd s))"
      unfolding eq using u w assms(2) by (intro chat_step.message [where fd = fd]) (simp_all add: chat_of_def)
    then show ?thesis by simp
  qed
qed

lemma chat_of_set_user:
  assumes "fd \<in> set (fds s)" and "sessions t = set_user fd u (sessions s)"
  shows "chat_of t = chat_db (srv_db t) ((online s)(fd := if u = [] then None else Some u))"
  by (simp add: chat_of_def online_set_user [OF assms])

lemma simulates_createNewUser:
  assumes "server_inv s" and "fd \<in> set (fds s)" and "cl_userUuid (clientAt s fd) = []"
    and "fresh_uuid (env_uuid e) (srv_db s)" and "within 32 n" and "findUserByName (srv_db s) n = None"
  shows "chat_step (chat_of s) (chat_of (createNewUser e fd n s))"
proof -
  define u where "u = \<lparr>usr_uuid = env_uuid e, usr_name = n, usr_connectedCount = 1, usr_teams = [], usr_messages = []\<rparr>"
  have db: "srv_db (createNewUser e fd n s) = pushUser u (srv_db s)"
    and ss: "sessions (createNewUser e fd n s) = set_user fd (env_uuid e) (sessions s)"
    by (simp_all add: createNewUser_def Let_def frame_simps u_def incrementConnection_def newUser_def)
  have f: "findUser (srv_db s) (env_uuid e) = None" "env_uuid e \<noteq> []"
    using assms(4) findUser_in [of "srv_db s" "env_uuid e"] by (simp_all add: fresh_uuid_iff)
  have "chat_of (createNewUser e fd n s) = chat_db (pushUser u (srv_db s)) ((online s)(fd \<mapsto> env_uuid e))"
    using chat_of_set_user [OF assms(2) ss] f(2) by (simp add: db)
  also have "\<dots> = (chat_of s)\<lparr>ch_names := (ch_names (chat_of s))(env_uuid e \<mapsto> n),
      ch_online := (ch_online (chat_of s))(fd \<mapsto> env_uuid e)\<rparr>"
    using f(1) by (simp add: chat_pushUser u_def) (simp add: chat_of_def chat_db_def)
  finally have eq: "chat_of (createNewUser e fd n s) = \<dots>" .
  have "n \<notin> ran (names (srv_db s))"
    using assms(6) names_ran [of n "srv_db s"] by (auto simp: findUserByName_def find_key_None)
  then show ?thesis
    unfolding eq using assms(3,5) ch_new_fresh [OF inv_db_ok [OF assms(1)] assms(4)]
    by (intro chat_step.register) (simp_all add: chat_of_def online_def)
qed

lemma simulates_logUserIn:
  assumes "server_inv s" and "fd \<in> set (fds s)" and "cl_userUuid (clientAt s fd) = []"
  shows "chat_step\<^sup>=\<^sup>= (chat_of s) (chat_of (logUserIn fd n s))"
proof (cases "findUserByName (srv_db s) n")
  case None
  then show ?thesis by (intro simulates_same) (simp_all add: logUserIn_def frame_simps)
next
  case (Some u)
  have ok: "db_ok (srv_db s)" by (rule inv_db_ok [OF assms(1)])
  have u: "u \<in> set (db_users (srv_db s))" using Some findUserByName_iff [OF ok] by auto
  then have "usr_uuid u \<noteq> []" using user_facts(1) [OF assms(1)] by blast
  moreover have "names (srv_db s) (usr_uuid u) = Some (usr_name u)"
    using u findUser_iff [OF ok, of "usr_uuid u" u] by (simp add: names_def)
  moreover have db: "srv_db (logUserIn fd n s) = modifyUserByName n incrementConnection (srv_db s)"
    and ss: "sessions (logUserIn fd n s) = set_user fd (usr_uuid u) (sessions s)"
    using Some by (simp_all add: logUserIn_def Let_def frame_simps)
  have "chat_of (logUserIn fd n s) = chat_db (srv_db s) ((online s)(fd := if usr_uuid u = [] then None else Some (usr_uuid u)))"
    using chat_of_set_user [OF assms(2) ss] by (simp add: db)
  ultimately have eq: "chat_of (logUserIn fd n s) = (chat_of s)\<lparr>ch_online := (ch_online (chat_of s))(fd \<mapsto> usr_uuid u)\<rparr>"
    and n: "ch_names (chat_of s) (usr_uuid u) = Some (usr_name u)"
    by (simp_all add: chat_of_def) (simp add: chat_db_def)
  show ?thesis
    unfolding eq using chat_step.login [OF _ n, of fd] assms(3) by (simp add: chat_of_def online_def)
qed

lemma simulates_Login:
  assumes "server_inv s" and "fd \<in> set (fds s)" and "fresh_uuid (env_uuid e) (srv_db s)"
  shows "chat_step\<^sup>=\<^sup>= (chat_of s) (chat_of (Login_execute e fd s))"
proof -
  have "chat_step\<^sup>=\<^sup>= (chat_of s) (chat_of (sendToClient m fd s))" for m
    by (rule simulates_same) (simp_all add: frame_simps)
  then show ?thesis
    using simulates_createNewUser [OF assms(1,2) _ assms(3), THEN at_most_one] simulates_logUserIn [OF assms(1,2)]
    by (simp add: Login_execute_def Let_def within_def MAX_NAME_LENGTH_def del: sup_apply)
qed

lemma leaves:
  assumes "server_inv s" and "cl_userUuid (clientAt s fd) \<noteq> []"
    and "sessions t = set_user fd [] (sessions s)" and "srv_db t = modifyUser u decrementConnection (srv_db s)"
  shows "chat_step (chat_of s) (chat_of t)"
proof -
  have "chat_of t = (chat_of s)\<lparr>ch_online := (ch_online (chat_of s))(fd := None)\<rparr>"
    using chat_of_set_user [OF session_user_known(2) [OF assms(1,2)] assms(3)]
    by (simp add: assms(4)) (simp add: chat_of_def chat_db_def)
  then show ?thesis using chat_step.leave [of "chat_of s" fd] online_user [OF assms(2)] by (simp add: chat_of_def)
qed

lemma simulates_Logout:
  assumes "server_inv s"
  shows "chat_step\<^sup>=\<^sup>= (chat_of s) (chat_of (Logout_execute e fd s))"
proof (cases "cl_userUuid (clientAt s fd) = []")
  case True
  then show ?thesis by (intro simulates_same) (simp_all add: Logout_execute_def frame_simps)
next
  case False
  then obtain x where "findUser (srv_db s) (cl_userUuid (clientAt s fd)) = Some x"
    using session_user_known(1) [OF assms] findUser_in by blast
  with False have "chat_step (chat_of s) (chat_of (Logout_execute e fd s))"
    by (intro leaves [OF assms False, where u = "cl_userUuid (clientAt s fd)"]) (simp_all add: Logout_execute_def Let_def frame_simps)
  then show ?thesis by simp
qed

section \<open>/subscribe and /unsubscribe\<close>

lemma simulates_Subscribe:
  assumes "server_inv s"
  shows "chat_step\<^sup>=\<^sup>= (chat_of s) (chat_of (Subscribe_execute e fd s))"
proof -
  let ?u = "cl_userUuid (clientAt s fd)" and ?k = "cl_args (clientAt s fd) ! 1"
  show ?thesis
  proof (cases "?u \<noteq> [] \<and> length (cl_args (clientAt s fd)) \<ge> 2 \<and> ?k \<noteq> [] \<and>
      (\<exists>t. findTeam (srv_db s) ?k = Some t \<and> \<not> isUserSubscribed t ?u)")
    case False
    then show ?thesis
      by (intro simulates_same) (auto simp: Subscribe_execute_def Let_def frame_simps split: option.split)
  next
    case True
    then obtain t where join: "?u \<noteq> []" "findTeam (srv_db s) ?k = Some t" "\<not> isUserSubscribed t ?u"
        "srv_db (Subscribe_execute e fd s) = modifyTeam ?k (\<lambda>x. snd (addSubscriber ?u x)) (srv_db s)"
        "sessions (Subscribe_execute e fd s) = sessions s"
      by (auto simp: Subscribe_execute_def Let_def frame_simps)
    have "chat_of (Subscribe_execute e fd s) = (chat_of s)\<lparr>ch_members := (ch_members (chat_of s))
        (?k := insert ?u (ch_members (chat_of s) ?k))\<rparr>"
      using chat_of_write [OF join(4,5)] join(2,3)
      by (simp add: chat_subscribers [where t = t] frame_simps chat_of_def addSubscriber_def)
    moreover have "online s fd = Some ?u" using join(1) by (rule online_user)
    ultimately have "chat_step (chat_of s) (chat_of (Subscribe_execute e fd s))"
      using chat_step.join [of "chat_of s" fd ?u ?k] join(2,3) by (simp add: chat_of_def isUserSubscribed_def)
    then show ?thesis by simp
  qed
qed

lemma simulates_Unsubscribe:
  assumes "server_inv s"
  shows "chat_step\<^sup>=\<^sup>= (chat_of s) (chat_of (Unsubscribe_execute e fd s))"
proof -
  let ?u = "cl_userUuid (clientAt s fd)" and ?k = "cl_args (clientAt s fd) ! 1"
  show ?thesis
  proof (cases "?u \<noteq> [] \<and> length (cl_args (clientAt s fd)) \<ge> 2 \<and> ?k \<noteq> [] \<and>
      (\<exists>t. findTeam (srv_db s) ?k = Some t \<and> isUserSubscribed t ?u)")
    case False
    then show ?thesis
      by (intro simulates_same) (auto simp: Unsubscribe_execute_def Let_def frame_simps split: option.split)
  next
    case True
    then obtain t where part: "?u \<noteq> []" "findTeam (srv_db s) ?k = Some t" "isUserSubscribed t ?u"
        "srv_db (Unsubscribe_execute e fd s) = modifyTeam ?k (\<lambda>x. snd (removeSubscriber ?u x)) (srv_db s)"
        "sessions (Unsubscribe_execute e fd s) = sessions s"
      by (auto simp: Unsubscribe_execute_def Let_def frame_simps)
    have "set (team_subscriberUuids (snd (removeSubscriber ?u t))) = set (team_subscriberUuids t) - {?u}"
      using isUserSubscribed_removeSubscriber [of ?u t] unfolding isUserSubscribed_def by blast
    then have "chat_of (Unsubscribe_execute e fd s) = (chat_of s)\<lparr>ch_members := (ch_members (chat_of s))
        (?k := ch_members (chat_of s) ?k - {?u})\<rparr>"
      using chat_of_write [OF part(4,5)] part(2)
      by (simp add: chat_subscribers [where t = t] frame_simps chat_of_def)
    moreover have "online s fd = Some ?u" using part(1) by (rule online_user)
    ultimately have "chat_step (chat_of s) (chat_of (Unsubscribe_execute e fd s))"
      using chat_step.part [of "chat_of s" fd ?u ?k] part(2,3) by (simp add: chat_of_def isUserSubscribed_def)
    then show ?thesis by simp
  qed
qed

section \<open>/create\<close>

lemma simulates_Create_executeTeam:
  assumes "server_inv s" and "fresh_uuid (env_uuid e) (srv_db s)" and u: "cl_userUuid (clientAt s fd) \<noteq> []"
  shows "chat_step\<^sup>=\<^sup>= (chat_of s) (chat_of (Create_executeTeam e fd s))"
proof -
  let ?u = "cl_userUuid (clientAt s fd)" and ?as = "cl_args (clientAt s fd)" and ?C = "chat_of s"
  let ?t = "\<lparr>team_uuid = env_uuid e, team_name = ?as ! 1, team_description = ?as ! 2, team_subscriberUuids = [?u],
    team_channels = []\<rparr>"
  show ?thesis
  proof (cases "length ?as \<ge> 3 \<and> within 32 (?as ! 1) \<and> within 255 (?as ! 2) \<and>
      (\<forall>t \<in> set (db_teams (srv_db s)). team_name t \<noteq> ?as ! 1)")
    case False
    then show ?thesis
      by (intro simulates_same) (auto simp: Create_executeTeam_def Let_def frame_simps limit_defs)
  next
    case True
    have db: "srv_db (Create_executeTeam e fd s) = pushTeam ?t (srv_db s)" "sessions (Create_executeTeam e fd s) = sessions s"
      using True u
      by (auto simp: Create_executeTeam_def Let_def frame_simps limit_defs addSubscriber_def isUserSubscribed_def newTeam_def)
    have "findTeam (srv_db s) (env_uuid e) = None"
      using assms(2) by (simp add: findTeam_def find_key_None fresh_uuid_iff)
    then have eq: "chat_of (Create_executeTeam e fd s) = ?C\<lparr>ch_teams := (ch_teams ?C)(env_uuid e \<mapsto> (?as ! 1, ?as ! 2)),
        ch_members := (ch_members ?C)(env_uuid e := {?u})\<rparr>"
      unfolding chat_of_write [OF db] by (simp add: chat_pushTeam chat_of_def)
    have "?as ! 1 \<notin> fst ` ran (ch_teams ?C)" using True teams_ran unfolding chat_of_def by blast
    then have "chat_step ?C (chat_of (Create_executeTeam e fd s))"
      unfolding eq using True ch_new_fresh [OF inv_db_ok [OF assms(1)] assms(2)] online_user [OF u]
      by (intro chat_step.team [where fd = fd]) (simp_all add: chat_of_def del: chat_db_simps(5))
    then show ?thesis by simp
  qed
qed

lemma simulates_Create_executeChannel:
  assumes "server_inv s" and "fresh_uuid (env_uuid e) (srv_db s)" and u: "cl_userUuid (clientAt s fd) \<noteq> []"
  shows "chat_step\<^sup>=\<^sup>= (chat_of s) (chat_of (Create_executeChannel e fd s))"
proof -
  let ?u = "cl_userUuid (clientAt s fd)" and ?as = "cl_args (clientAt s fd)" and ?C = "chat_of s"
  let ?k = "ctx_teamUuid (cl_context (clientAt s fd))"
  let ?c = "newChannel\<lparr>chn_uuid := env_uuid e, chn_name := ?as ! 1, chn_description := ?as ! 2\<rparr>"
  show ?thesis
  proof (cases "length ?as \<ge> 3 \<and> within 32 (?as ! 1) \<and> within 255 (?as ! 2) \<and>
      (\<exists>t. findAccessibleTeam fd ?k s = Inr t \<and> (\<forall>c \<in> set (team_channels t). chn_name c \<noteq> ?as ! 1))")
    case False
    then show ?thesis
      by (intro simulates_same) (auto simp: Create_executeChannel_def Let_def frame_simps limit_defs split: sum.split)
  next
    case True
    then obtain t where t: "findAccessibleTeam fd ?k s = Inr t" "\<forall>c \<in> set (team_channels t). chn_name c \<noteq> ?as ! 1" by blast
    with True have db: "srv_db (Create_executeChannel e fd s) =
        modifyTeam ?k (\<lambda>t. t\<lparr>team_channels := team_channels t @ [?c]\<rparr>) (srv_db s)"
      "sessions (Create_executeChannel e fd s) = sessions s"
      by (auto simp: Create_executeChannel_def Let_def frame_simps limit_defs)
    have team: "findTeam (srv_db s) ?k = Some t" "?u \<in> set (team_subscriberUuids t)"
      using accessible_subscribed [OF t(1)] by (simp_all add: isUserSubscribed_def)
    then have eq: "chat_of (Create_executeChannel e fd s) =
        ?C\<lparr>ch_channels := (ch_channels ?C)((?k, env_uuid e) \<mapsto> (?as ! 1, ?as ! 2))\<rparr>"
      unfolding chat_of_write [OF db] using assms(2) by (simp add: chat_pushChannel newChannel_def chat_of_def)
    have "findChannel (srv_db s) ?k c = Some y \<Longrightarrow> chn_name y \<noteq> ?as ! 1" for c y
      using t(2) team(1) by (auto simp: findChannel_def dest!: find_Some_mem)
    then have "\<forall>c d. ch_channels ?C (?k, c) \<noteq> Some (?as ! 1, d)" by (auto simp: chat_of_def)
    then have "chat_step ?C (chat_of (Create_executeChannel e fd s))"
      unfolding eq using True ch_new_fresh [OF inv_db_ok [OF assms(1)] assms(2)] online_user [OF u] team
      by (intro chat_step.channel [where fd = fd and u = ?u]) (simp_all add: chat_of_def)
    then show ?thesis by simp
  qed
qed

lemma findThread_channel:
  assumes "db_ok db" and "findChannel db k c = Some y"
  shows "findThread db c h = find (\<lambda>z. thr_uuid z = h) (chn_threads y)"
proof -
  let ?cs = "concat (map team_channels (db_teams db))"
  have d: "distinct (map chn_uuid ?cs)"
    using assms(1) by (simp add: db_ok_def teams_ok_def channel_ids_def map_concat o_def)
  have "y \<in> set ?cs" "chn_uuid y = c" using assms(2) findChannel_iff [OF assms(1)] by auto
  then have "find (\<lambda>y. chn_uuid y = c) ?cs = Some y" using find_key_distinct [OF d, of c y] by blast
  then show ?thesis by (simp add: findThread_def findThread_teams_flat)
qed

lemma simulates_Create_executeThread:
  assumes "server_inv s" and "fresh_uuid (env_uuid e) (srv_db s)" and u: "cl_userUuid (clientAt s fd) \<noteq> []"
    and "exact_time (env_time e)"
  shows "chat_step\<^sup>=\<^sup>= (chat_of s) (chat_of (Create_executeThread e fd s))"
proof -
  let ?u = "cl_userUuid (clientAt s fd)" and ?as = "cl_args (clientAt s fd)" and ?C = "chat_of s"
  let ?k = "ctx_teamUuid (cl_context (clientAt s fd))" and ?c = "ctx_channelUuid (cl_context (clientAt s fd))"
  let ?z = "newThread\<lparr>thr_uuid := env_uuid e, thr_userUuid := ?u, thr_title := ?as ! 1, thr_body := ?as ! 2,
    thr_timestamp := env_time e\<rparr>"
  have ok: "db_ok (srv_db s)" by (rule inv_db_ok [OF assms(1)])
  show ?thesis
  proof (cases "length ?as \<ge> 3 \<and> within 32 (?as ! 1) \<and> within 512 (?as ! 2) \<and>
      (\<exists>t y. findAccessibleTeam fd ?k s = Inr t \<and> findChannelOrSend404 ?k ?c s = Inr y \<and>
        (\<forall>z \<in> set (chn_threads y). thr_title z \<noteq> ?as ! 1))")
    case False
    then show ?thesis
      by (intro simulates_same) (auto simp: Create_executeThread_def Let_def frame_simps limit_defs split: sum.split)
  next
    case True
    then obtain t y where t: "findAccessibleTeam fd ?k s = Inr t" "findChannelOrSend404 ?k ?c s = Inr y"
      "\<forall>z \<in> set (chn_threads y). thr_title z \<noteq> ?as ! 1" by blast
    with True have db: "srv_db (Create_executeThread e fd s) =
        modifyChannel ?k ?c (\<lambda>y. y\<lparr>chn_threads := chn_threads y @ [?z]\<rparr>) (srv_db s)"
      "sessions (Create_executeThread e fd s) = sessions s"
      by (auto simp: Create_executeThread_def Let_def frame_simps limit_defs)
    have team: "findTeam (srv_db s) ?k = Some t" "?u \<in> set (team_subscriberUuids t)"
      using accessible_subscribed [OF t(1)] by (simp_all add: isUserSubscribed_def)
    have chan: "findChannel (srv_db s) ?k ?c = Some y" by (rule channelOr404_Inr [OF t(2)])
    then have eq: "chat_of (Create_executeThread e fd s) = ?C\<lparr>ch_threads := (ch_threads ?C)((?c, env_uuid e) \<mapsto>
        \<lparr>post_author = ?u, post_time = env_time e, post_title = ?as ! 1, post_body = ?as ! 2\<rparr>)\<rparr>"
      unfolding chat_of_write [OF db] using assms(2) by (simp add: chat_pushThread [OF ok] newThread_def post_of_def chat_of_def)
    have "\<forall>h p. ch_threads ?C (?c, h) = Some p \<longrightarrow> post_title p \<noteq> ?as ! 1"
      using t(3) by (auto simp: chat_of_def findThread_channel [OF ok chan] post_of_def dest!: find_Some_mem)
    then have "chat_step ?C (chat_of (Create_executeThread e fd s))"
      unfolding eq using True ch_new_fresh [OF ok assms(2)] online_user [OF u] team chan assms(4)
      by (intro chat_step.thread [where fd = fd and t = ?k and u = ?u]) (simp_all add: chat_of_def)
    then show ?thesis by simp
  qed
qed

lemma simulates_Create_executeReply:
  assumes "server_inv s" and "fresh_uuid (env_uuid e) (srv_db s)" and u: "cl_userUuid (clientAt s fd) \<noteq> []"
    and "exact_time (env_time e)"
  shows "chat_step\<^sup>=\<^sup>= (chat_of s) (chat_of (Create_executeReply e fd s))"
proof -
  let ?u = "cl_userUuid (clientAt s fd)" and ?as = "cl_args (clientAt s fd)" and ?C = "chat_of s"
  let ?k = "ctx_teamUuid (cl_context (clientAt s fd))" and ?c = "ctx_channelUuid (cl_context (clientAt s fd))"
    and ?h = "ctx_threadUuid (cl_context (clientAt s fd))"
  let ?r = "newReply\<lparr>rep_uuid := env_uuid e, rep_userUuid := ?u, rep_body := ?as ! 1, rep_timestamp := env_time e\<rparr>"
  have ok: "db_ok (srv_db s)" by (rule inv_db_ok [OF assms(1)])
  show ?thesis
  proof (cases "length ?as \<ge> 2 \<and> within 512 (?as ! 1) \<and>
      (\<exists>t y z. findAccessibleTeam fd ?k s = Inr t \<and> findChannelOrSend404 ?k ?c s = Inr y \<and> findThreadOrSend404 ?c ?h s = Inr z)")
    case False
    then show ?thesis
      by (intro simulates_same) (auto simp: Create_executeReply_def Let_def frame_simps limit_defs split: sum.split)
  next
    case True
    then obtain t y z where t: "findAccessibleTeam fd ?k s = Inr t" "findChannelOrSend404 ?k ?c s = Inr y"
      "findThreadOrSend404 ?c ?h s = Inr z" by blast
    with True have db: "srv_db (Create_executeReply e fd s) =
        modifyThread ?c ?h (\<lambda>y. y\<lparr>thr_replies := thr_replies y @ [?r]\<rparr>) (srv_db s)"
      "sessions (Create_executeReply e fd s) = sessions s"
      by (auto simp: Create_executeReply_def Let_def frame_simps limit_defs)
    have team: "findTeam (srv_db s) ?k = Some t" "?u \<in> set (team_subscriberUuids t)"
      using accessible_subscribed [OF t(1)] by (simp_all add: isUserSubscribed_def)
    have chan: "findChannel (srv_db s) ?k ?c = Some y" by (rule channelOr404_Inr [OF t(2)])
    have thr: "findThread (srv_db s) ?c ?h = Some z" using t(3) by (auto simp: findThreadOrSend404_def split: option.splits)
    then have eq: "chat_of (Create_executeReply e fd s) = ?C\<lparr>ch_replies := (ch_replies ?C)((?c, ?h) := ch_replies ?C (?c, ?h) @
        [\<lparr>rep_uuid = env_uuid e, rep_userUuid = ?u, rep_timestamp = env_time e, rep_body = ?as ! 1\<rparr>])\<rparr>"
      unfolding chat_of_write [OF db] by (simp add: chat_pushReply newReply_def chat_of_def)
    have "chat_step ?C (chat_of (Create_executeReply e fd s))"
      unfolding eq using True ch_new_fresh [OF ok assms(2)] online_user [OF u] team chan thr assms(4)
      by (intro chat_step.reply [where fd = fd and t = ?k and u = ?u]) (simp_all add: chat_of_def)
    then show ?thesis by simp
  qed
qed

lemma simulates_Create:
  assumes "server_inv s" and "fresh_uuid (env_uuid e) (srv_db s)" and "exact_time (env_time e)"
  shows "chat_step\<^sup>=\<^sup>= (chat_of s) (chat_of (Create_execute e fd s))"
proof (cases "cl_userUuid (clientAt s fd) = []")
  case True
  then show ?thesis by (intro simulates_same) (simp_all add: Create_execute_def frame_simps)
next
  case False
  with simulates_Create_executeTeam [OF assms(1,2) False] simulates_Create_executeChannel [OF assms(1,2) False]
    simulates_Create_executeThread [OF assms(1,2) False assms(3)] simulates_Create_executeReply [OF assms(1,2) False assms(3)]
  show ?thesis unfolding Create_execute_def Let_def by (simp del: sup_apply)
qed

section \<open>The contract of a command, with its specification\<close>

text \<open>\<open>ICommand::execute\<close> as a step of the chat: a command does nothing a user can see in the chat, or makes
  exactly one of its steps.\<close>

locale chat_command = icommand +
  assumes simulates: "server_inv s \<Longrightarrow> fd \<in> set (fds s) \<Longrightarrow> fresh_uuid (env_uuid e) (srv_db s) \<Longrightarrow>
    exact_time (env_time e) \<Longrightarrow> chat_step\<^sup>=\<^sup>= (chat_of s) (chat_of (execute e fd s))"
begin

lemma loses_nothing:
  assumes "server_inv s" "fd \<in> set (fds s)" "fresh_uuid (env_uuid e) (srv_db s)" "exact_time (env_time e)"
  shows "ch_le (chat_of s) (chat_of (execute e fd s))"
  using simulates [OF assms] chat_step_le by auto

end

interpretation login: chat_command Login_execute
  by unfold_locales (rule simulates_Login)

interpretation send: chat_command Send_execute
  by unfold_locales (rule simulates_Send)

interpretation logout: chat_command Logout_execute
  by unfold_locales (rule simulates_Logout)

interpretation subscribe: chat_command Subscribe_execute
  by unfold_locales (rule simulates_Subscribe)

interpretation unsubscribe: chat_command Unsubscribe_execute
  by unfold_locales (rule simulates_Unsubscribe)

interpretation create: chat_command Create_execute
  by unfold_locales (rule simulates_Create)

interpretation users_command: chat_command UsersCommand_execute
  by unfold_locales (rule simulates_answers)

interpretation user_command: chat_command UserCommand_execute
  by unfold_locales (rule simulates_answers)

interpretation messages: chat_command Messages_execute
  by unfold_locales (rule simulates_answers)

interpretation subscribed: chat_command Subscribed_execute
  by unfold_locales (rule simulates_answers)

interpretation list_command: chat_command List_execute
  by unfold_locales (rule simulates_answers)

interpretation info: chat_command Info_execute
  by unfold_locales (rule simulates_answers)

interpretation use_command: chat_command Use_execute
  by unfold_locales (rule simulates_Use)

lemma commands_chat: "(n, f) \<in> set commands \<Longrightarrow> chat_command f"
  unfolding commands_def
  using login.chat_command_axioms send.chat_command_axioms logout.chat_command_axioms users_command.chat_command_axioms
    user_command.chat_command_axioms messages.chat_command_axioms subscribe.chat_command_axioms
    unsubscribe.chat_command_axioms subscribed.chat_command_axioms use_command.chat_command_axioms
    list_command.chat_command_axioms info.chat_command_axioms create.chat_command_axioms
  by auto

section \<open>Events of the loop\<close>

text \<open>What running lines does, seen in the chat: it keeps what \<open>kept\<close> keeps, and is a sequence of steps.\<close>

definition advances :: "server \<Rightarrow> server \<Rightarrow> bool" where
  "advances s t \<longleftrightarrow> kept s t \<and> (server_inv s \<longrightarrow> chat_step\<^sup>*\<^sup>* (chat_of s) (chat_of t))"

lemma chat_handleCommand:
  assumes "handleCommand e raw fd s = Inr t" and "server_inv s" and "fd \<in> set (fds s)"
    and "fresh_uuid (env_uuid e) (srv_db s)" and "exact_time (env_time e)"
  shows "chat_step\<^sup>=\<^sup>= (chat_of s) (chat_of t)"
proof -
  have same: "chat_of (setArgs fd as s) = chat_of s" for as
    by (rule chat_of_same) (simp_all add: frame_simps)
  show ?thesis
    using assms(1)
  proof (cases rule: handleCommand_cases)
    case (known args f)
    then have "chat_command f" using commands_chat map_of_SomeD by metis
    then have "chat_step\<^sup>=\<^sup>= (chat_of (setArgs fd args s)) (chat_of (f e fd (setArgs fd args s)))"
      by (rule chat_command.simulates) (use assms in \<open>simp_all add: frame_simps\<close>)
    then show ?thesis unfolding same known(4) .
  qed (simp_all add: same)
qed

lemma chat_of_modifyClient:
  assumes "\<And>c. cl_userUuid (f c) = cl_userUuid c" and "\<And>c. cl_context (f c) = cl_context c"
  shows "chat_of (modifyClient fd f s) = chat_of s"
proof (rule chat_of_same)
  show "sessions (modifyClient fd f s) = sessions s"
    by (simp add: sessions_def modifyClient_def map_clients_def assms split_def)
qed (simp add: frame_simps)

lemma advances_trans: "advances r s \<Longrightarrow> advances s t \<Longrightarrow> advances r t"
  unfolding advances_def using kept_trans kept_def by (metis rtranclp_trans)

interpretation advancing: line_effects advances
proof
  show "advances s (modifyClient fd f s)" if "\<And>c. cl_fd (f c) = cl_fd c" "\<And>c. cl_pollOutEnabled (f c) = cl_pollOutEnabled c"
    "\<And>c. cl_userUuid (f c) = cl_userUuid c" "\<And>c. cl_context (f c) = cl_context c" for f fd s
    using that by (simp add: advances_def kept_modifyClient chat_of_modifyClient)
  show "advances s t" if "handleCommand e raw fd s = Inr t" "fd \<in> set (fds s)" "fresh_uuid (env_uuid e) (srv_db s)"
    "exact_time (env_time e)" for e raw fd s t
    using that chat_handleCommand [OF that(1) _ that(2-4)] kept_handleCommand [OF that(1-3)] by (auto simp: advances_def)
  show "advances r t" if "advances r s" "advances s t" for r s t using that by (rule advances_trans)
qed (simp_all add: advances_def)

text \<open>A connection that ends, by hang-up or end of file.\<close>

lemma online_eraseClient: "online (eraseClient fd s) = (online s)(fd := None)"
proof -
  have "map_of (filter (\<lambda>y. fst y \<noteq> fd) ss) k = (if k = fd then None else map_of ss k)" for k and ss :: "(fd \<times> uuid \<times> ctx) list"
    by (induction ss) auto
  then show ?thesis by (intro ext) (simp add: online_sessions sessions_eraseClient)
qed

lemma chat_of_eraseClient: "chat_of (eraseClient fd s) = (chat_of s)\<lparr>ch_online := (ch_online (chat_of s))(fd := None)\<rparr>"
  by (simp add: chat_of_def online_eraseClient frame_simps) (simp add: chat_db_def)

lemma chat_disconnect:
  assumes "disconnectClient r fd (s, ps) = Inr (t, ps')" and "server_inv s"
  shows "chat_step\<^sup>=\<^sup>= (chat_of s) (chat_of t)"
proof -
  obtain lo s1 where l: "releaseUser fd s = (lo, s1)" by fastforce
  have t: "t = eraseClient fd s1 \<or> (\<exists>m ev. t = logEvent ev (broadcast m (eraseClient fd s1)))"
    using assms(1) l by (auto simp: disconnectClient_def Let_def split: sum.splits option.splits)
  then have "srv_db t = srv_db (eraseClient fd s1)" "sessions t = sessions (eraseClient fd s1)" by (auto simp: frame_simps)
  then have t: "chat_of t = chat_of (eraseClient fd s1)" by (rule chat_of_same)
  have "chat_of s1 = chat_of s"
  proof (cases "cl_userUuid (clientAt s fd) = [] \<or> findUser (srv_db s) (cl_userUuid (clientAt s fd)) = None")
    case True
    then have "s1 = s" using l by (auto simp: releaseUser_def split: if_splits)
    then show ?thesis by simp
  next
    case False
    then have "s1 = modifyDb (modifyUser (cl_userUuid (clientAt s fd)) decrementConnection) s"
      using l session_user_known(2) [OF assms(2)] by (auto simp: releaseUser_def)
    then show ?thesis using chat_of_write [of s1 _ s] by (simp add: frame_simps chat_of_def)
  qed
  then have eq: "chat_of t = (chat_of s)\<lparr>ch_online := (ch_online (chat_of s))(fd := None)\<rparr>"
    by (simp add: t chat_of_eraseClient)
  show ?thesis
  proof (cases "ch_online (chat_of s) fd")
    case None
    then have "(ch_online (chat_of s))(fd := None) = ch_online (chat_of s)" by auto
    then show ?thesis by (simp add: eq)
  next
    case (Some u)
    then show ?thesis unfolding eq using chat_step.leave by auto
  qed
qed

lemma chat_accept:
  assumes "acceptClient a (s, ps) = Inr (t, ps')" and "answers_ok a s"
  shows "chat_of t = chat_of s"
proof -
  from assms obtain n where t: "t = emplaceClient n (newClient\<lparr>cl_fd := n\<rparr>) s" "n \<notin> set (fds s)"
    by (auto simp: acceptClient_def Posix_accept_def checked_def answers_ok_def split: sys.splits sum.splits)
  have ss: "sessions t = sessions s @ [(n, [], emptyCtx)]"
    using t(2) by (simp add: t(1) emplaceClient_def sessions_def newClient_def)
  have absent: "map_of (sessions s) n = None"
    using t(2) by (force simp: map_of_eq_None_iff sessions_def fds_def)
  have "online t k = online s k" for k
    using absent by (cases "map_of (sessions s) k") (auto simp: online_sessions ss map_add_def)
  then have "online t = online s" by (rule ext)
  moreover have "srv_db t = srv_db s" by (simp add: t(1) emplaceClient_def)
  ultimately show ?thesis by (simp add: chat_of_def)
qed

lemma chat_event:
  assumes "processEvent es a ev (s, ps) = Inr (t, ps')" and "loop_inv (s, ps)" and "uuid_supply es (srv_db s)"
    and "answers_ok a s" and "clock_ok es"
  shows "chat_step\<^sup>*\<^sup>* (chat_of s) (chat_of t)"
  using assms(1)
proof (cases rule: processEvent_cases)
  case accept
  with assms(4) show ?thesis by (simp add: chat_accept)
next
  case client
  have inv: "server_inv s" using assms(2) by (simp add: loop_inv_def)
  from client(2) assms(2) client(1) assms(3,5) show ?thesis
  proof (cases rule: advancing.client_event)
    case hup
    from chat_disconnect [OF this inv] show ?thesis by auto
  next
    case eof
    have "chat_of (modifyClient (ev_fd ev) (\<lambda>c. c\<lparr>cl_fd := -1\<rparr>) s) = chat_of s" by (rule chat_of_modifyClient) simp_all
    with chat_disconnect [OF eof] inv show ?thesis by (auto simp: server_inv_fd)
  next
    case (alive t)
    then show ?thesis using inv by (simp add: advances_def)
  qed
qed simp

lemma chat_loop_step: "loop_step st st' \<Longrightarrow> loop_inv st \<Longrightarrow> chat_step\<^sup>*\<^sup>* (chat_of (fst st)) (chat_of (fst st'))"
proof (induction rule: loop_step.induct)
  case (flags st)
  obtain s ps where st: "st = (s, ps)" by fastforce
  with flags have "poll_ok s ps" "distinct (fds s)" by (simp_all add: loop_inv_def distinct_fds)
  then obtain ps' where u: "updatePollFlags (s, ps) = (map_clients (\<lambda>_. with_flag) s, ps')" by (rule updatePollFlags_spec)
  have "sessions (map_clients (\<lambda>_. with_flag) s) = sessions s"
    by (simp add: sessions_def map_clients_def with_flag_def split_def)
  then have "chat_of (map_clients (\<lambda>_. with_flag) s) = chat_of s" by (intro chat_of_same) (simp_all add: frame_simps)
  then show ?case by (simp add: st u)
next
  case (event es a ev st st')
  obtain s ps t ps' where st: "st = (s, ps)" "st' = (t, ps')" by fastforce
  with event show ?case using chat_event [of es a ev s ps t ps'] by simp
qed simp

lemma chat_loop_steps:
  assumes "loop_step\<^sup>*\<^sup>* st st'" and "loop_inv st"
  shows "chat_step\<^sup>*\<^sup>* (chat_of (fst st)) (chat_of (fst st'))"
  using assms(1)
proof (induction rule: rtranclp_induct)
  case (step t u)
  then have "chat_step\<^sup>*\<^sup>* (chat_of (fst t)) (chat_of (fst u))"
    using chat_loop_step loop_steps_inv assms(2) by blast
  with step.IH show ?case by (rule rtranclp_trans)
qed simp

section \<open>Every run is a run of the chat\<close>

text \<open>C4. The server implements the chat: what any run of the event loop does, whatever the clients send and in
  whatever order the kernel reports events, is a sequence of chat steps, each with its guard: users register and
  log in on connections that are not logged in, write to existing users, join and leave teams, and create
  channels, threads and replies only in teams they are a member of, under new identifiers and names. No other
  change of the chat exists; parsing, buffering, polling, listing and refused commands do not change it.\<close>

theorem server_refines_chat:
  assumes "started s" and "loop_step\<^sup>*\<^sup>* (run_start s) (t, ps)"
  shows "chat_step\<^sup>*\<^sup>* (chat_of s) (chat_of t)"
  using chat_loop_steps [OF assms(2) loop_inv_start [OF assms(1)]] by (simp add: run_start_def)

theorem server_refines_chat_witness:
  "chat_step\<^sup>*\<^sup>* (chat_of demo_idle) (chat_of (fst demo_after)) \<and>
   ch_online (chat_of demo_idle) 4 = None \<and> ch_online (chat_of (fst demo_after)) 4 = Some ''u1''"
proof -
  have r: "loop_step\<^sup>*\<^sup>* (run_start demo_idle) (fst demo_after, snd demo_after)" using demo_reached by simp
  have "online demo_idle 4 = None" "online (fst demo_after) 4 = Some ''u1''" by code_simp+
  with server_refines_chat [OF demo_started r] show ?thesis by (simp add: chat_of_def)
qed

lemma chat_le_reached:
  assumes "started r" and "loop_step\<^sup>*\<^sup>* (run_start r) (s, ps)" and "loop_step\<^sup>*\<^sup>* (s, ps) (t, qs)"
  shows "ch_le (chat_of s) (chat_of t)"
proof -
  have "loop_inv (s, ps)" using loop_steps_inv [OF assms(2) loop_inv_start [OF assms(1)]] .
  from chat_loop_steps [OF assms(3) this] show ?thesis by (simp add: chat_steps_le)
qed

lemma map_le_option:
  assumes "(\<lambda>k. map_option g (f k)) \<subseteq>\<^sub>m (\<lambda>k. map_option g (f' k))" and "f k = Some x"
  shows "\<exists>y. f' k = Some y \<and> g y = g x"
proof -
  have "(\<lambda>k. map_option g (f k)) k = (\<lambda>k. map_option g (f' k)) k"
    by (rule bspec [OF assms(1) [unfolded map_le_def]]) (simp add: assms(2) domIff)
  then show ?thesis using assms(2) by (auto simp: eq_commute [of "Some (g x)"])
qed

text \<open>C21. Nothing is ever lost or altered: from any reachable state on, users keep their name, teams and channels their
  name and description, threads their author, time, title and text, and private conversations and the replies
  of a thread only grow at their end.\<close>

theorem history_is_kept:
  assumes "started r" and "loop_step\<^sup>*\<^sup>* (run_start r) (s, ps)" and "loop_step\<^sup>*\<^sup>* (s, ps) (t, qs)"
  shows "prefix (conv (srv_db s) a b) (conv (srv_db t) a b) \<and>
    (findUser (srv_db s) a = Some u \<longrightarrow> (\<exists>v. findUser (srv_db t) a = Some v \<and> usr_name v = usr_name u)) \<and>
    (findTeam (srv_db s) k = Some x \<longrightarrow> (\<exists>y. findTeam (srv_db t) k = Some y \<and>
      team_name y = team_name x \<and> team_description y = team_description x)) \<and>
    (findChannel (srv_db s) k c = Some y \<longrightarrow> (\<exists>y'. findChannel (srv_db t) k c = Some y' \<and>
      chn_name y' = chn_name y \<and> chn_description y' = chn_description y)) \<and>
    (findThread (srv_db s) c h = Some z \<longrightarrow> (\<exists>z'. findThread (srv_db t) c h = Some z' \<and> thr_userUuid z' = thr_userUuid z \<and>
      thr_timestamp z' = thr_timestamp z \<and> thr_title z' = thr_title z \<and> thr_body z' = thr_body z \<and>
      prefix (thr_replies z) (thr_replies z')))"
proof -
  note le = chat_le_reached [OF assms, unfolded ch_le_def chat_of_def]
  have "(\<lambda>a. map_option usr_name (findUser (srv_db s) a)) \<subseteq>\<^sub>m (\<lambda>a. map_option usr_name (findUser (srv_db t) a))"
    using le by (simp add: names_def [abs_def])
  note u = map_le_option [OF this, of a u]
  have "(\<lambda>k. map_option (\<lambda>x. (team_name x, team_description x)) (findTeam (srv_db s) k)) \<subseteq>\<^sub>m
      (\<lambda>k. map_option (\<lambda>x. (team_name x, team_description x)) (findTeam (srv_db t) k))"
    using le by (simp add: chat_db_def)
  note x = map_le_option [OF this, of k x]
  have "(\<lambda>p. map_option (\<lambda>y. (chn_name y, chn_description y)) (findChannel (srv_db s) (fst p) (snd p))) \<subseteq>\<^sub>m
      (\<lambda>p. map_option (\<lambda>y. (chn_name y, chn_description y)) (findChannel (srv_db t) (fst p) (snd p)))"
    using le by (simp add: chat_db_def split_def)
  note y = map_le_option [OF this, of "(k, c)" y]
  have "(\<lambda>p. map_option post_of (findThread (srv_db s) (fst p) (snd p))) \<subseteq>\<^sub>m
      (\<lambda>p. map_option post_of (findThread (srv_db t) (fst p) (snd p)))"
    using le by (simp add: chat_db_def split_def)
  note z = map_le_option [OF this, of "(c, h)" z]
  have r: "prefix (ch_replies (chat_db (srv_db s) (online s)) (c, h)) (ch_replies (chat_db (srv_db t) (online t)) (c, h))"
    using le by blast
  have "prefix (conv (srv_db s) a b) (conv (srv_db t) a b)" using le by simp
  moreover have "\<exists>z'. findThread (srv_db t) c h = Some z' \<and> thr_userUuid z' = thr_userUuid z \<and>
      thr_timestamp z' = thr_timestamp z \<and> thr_title z' = thr_title z \<and> thr_body z' = thr_body z \<and>
      prefix (thr_replies z) (thr_replies z')" if "findThread (srv_db s) c h = Some z"
    using z that r by (auto simp: post_of_def)
  ultimately show ?thesis using u x y by auto
qed

theorem history_is_kept_witness:
  "(\<exists>v. findUser (srv_db (fst demo_after)) ''u1'' = Some v \<and> usr_name v = ''alice'') \<and>
   (\<exists>y. findTeam (srv_db (fst demo_after)) ''t1'' = Some y \<and> team_name y = team_name demo_team) \<and>
   (\<exists>y. findChannel (srv_db (fst demo_after)) ''t1'' ''c1'' = Some y \<and> chn_name y = chn_name demo_channel) \<and>
   (\<exists>z. findThread (srv_db (fst demo_after)) ''c1'' ''h1'' = Some z \<and> prefix (thr_replies demo_thread) (thr_replies z))"
proof -
  have r: "loop_step\<^sup>*\<^sup>* (demo_idle, snd (run_start demo_idle)) (fst demo_after, snd demo_after)"
    using demo_reached by (simp add: run_start_def)
  have z: "loop_step\<^sup>*\<^sup>* (run_start demo_idle) (demo_idle, snd (run_start demo_idle))" by (simp add: run_start_def)
  have f: "findUser (srv_db demo_idle) ''u1'' = Some (demo_user ''u1'' ''alice'' 0)"
    "findTeam (srv_db demo_idle) ''t1'' = Some demo_team" "findChannel (srv_db demo_idle) ''t1'' ''c1'' = Some demo_channel"
    "findThread (srv_db demo_idle) ''c1'' ''h1'' = Some demo_thread" by code_simp+
  have n: "usr_name (demo_user ''u1'' ''alice'' 0) = ''alice''" by (simp add: demo_user_def)
  note kept = history_is_kept [OF demo_started z r, of "''u1''" "''u2''" "demo_user ''u1'' ''alice'' 0" "''t1''" demo_team
    "''c1''" demo_channel "''h1''" demo_thread]
  show ?thesis using kept f unfolding n by blast
qed

end
