(* ===== verification/Server_Lives.thy ===== *)
theory Server_Lives
  imports Server_Main Chat_Refinement
begin

text \<open>
  The life of an installation: every integer the server stores fits its C++ type in every reachable
  state, so that saving loses nothing; and over any number of starts, runs and stops, from the first
  start without a save file, the server is one run of the chat of \<open>Chat_Spec\<close>.
\<close>

section \<open>Integers fit their types\<close>

definition c_int :: "int \<Rightarrow> bool" where
  "c_int n \<longleftrightarrow> 0 \<le> n \<and> n < 2 ^ 31"

definition typed :: "server \<Rightarrow> bool" where
  "typed s \<longleftrightarrow> c_int (srv_fd s) \<and> list_all c_int (fds s) \<and>
     list_all (\<lambda>u. c_int (usr_connectedCount u)) (db_users (srv_db s)) \<and> exact_times (srv_db s)"

text \<open>The times in the database are the times of the chat.\<close>

lemma map_find_mem:
  assumes "map_ok m" and "(k, v) \<in> set m"
  shows "map_find k m = Some v"
proof -
  have "sorted_wrt (<) (map fst m) \<Longrightarrow> (k, v) \<in> set m \<Longrightarrow> map_find k m = Some v" for m :: "'a std_map"
    by (induction m) (force simp: less_imp_neq)+
  then show ?thesis using assms by (simp add: map_ok_def)
qed

lemma map_find_Some_mem: "map_find k m = Some v \<Longrightarrow> (k, v) \<in> set m"
  by (induction m) (auto split: if_splits)

lemma exact_times_chat:
  assumes "db_ok db"
  shows "exact_times db \<longleftrightarrow> ch_exact (chat_db db on)"
proof
  assume e: "exact_times db"
  have "exact_time (msg_timestamp m)" if "m \<in> set (conv db x y)" for x y m
  proof -
    from that obtain u where u: "findUser db x = Some u" "m \<in> set (conversation u y)"
      by (cases "findUser db x") (simp_all add: conv_def)
    then obtain ms where "map_find y (usr_messages u) = Some ms" "m \<in> set ms"
      by (cases "map_find y (usr_messages u)") (simp_all add: conversation_def)
    then have "(y, ms) \<in> set (usr_messages u)" "m \<in> set ms" by (simp_all add: map_find_Some_mem)
    moreover have "u \<in> set (db_users db)" using u(1) findUser_iff [OF assms] by blast
    ultimately show ?thesis using e unfolding exact_times_def list_all_iff by fastforce
  qed
  moreover have thr: "exact_time (thr_timestamp z) \<and> (\<forall>r \<in> set (thr_replies z). exact_time (rep_timestamp r))"
    if "findThread db c h = Some z" for c h z
    using that e findThread_iff [OF assms]
    by (auto simp: exact_times_def team_exact_def thread_exact_def list_all_iff)
  moreover have "exact_time (rep_timestamp r)" if "r \<in> set (ch_replies (chat_db db on) (c, h))" for c h r
    using that thr [of c h] by (cases "findThread db c h") auto
  ultimately show "ch_exact (chat_db db on)"
    unfolding ch_exact_def by (auto simp: post_of_def simp del: chat_db_simps(8))
next
  assume c: "ch_exact (chat_db db on)"
  have "exact_time (msg_timestamp m)" if "u \<in> set (db_users db)" "(k, ms) \<in> set (usr_messages u)" "m \<in> set ms" for u k ms m
  proof -
    have "map_ok (usr_messages u)" using assms that(1) by (auto simp: db_ok_def users_ok_def user_ok_def list_all_iff)
    moreover have "findUser db (usr_uuid u) = Some u" using that(1) findUser_iff [OF assms] by blast
    ultimately have "m \<in> set (conv db (usr_uuid u) k)"
      using that(2,3) by (simp add: conv_def conversation_def map_find_mem)
    then show ?thesis using c by (simp add: ch_exact_def)
  qed
  moreover have "thread_exact z"
    if "t \<in> set (db_teams db)" "y \<in> set (team_channels t)" "z \<in> set (chn_threads y)" for t y z
  proof -
    have f: "findThread db (chn_uuid y) (thr_uuid z) = Some z" using that findThread_iff [OF assms] by blast
    then have "ch_threads (chat_db db on) (chn_uuid y, thr_uuid z) = Some (post_of z)"
      "ch_replies (chat_db db on) (chn_uuid y, thr_uuid z) = thr_replies z" by simp_all
    with c have "exact_time (post_time (post_of z))" "\<forall>r \<in> set (thr_replies z). exact_time (rep_timestamp r)"
      unfolding ch_exact_def by metis+
    then show ?thesis by (simp add: thread_exact_def post_of_def list_all_iff)
  qed
  ultimately show "exact_times db" unfolding exact_times_def team_exact_def list_all_iff by fastforce
qed

text \<open>Descriptors: the listening one stays, and only \<open>accept\<close> adds one.\<close>

lemma loop_step_fds:
  assumes "loop_step st st'" and "loop_inv st"
  shows "srv_fd (fst st') = srv_fd (fst st) \<and> (list_all c_int (fds (fst st)) \<longrightarrow> list_all c_int (fds (fst st')))"
  using assms
proof (induction rule: loop_step.induct)
  case (flags st)
  obtain s ps where st: "st = (s, ps)" by fastforce
  with flags have "poll_ok s ps" "distinct (fds s)" by (simp_all add: loop_inv_def distinct_fds)
  then obtain ps' where u: "updatePollFlags (s, ps) = (map_clients (\<lambda>_. with_flag) s, ps')" by (rule updatePollFlags_spec)
  then show ?case by (simp add: st frame_simps)
next
  case (event es a ev st st')
  obtain s ps where st: "st = (s, ps)" by fastforce
  obtain t qs where st': "st' = (t, qs)" by fastforce
  have sub: ?case if "srv_fd t = srv_fd s" "set (fds t) \<subseteq> set (fds s)"
    using that by (auto simp: st st' list_all_iff)
  from event(1) have "processEvent es a ev (s, ps) = Inr st'" by (simp only: st)
  then show ?case
  proof (cases rule: processEvent_cases)
    case nothing
    then show ?thesis by (simp add: st)
  next
    case accept
    then obtain n where "ans_accept a = Ok n" "t = emplaceClient n (newClient\<lparr>cl_fd := n\<rparr>) s"
      by (auto simp: acceptClient_def Posix_accept_def checked_def st' split: sys.splits sum.splits)
    then show ?thesis using event(3)
      by (auto simp: st st' answers_ok_def emplaceClient_def fds_def c_int_def list_all_iff)
  next
    case client
    have inv: "loop_inv (s, ps)" and sup: "uuid_supply es (srv_db s)" using event by (simp_all add: st)
    from client(2) inv client(1) sup event(4) show ?thesis
    proof (cases rule: kept.client_event)
      case hup
      from disconnectClient_effect(2,3) [OF this [unfolded st']] show ?thesis
        by (intro sub) (auto simp: links_fds)
    next
      case eof
      from disconnectClient_effect(2,3) [OF this [unfolded st']] show ?thesis
        by (intro sub) (auto simp: links_fds [of t] links_fd links_fds [of s] frame_simps)
    next
      case (alive u)
      then have "kept s t" by (simp add: st')
      then show ?thesis by (intro sub) (auto simp: kept_def links_fds)
    qed
  qed
qed simp

lemma loop_steps_fds:
  assumes "loop_step\<^sup>*\<^sup>* st st'" and "loop_inv st"
  shows "srv_fd (fst st') = srv_fd (fst st) \<and> (list_all c_int (fds (fst st)) \<longrightarrow> list_all c_int (fds (fst st')))"
  using assms(1)
proof (induction rule: rtranclp_induct)
  case (step t u)
  with loop_step_fds [OF step.hyps(2)] loop_steps_inv [OF step.hyps(1) assms(2)] show ?case by simp
qed simp

lemma counters_fit:
  assumes "server_inv s" and "srv_fd s \<notin> set (fds s)" and "c_int (srv_fd s)" and "list_all c_int (fds s)"
  shows "list_all (\<lambda>u. c_int (usr_connectedCount u)) (db_users (srv_db s))"
proof -
  let ?F = "{0..<2 ^ 31 :: int} - {srv_fd s}"
  have "length (fds s) = card (set (fds s))" using distinct_fds [OF assms(1)] by (simp add: distinct_card)
  also have "\<dots> \<le> card ?F"
    using assms(2,4) by (intro card_mono) (auto simp: list_all_iff c_int_def)
  also have "\<dots> < 2 ^ 31" using assms(3) by (simp add: c_int_def)
  finally have n: "int (length (fds s)) < 2 ^ 31" by simp
  have "session_count u (sessions s) \<le> length (fds s)" for u
    unfolding session_count_def fds_def sessions_def by (rule order_trans [OF length_filter_le]) simp
  then have "int (session_count u (sessions s)) < 2 ^ 31" for u using n by (meson le_less_trans of_nat_mono)
  then show ?thesis using user_facts(2) [OF assms(1)] by (simp add: list_all_iff c_int_def)
qed

lemma reachable:
  assumes "started s" and "typed s" and "loop_step\<^sup>*\<^sup>* (run_start s) (t, ps)"
  shows "typed t"
proof -
  have inv: "loop_inv (t, ps)" by (rule loop_steps_inv [OF assms(3) loop_inv_start [OF assms(1)]])
  then have sv: "server_inv t" "srv_fd t \<notin> set (fds t)" by (simp_all add: loop_inv_def poll_ok_def)
  have "ch_exact (chat_of s)"
    using assms(1,2) exact_times_chat [of "srv_db s"] by (simp add: started_def typed_def chat_of_def)
  then have "ch_exact (chat_of t)"
    using chat_loop_steps [OF assms(3) loop_inv_start [OF assms(1)]] chat_steps_exact by (simp add: run_start_def)
  then have "exact_times (srv_db t)" using exact_times_chat [OF inv_db_ok [OF sv(1)]] by (simp add: chat_of_def)
  moreover have "c_int (srv_fd t)" "list_all c_int (fds t)"
    using loop_steps_fds [OF assms(3) loop_inv_start [OF assms(1)]] assms(2) by (simp_all add: run_start_def typed_def)
  ultimately show ?thesis using counters_fit [OF sv] by (simp add: typed_def)
qed


text \<open>C22. Every integer fits its type in every reachable state: descriptors and the connection counters are
  non-negative \<open>int\<close>s, so that the counters of \<open>incrementConnection\<close> never overflow, and every stored time is one the
  \<open>double\<close>s of the save file hold exactly.\<close>

theorem reachable_types:
  assumes "started s" and "typed s" and "loop_step\<^sup>*\<^sup>* (run_start s) (t, ps)"
  shows "typed t"
  using assms by (rule reachable)

theorem reachable_types_witness:
  "typed demo_idle \<and> typed (fst demo_after) \<and> fds (fst demo_after) = [4]"
proof -
  have r: "loop_step\<^sup>*\<^sup>* (run_start demo_idle) (fst demo_after, snd demo_after)" using demo_reached by simp
  have t: "typed demo_idle" by code_simp
  have "fds (fst demo_after) = [4]" by code_simp
  with t reachable_types [OF demo_started t r] show ?thesis by blast
qed

section \<open>Stopping and starting again\<close>

lemma restarts:
  assumes "started s" and "typed s" and "loop_step\<^sup>*\<^sup>* (run_start s) (t, ps)" and "openListener a = Inr fd" and "c_int fd"
  shows "\<exists>s'. inits a (Some (SaveManager_save (srv_db t))) s' \<and> started s' \<and> typed s' \<and> srv_fd s' = fd \<and>
    db_teams (srv_db s') = db_teams (srv_db t) \<and> db_users (srv_db s') = map (setConnectionCount 0) (db_users (srv_db t))"
proof -
  have "db_ok (srv_db t)"
    using loop_steps_inv [OF assms(3) loop_inv_start [OF assms(1)]] by (simp add: loop_inv_def server_inv_def)
  moreover have e: "exact_times (srv_db t)" using reachable [OF assms(1-3)] by (simp add: typed_def)
  ultimately obtain s' where s': "inits a (Some (SaveManager_save (srv_db t))) s'" "started s'" "srv_fd s' = fd"
    "db_teams (srv_db s') = db_teams (srv_db t)" "db_users (srv_db s') = map (setConnectionCount 0) (db_users (srv_db t))"
    using init_restores [OF _ _ assms(4)] by blast
  have "exact_times (srv_db s')" using e s'(4,5) by (simp add: exact_times_def list.pred_map comp_def setConnectionCount_def)
  then have "typed s'"
    using s'(2,3) assms(5) by (simp add: typed_def started_def fds_def list_all_iff c_int_def)
  with s' show ?thesis by blast
qed


text \<open>C11. Stopping and starting again keeps the data: from the file a run wrote, in any state the loop can reach,
  \<open>init\<close> on a fresh server returns with the same teams and the same users, all disconnected, and this is
  a state from which every invariant of the loop holds again.\<close>

theorem restart_restores:
  assumes "started s" and "typed s" and "loop_step\<^sup>*\<^sup>* (run_start s) (t, ps)" and "openListener a = Inr fd" and "c_int fd"
  shows "\<exists>s'. inits a (Some (SaveManager_save (srv_db t))) s' \<and> started s' \<and> typed s' \<and> srv_fd s' = fd \<and>
    db_teams (srv_db s') = db_teams (srv_db t) \<and> db_users (srv_db s') = map (setConnectionCount 0) (db_users (srv_db t))"
  using assms by (rule restarts)

theorem restart_restores_witness:
  "\<exists>s'. inits demo_init (Some (SaveManager_save (srv_db (fst demo_after)))) s' \<and>
    started s' \<and> srv_fd s' = 3 \<and> db_teams (srv_db s') = db_teams (srv_db (fst demo_after)) \<and>
    map usr_connectedCount (db_users (srv_db (fst demo_after))) \<noteq> map usr_connectedCount (db_users (srv_db s'))"
proof -
  have r: "loop_step\<^sup>*\<^sup>* (run_start demo_idle) (fst demo_after, snd demo_after)" using demo_reached by simp
  have v: "typed demo_idle" "c_int 3" by code_simp+
  have a: "openListener demo_init = Inr 3" by code_simp
  have c: "map usr_connectedCount (db_users (srv_db (fst demo_after))) \<noteq>
    map usr_connectedCount (map (setConnectionCount 0) (db_users (srv_db (fst demo_after))))" by code_simp
  obtain s' where "inits demo_init (Some (SaveManager_save (srv_db (fst demo_after)))) s'"
    "started s'" "srv_fd s' = 3" "db_teams (srv_db s') = db_teams (srv_db (fst demo_after))"
    "db_users (srv_db s') = map (setConnectionCount 0) (db_users (srv_db (fst demo_after)))"
    using restart_restores [OF demo_started v(1) r a v(2)] by blast
  with c show ?thesis by (intro exI [of _ s']) simp
qed

section \<open>All lives of an installation\<close>

definition empty_chat :: chat where
  "empty_chat = \<lparr>ch_names = Map.empty, ch_online = Map.empty, ch_talk = (\<lambda>_ _. []), ch_members = (\<lambda>_. {}),
     ch_teams = Map.empty, ch_channels = Map.empty, ch_threads = Map.empty, ch_replies = (\<lambda>_. [])\<rparr>"

text \<open>What the save file can be, with the chat the last life that wrote it ended in, nobody online: absent before the
  first stop, or what a run wrote that started from such a file. A run that could not write its file, or was
  killed, leaves the older one.\<close>

inductive on_disk :: "string option \<Rightarrow> chat \<Rightarrow> bool" where
  absent: "on_disk None empty_chat"
| saved: "on_disk file C \<Longrightarrow> inits a file s \<Longrightarrow> ia_socket a = Ok fd \<Longrightarrow> c_int fd \<Longrightarrow>
    loop_step\<^sup>*\<^sup>* (run_start s) (t, ps) \<Longrightarrow>
    on_disk (Some (SaveManager_save (srv_db t))) ((chat_of t)\<lparr>ch_online := Map.empty\<rparr>)"

lemma socket_listener: "openListener a = Inr n \<Longrightarrow> ia_socket a = Ok fd \<Longrightarrow> n = fd"
  by (auto simp: openListener_def Posix_socket_def checked_def bind_exn_def split: sum.splits)

text \<open>Closing connections, one by one, ends in the chat with nobody online.\<close>

lemma chat_close_all:
  assumes "finite (dom (ch_online C))"
  shows "chat_step\<^sup>*\<^sup>* C (C\<lparr>ch_online := Map.empty\<rparr>)"
  using assms
proof (induction "dom (ch_online C)" arbitrary: C rule: finite_induct)
  case empty
  from this [symmetric] have "ch_online C = Map.empty" by simp
  then have "C\<lparr>ch_online := Map.empty\<rparr> = C" by (metis chat.surjective chat.update_convs(2))
  then show ?case by simp
next
  case (insert k D)
  let ?D = "C\<lparr>ch_online := (ch_online C)(k := None)\<rparr>"
  obtain u where "ch_online C k = Some u" using insert.hyps(4) by blast
  then have "chat_step C ?D" by (rule chat_step.leave)
  moreover have "D = dom (ch_online ?D)" using insert.hyps(2,4) by auto
  from insert.hyps(3) [OF this] have "chat_step\<^sup>*\<^sup>* ?D (C\<lparr>ch_online := Map.empty\<rparr>)" by simp
  ultimately show ?case by (rule converse_rtranclp_into_rtranclp)
qed

lemma online_finite: "finite (dom (online s))"
proof -
  have "dom (online s) \<subseteq> set (fds s)"
    using clientAt_absent by (fastforce simp: online_def newClient_def Let_def split: if_splits)
  then show ?thesis by (rule finite_subset) simp
qed

lemma online_started: "started s \<Longrightarrow> online s = Map.empty"
  by (simp add: started_def online_def clientAt_def getClient_def newClient_def fun_eq_iff)

lemma chat_restarted:
  assumes "started s'" and "db_teams (srv_db s') = db_teams (srv_db t)"
    and "db_users (srv_db s') = map (setConnectionCount 0) (db_users (srv_db t))"
  shows "chat_of s' = (chat_of t)\<lparr>ch_online := Map.empty\<rparr>"
proof -
  have f: "findUser (srv_db s') k = map_option (setConnectionCount 0) (findUser (srv_db t) k)" for k
    by (simp add: findUser_def assms(3) find_map)
  have "names (srv_db s') = names (srv_db t)" by (simp add: fun_eq_iff names_def f option.map_comp o_def)
  moreover have "conv (srv_db s') = conv (srv_db t)" by (simp add: fun_eq_iff conv_option f option.map_comp o_def)
  ultimately show ?thesis
    using chat_db_users [OF assms(2), of Map.empty]
    by (simp add: chat_of_def online_started [OF assms(1)]) (simp add: chat_db_def)
qed

lemma on_disk_starts:
  assumes "on_disk file C" and "inits a file s" and "ia_socket a = Ok fd" and "c_int fd"
  shows "started s \<and> typed s \<and> chat_of s = C \<and> chat_step\<^sup>*\<^sup>* empty_chat C"
  using assms
proof (induction arbitrary: s a fd rule: on_disk.induct)
  case absent
  obtain n where n: "openListener a = Inr n" using inits_listener absent.prems(1) by blast
  then have s: "s = newServer\<lparr>srv_fd := n\<rparr>"
    using absent.prems(1) by (auto simp: inits_def Server_init_def SaveManager_load_def)
  have "n = fd" using socket_listener [OF n] absent.prems(2) by simp
  then have "started s" "typed s"
    using absent.prems(3) unfolding s
    by (simp_all add: started_def typed_def newServer_def emptyDb_def db_ok_def users_ok_def teams_ok_def mirrored_def
        user_ids_def fds_def exact_times_def)
  moreover have "chat_of s = empty_chat"
    unfolding chat_of_def online_started [OF \<open>started s\<close>]
    by (rule chat_db_eqI) (simp_all add: s newServer_def emptyDb_def empty_chat_def names_def findUser_def conv_def fun_eq_iff
        findTeam_def findChannel_def findThread_def)
  ultimately show ?case by simp
next
  case (saved old D a0 r fd0 t ps)
  have r: "started r" "typed r" "chat_step\<^sup>*\<^sup>* empty_chat (chat_of r)" using saved.IH [OF saved.hyps(2-4)] by blast+
  obtain n where n: "openListener a = Inr n" using inits_listener saved.prems(1) by blast
  then have "n = fd" using socket_listener saved.prems(2) by simp
  then obtain s' where s': "inits a (Some (SaveManager_save (srv_db t))) s'" "started s'" "typed s'"
    "db_teams (srv_db s') = db_teams (srv_db t)" "db_users (srv_db s') = map (setConnectionCount 0) (db_users (srv_db t))"
    using restarts [OF r(1,2) saved.hyps(5) n] saved.prems(3) by blast
  have s: "s = s'" using inits_unique [OF saved.prems(1) s'(1)] .
  have "chat_step\<^sup>*\<^sup>* (chat_of r) (chat_of t)"
    using chat_loop_steps [OF saved.hyps(5) loop_inv_start [OF r(1)]] by (simp add: run_start_def)
  moreover have c: "chat_of s = (chat_of t)\<lparr>ch_online := Map.empty\<rparr>" unfolding s by (rule chat_restarted [OF s'(2,4,5)])
  moreover have "chat_step\<^sup>*\<^sup>* (chat_of t) ((chat_of t)\<lparr>ch_online := Map.empty\<rparr>)"
    using chat_close_all [of "chat_of t"] online_finite [of t] by (simp add: chat_of_def)
  ultimately show ?case using r(3) s'(2,3) unfolding c unfolding s by (meson rtranclp_trans)
qed

text \<open>C3. An installation over all its lives. Whatever save file past runs left, starting with the first start without
  one, \<open>init\<close> gives exactly the chat the last saved run ended in, with nobody online: every name, message, member, team,
  channel, thread and reply, and no other. Everything that was ever done, across stops and starts, is one run of the
  abstract chat from the empty one, and the invariants of the loop and the types of its integers hold all along.\<close>

theorem lives_refine_chat:
  assumes "on_disk file C" and "inits a file s" and "ia_socket a = Ok fd" and "c_int fd"
    and "loop_step\<^sup>*\<^sup>* (run_start s) (t, ps)"
  shows "chat_of s = C \<and> ch_online C = Map.empty \<and> chat_step\<^sup>*\<^sup>* empty_chat C \<and> chat_step\<^sup>*\<^sup>* C (chat_of t) \<and>
    server_inv t \<and> poll_ok t ps \<and> typed t"
proof -
  have s: "started s" "typed s" "chat_of s = C" "chat_step\<^sup>*\<^sup>* empty_chat C" using on_disk_starts [OF assms(1-4)] by blast+
  have "loop_inv (t, ps)" by (rule loop_steps_inv [OF assms(5) loop_inv_start [OF s(1)]])
  moreover have "chat_step\<^sup>*\<^sup>* C (chat_of t)"
    using chat_loop_steps [OF assms(5) loop_inv_start [OF s(1)]] by (simp add: run_start_def s(3))
  moreover have "ch_online C = Map.empty" using online_started [OF s(1)] by (simp add: s(3) [symmetric] chat_of_def)
  ultimately show ?thesis using s(3,4) reachable [OF s(1,2) assms(5)] by (simp add: loop_inv_def)
qed

text \<open>A first life, in which Alice registers, is followed by a second one.\<close>

definition first_life :: "server \<times> poller" where
  "first_life = run_start (newServer\<lparr>srv_fd := 3\<rparr>)"

definition first_end :: "server \<times> poller" where
  "first_end = (case processEvents demo_events first_life of Inr st \<Rightarrow> st | Inl x \<Rightarrow> first_life)"

lemma supply_none: "all_ids db = [] \<Longrightarrow> uuid_supply demo_envs db"
  by (auto simp: uuid_supply_def inj_def demo_envs_def fresh_uuid_def)

lemma first_life_runs: "loop_step\<^sup>*\<^sup>* (run_start (newServer\<lparr>srv_fd := 3\<rparr>)) (fst first_end, snd first_end)"
proof -
  have i: "all_ids (srv_db (fst first_life)) = []" by code_simp
  have n: "case processEvent demo_envs demo_answers \<lparr>ev_fd = 3, ev_revents = 1\<rparr> first_life of
     Inl x \<Rightarrow> False | Inr st \<Rightarrow> all_ids (srv_db (fst st)) = []" by code_simp
  have a: "answers_ok demo_answers (fst first_life)" by code_simp
  have b: "answers_ok (demo_answers\<lparr>ans_accept := Errno 11\<rparr>) t" for t by (simp add: answers_ok_def)
  have "events_ok demo_events first_life"
    using n supply_none [OF i] demo_clock a b
    by (auto simp: demo_events_def intro: supply_none split: sum.split)
  moreover have "isl (processEvents demo_events first_life) = False" by code_simp
  then have "processEvents demo_events first_life = Inr first_end"
    by (cases "processEvents demo_events first_life") (simp_all add: first_end_def)
  ultimately show ?thesis using processEvents_steps by (simp add: first_life_def)
qed

theorem lives_refine_chat_witness:
  "\<exists>s. inits demo_init (Some (SaveManager_save (srv_db (fst first_end)))) s \<and>
    chat_of s = (chat_of (fst first_end))\<lparr>ch_online := Map.empty\<rparr> \<and> ch_names (chat_of s) ''n'' = Some ''alice'' \<and>
    chat_step\<^sup>*\<^sup>* empty_chat (chat_of s)"
proof -
  let ?z = "newServer\<lparr>srv_fd := 3\<rparr>"
  have l: "openListener demo_init = Inr 3" "ia_socket demo_init = Ok 3" "c_int 3" by code_simp+
  then have z: "inits demo_init None ?z" by (simp add: inits_def Server_init_def SaveManager_load_def)
  have st: "started ?z" "typed ?z" by code_simp+
  have d: "on_disk (Some (SaveManager_save (srv_db (fst first_end)))) ((chat_of (fst first_end))\<lparr>ch_online := Map.empty\<rparr>)"
    by (rule on_disk.saved [OF on_disk.absent z l(2,3) first_life_runs])
  obtain s where s: "inits demo_init (Some (SaveManager_save (srv_db (fst first_end)))) s"
    using restarts [OF st first_life_runs l(1,3)] by blast
  have r: "loop_step\<^sup>*\<^sup>* (run_start s) (s, snd (run_start s))" by (simp add: run_start_def)
  have c: "chat_of s = (chat_of (fst first_end))\<lparr>ch_online := Map.empty\<rparr>" "chat_step\<^sup>*\<^sup>* empty_chat (chat_of s)"
    using lives_refine_chat [OF d s l(2,3) r] by auto
  have "map_option usr_name (find (\<lambda>u. usr_uuid u = ''n'') (db_users (srv_db (fst first_end)))) = Some ''alice''"
    by code_simp
  then have "ch_names (chat_of (fst first_end)) ''n'' = Some ''alice''"
    by (simp only: chat_of_def chat_db_simps names_def findUser_def)
  with c s show ?thesis by (intro exI [of _ s]) simp
qed

end
