(* ===== verification/Client_Commands.thy ===== *)
theory Client_Commands
  imports Wire
begin

text \<open>
  What the client does with a typed line before it is sent:
  \<open>src/client/protocol/CommandSchemas.hpp\<close> (the table of commands) and
  \<open>src/client/protocol/CommandLineDispatcher.cpp\<close>. \<open>TokenParser\<close> is in \<open>Wire\<close>.
\<close>

section \<open>The table of commands\<close>

definition maxName :: nat where "maxName = 32"
definition maxBody :: nat where "maxBody = 512"
definition maxUuid :: nat where "maxUuid = 36"

record argSchema =
  arg_maxLen :: nat
  arg_name :: string

record commandSchema =
  sch_name :: string
  sch_usage :: string
  sch_minArgs :: nat
  sch_maxArgs :: nat
  sch_args :: "argSchema list"

text \<open>\<open>std::array<ArgSchema, 3>\<close>: the entries an initializer leaves out are value-initialized.\<close>

definition argSchemas :: "(nat \<times> string) list \<Rightarrow> argSchema list" where
  "argSchemas xs = map (\<lambda>(n, s). \<lparr>arg_maxLen = n, arg_name = s\<rparr>) xs @
     replicate (3 - length xs) \<lparr>arg_maxLen = 0, arg_name = []\<rparr>"

definition schema :: "string \<Rightarrow> string \<Rightarrow> nat \<Rightarrow> nat \<Rightarrow> (nat \<times> string) list \<Rightarrow> commandSchema" where
  "schema n u mn mx xs = \<lparr>sch_name = n, sch_usage = u, sch_minArgs = mn, sch_maxArgs = mx, sch_args = argSchemas xs\<rparr>"

definition dq :: "string \<Rightarrow> string" where
  "dq s = DQ # s @ [DQ]"

definition schemas :: "commandSchema list" where
  "schemas =
    [schema ''/login'' (''/login '' @ dq ''user_name'') 1 1 [(maxName, ''user_name'')],
     schema ''/logout'' ''/logout'' 0 0 [],
     schema ''/users'' ''/users'' 0 0 [],
     schema ''/user'' (''/user '' @ dq ''user_uuid'') 1 1 [(maxUuid, ''user_uuid'')],
     schema ''/send'' (''/send '' @ dq ''user_uuid'' @ '' '' @ dq ''message_body'') 2 2
       [(maxUuid, ''user_uuid''), (maxBody, ''message_body'')],
     schema ''/messages'' (''/messages '' @ dq ''user_uuid'') 1 1 [(maxUuid, ''user_uuid'')],
     schema ''/subscribe'' (''/subscribe '' @ dq ''team_uuid'') 1 1 [(maxUuid, ''team_uuid'')],
     schema ''/subscribed'' (''/subscribed ?'' @ dq ''team_uuid'') 0 1 [(maxUuid, ''team_uuid'')],
     schema ''/unsubscribe'' (''/unsubscribe '' @ dq ''team_uuid'') 1 1 [(maxUuid, ''team_uuid'')],
     schema ''/use'' (''/use ?'' @ dq ''team_uuid'' @ '' ?'' @ dq ''channel_uuid'' @ '' ?'' @ dq ''thread_uuid'') 0 3
       [(maxUuid, ''team_uuid''), (maxUuid, ''channel_uuid''), (maxUuid, ''thread_uuid'')],
     schema ''/create'' (''/create '' @ dq ''comment_body'' @ '' (after /use team channel thread)'') 1 1
       [(maxBody, ''comment_body'')],
     schema ''/create'' (''/create '' @ dq ''name'' @ '' '' @ dq ''description/message'' @ '' (team, channel, or thread)'') 2 2
       [(maxName, ''name''), (maxBody, ''description/message'')],
     schema ''/list'' ''/list'' 0 0 [],
     schema ''/info'' ''/info'' 0 0 []]"

section \<open>The dispatcher\<close>

text \<open>The scan of the arguments: blanks, an opening quote, the text up to the closing quote, again.\<close>

function hasUnquotedArgs :: "string \<Rightarrow> bool" where
  "hasUnquotedArgs s =
     (let t = dropWhile isspace s in
      if t = [] then False
      else if hd t \<noteq> DQ then True
      else
        (let u = dropWhile (\<lambda>c. c \<noteq> DQ) (tl t) in
         if u = [] then True else hasUnquotedArgs (tl u)))"
  by pat_completeness auto
termination
proof (relation "measure length")
  fix s t u :: string
  assume t: "t = dropWhile isspace s" "t \<noteq> []" and u: "u = dropWhile (\<lambda>c. c \<noteq> DQ) (tl t)"
  have "length u \<le> length (tl t)" unfolding u by (rule length_dropWhile_le)
  moreover have "length t \<le> length s" unfolding t by (rule length_dropWhile_le)
  ultimately show "(tl u, s) \<in> measure length" using t(2) by (cases t; cases u) auto
qed simp

declare hasUnquotedArgs.simps [simp del]

definition findSchema :: "string \<Rightarrow> nat \<Rightarrow> commandSchema option" where
  "findSchema command argc =
     find (\<lambda>x. sch_name x = command \<and> argc \<ge> sch_minArgs x \<and> argc \<le> sch_maxArgs x) schemas"

definition trimLeft :: "string \<Rightarrow> string" where
  "trimLeft line = dropWhile isspace line"

definition extractCommand :: "string \<Rightarrow> string option" where
  "extractCommand line =
     (case TokenParser_parse line of None \<Rightarrow> None | Some [] \<Rightarrow> None | Some (t # ts) \<Rightarrow> Some t)"

definition isSupportedServerCommand :: "string \<Rightarrow> bool" where
  "isSupportedServerCommand command = list_ex (\<lambda>x. sch_name x = command) schemas"

text \<open>The loop over the tokens and the entries of the schema; \<open>findSchema\<close> has checked that there
  are enough entries.\<close>

fun tooLong :: "string list \<Rightarrow> argSchema list \<Rightarrow> argSchema option" where
  "tooLong (t # ts) (a # as) = (if length t > arg_maxLen a then Some a else tooLong ts as)"
| "tooLong _ _ = None"

definition validateArgs :: "string \<Rightarrow> string \<Rightarrow> string option" where
  "validateArgs command argsView =
     (if hasUnquotedArgs argsView then Some ''Invalid command format: arguments must be quoted''
      else case TokenParser_parse argsView of
        None \<Rightarrow> Some ''Invalid command format''
      | Some tokens \<Rightarrow>
          (case findSchema command (length tokens) of
             None \<Rightarrow> Some (''Wrong number of arguments for '' @ command)
           | Some x \<Rightarrow>
               (case tooLong tokens (sch_args x) of
                  None \<Rightarrow> None
                | Some a \<Rightarrow> Some (arg_name a @ '' exceeds max length of '' @ to_string (int (arg_maxLen a))))))"

definition printHelp :: string where
  "printHelp = ''/help'' @ LF # concat (map (\<lambda>x. sch_usage x @ [LF]) schemas)"

section \<open>What a validated line is\<close>

lemma schema_arity: "x \<in> set schemas \<Longrightarrow> sch_maxArgs x \<le> length (sch_args x)"
proof -
  have "list_all (\<lambda>x. sch_maxArgs x \<le> length (sch_args x)) schemas" by code_simp
  then show "x \<in> set schemas \<Longrightarrow> sch_maxArgs x \<le> length (sch_args x)" unfolding list_all_iff by blast
qed

definition command_word :: "string \<Rightarrow> bool" where
  "command_word c \<longleftrightarrow> c \<noteq> [] \<and> hd c = CHR ''/'' \<and> list_all (\<lambda>x. \<not> isspace x \<and> x \<noteq> DQ) c"

lemma supported_name: "isSupportedServerCommand c \<Longrightarrow> command_word c"
proof -
  have "list_all (\<lambda>x. command_word (sch_name x)) schemas" by code_simp
  then show "isSupportedServerCommand c \<Longrightarrow> command_word c"
    unfolding isSupportedServerCommand_def list_ex_iff list_all_iff by blast
qed

lemma tooLong_None:
  "tooLong ts as = None \<Longrightarrow> length ts \<le> length as \<Longrightarrow> i < length ts \<Longrightarrow> length (ts ! i) \<le> arg_maxLen (as ! i)"
proof (induction ts as arbitrary: i rule: tooLong.induct)
  case (1 t ts a as)
  then show ?case by (cases i) (auto split: if_splits)
qed auto

lemma butlast_has_SP: "w \<noteq> [] \<Longrightarrow> SP \<in> set (butlast (q @ SP # w))"
  by (simp add: butlast_append)

lemma parseQuoted_has_SP: "parseQuoted q s = Some (a, r) \<Longrightarrow> SP \<in> set a"
proof (induction q s rule: parseQuoted.induct)
  case (1 q s)
  then show ?case
    using butlast_has_SP [OF getWord_nonempty, of s _ r]
    by (auto simp: parseQuoted.simps [of q s] split: option.splits if_splits)
qed

text \<open>A supported command is the first word of the line as typed: had it been written in quotes, what is
  left after removing as many characters would start in the middle of it.\<close>

lemma command_bare:
  assumes "extractCommand s = Some c" and "isSupportedServerCommand c" and "s \<noteq> []" and "\<not> isspace (hd s)"
    and "\<not> hasUnquotedArgs (drop (length c) s)"
  obtains r where "s = c @ r" and "getWord s = Some (c, r)" and "hd c \<noteq> DQ"
proof -
  note c = supported_name [OF assms(2)]
  obtain ts where ts: "TokenParser_loop [] s = Some (c # ts)"
    using assms(1) by (auto simp: extractCommand_def TokenParser_parse_def split: option.splits list.splits)
  obtain w r where g: "getWord s = Some (w, r)"
    using assms(3,4) by (cases "getWord s") (auto simp: getWord_def Let_def split: if_splits dest: dropWhile_eq_Nil_conv [THEN iffD1])
  have s: "s = w @ r" using g assms(3,4) by (cases s) (auto simp: getWord_def Let_def)
  have w: "w \<noteq> []" using getWord_nonempty g by blast
  have "hd w \<noteq> DQ"
  proof
    assume q: "hd w = DQ"
    show False
    proof (cases "tl w \<noteq> [] \<and> last (tl w) = DQ")
      case True
      then have "TokenParser_loop [butlast (tl w)] r = Some (c # ts)"
        using ts q by (simp add: TokenParser_loop.simps [of _ s] g Let_def)
      then have cw: "c = butlast (tl w)" by (auto simp: TokenParser_loop_acc [of "[_]"])
      with True q w have w': "w = DQ # c @ [DQ]" by (metis append_butlast_last_id list.collapse)
      obtain c' x where cx: "c = c' @ [x]" using c by (cases c rule: rev_cases) (auto simp: command_word_def)
      then have "drop (length c) s = x # DQ # r" by (simp add: s w')
      moreover have "\<not> isspace x" "x \<noteq> DQ" using c cx by (auto simp: command_word_def)
      ultimately show False using assms(5) by (simp add: hasUnquotedArgs.simps [of "x # _"])
    next
      case False
      then obtain a r' where a: "parseQuoted (tl w) r = Some (a, r')" "TokenParser_loop [a] r' = Some (c # ts)"
        using ts q by (auto simp: TokenParser_loop.simps [of _ s] g Let_def split: option.splits)
      from a(2) have "c = a" by (auto simp: TokenParser_loop_acc [of "[a]"])
      with parseQuoted_has_SP [OF a(1)] have "SP \<in> set c" by simp
      with c show False unfolding command_word_def list_all_iff using isspace_SP by blast
    qed
  qed
  moreover from this have "TokenParser_loop [w] r = Some (c # ts)"
    using ts by (simp add: TokenParser_loop.simps [of _ s] g)
  then have "c = w" by (auto simp: TokenParser_loop_acc [of "[_]"])
  ultimately show thesis using that s g by simp
qed

lemma validated_tokens:
  assumes "extractCommand s = Some c" and "isSupportedServerCommand c" and "s \<noteq> []" and "\<not> isspace (hd s)"
    and "validateArgs c (drop (length c) s) = None"
  obtains args x where "c @ drop (length c) s = s" and "TokenParser_parse s = Some (c # args)"
    and "x \<in> set schemas" and "sch_name x = c" and "sch_minArgs x \<le> length args" and "length args \<le> sch_maxArgs x"
    and "\<And>i. i < length args \<Longrightarrow> length (args ! i) \<le> arg_maxLen (sch_args x ! i)"
proof -
  let ?v = "drop (length c) s"
  from assms(5) obtain args x where q: "\<not> hasUnquotedArgs ?v" and a: "TokenParser_parse ?v = Some args"
    and x: "findSchema c (length args) = Some x" and l: "tooLong args (sch_args x) = None"
    by (auto simp: validateArgs_def split: if_splits option.splits)
  from command_bare [OF assms(1-4) q] obtain r where s: "s = c @ r" "getWord s = Some (c, r)" "hd c \<noteq> DQ" .
  have "TokenParser_parse s = TokenParser_loop [c] r"
    using s(2,3) by (simp add: TokenParser_parse_def TokenParser_loop.simps [of _ s])
  then have "TokenParser_parse s = Some (c # args)"
    using a s(1) by (simp add: TokenParser_loop_acc [of "[c]"] TokenParser_parse_def)
  note p = this
  have f: "x \<in> set schemas" "sch_name x = c" "sch_minArgs x \<le> length args" "length args \<le> sch_maxArgs x"
    using find_Some_mem [OF x [unfolded findSchema_def]] by auto
  have "length args \<le> length (sch_args x)"
    using f(4) schema_arity [OF f(1)] by (rule le_trans)
  note len = tooLong_None [OF l this]
  have "c @ drop (length c) s = s" using s(1) by simp
  from that [OF this p f len] show thesis .
qed

end
