(* ===== verification/Client_Router.thy ===== *)
theory Client_Router
  imports Wire Decimal "HOL-Library.AList"
begin

text \<open>
  What the client does with a line of the server: \<open>src/client/User.cpp\<close>,
  \<open>src/client/protocol/ServerMessageRouter.cpp\<close> and the handlers under
  \<open>src/client/protocol/handlers\<close>. A call of the logging library and a text written to
  \<open>std::cout\<close> is a \<open>client_event\<close>, recorded in order in \<open>rt_log\<close> with the arguments as a C function sees them.
  The references \<open>_user\<close>, \<open>_shouldDisconnect\<close> and \<open>_pendingCommand\<close> that a \<open>ResponseStatusHandler\<close>
  holds are the fields of the router.
\<close>

datatype client_event =
    cout string
  | client_event_logged_in string string
  | client_event_logged_out string string
  | client_event_private_message_received string string
  | client_event_thread_reply_received string string string string
  | client_event_team_created string string string
  | client_event_channel_created string string string
  | client_event_thread_created string string int string string
  | client_print_users string string int
  | client_print_teams string string string
  | client_team_print_channels string string string
  | client_channel_print_threads string string int string string
  | client_thread_print_replies string string int string
  | client_private_message_print_messages string int string
  | client_error_unknown_team string
  | client_error_unknown_channel string
  | client_error_unknown_thread string
  | client_error_unknown_user string
  | client_error_unauthorized
  | client_error_already_exist
  | client_print_user string string int
  | client_print_team string string string
  | client_print_channel string string string
  | client_print_thread string string int string string
  | client_print_team_created string string string
  | client_print_channel_created string string string
  | client_print_thread_created string string int string string
  | client_print_reply_created string string int string
  | client_print_subscribed string string
  | client_print_unsubscribed string string

section \<open>The user and the router\<close>

record clientUser =
  cu_uuid :: uuid
  cu_name :: string
  cu_loggedIn :: bool

definition User_login :: "uuid \<Rightarrow> string \<Rightarrow> clientUser \<Rightarrow> clientUser" where
  "User_login u n x = x\<lparr>cu_uuid := u, cu_name := n, cu_loggedIn := True\<rparr>"

definition User_logout :: "clientUser \<Rightarrow> clientUser" where
  "User_logout x = x\<lparr>cu_uuid := [], cu_name := [], cu_loggedIn := False\<rparr>"

record router =
  rt_user :: clientUser
  rt_shouldDisconnect :: bool
  rt_pendingCommand :: string
  rt_listContext :: string
  rt_log :: "client_event list"

definition newRouter :: router where
  "newRouter = \<lparr>rt_user = \<lparr>cu_uuid = [], cu_name = [], cu_loggedIn = False\<rparr>, rt_shouldDisconnect = False,
     rt_pendingCommand = [], rt_listContext = [], rt_log = []\<rparr>"

definition setPendingCommand :: "string \<Rightarrow> router \<Rightarrow> router" where
  "setPendingCommand c r = r\<lparr>rt_pendingCommand := c\<rparr>"

definition call :: "client_event \<Rightarrow> router \<Rightarrow> router" where
  "call ev r = r\<lparr>rt_log := rt_log r @ [ev]\<rparr>"

type_synonym handler = "string list \<Rightarrow> router \<Rightarrow> router"

text \<open>The C string of the i-th token.\<close>

definition tok :: "string list \<Rightarrow> nat \<Rightarrow> string" where
  "tok tokens i = c_str (tokens ! i)"

section \<open>Events\<close>

definition TeamCreatedHandler_handle :: handler where
  "TeamCreatedHandler_handle tokens r =
     (if length tokens < 5 then r
      else call (client_event_team_created (tok tokens 2) (tok tokens 3) (tok tokens 4)) r)"

definition ChannelCreatedHandler_handle :: handler where
  "ChannelCreatedHandler_handle tokens r =
     (if length tokens < 5 then r
      else call (client_event_channel_created (tok tokens 2) (tok tokens 3) (tok tokens 4)) r)"

definition ThreadCreatedHandler_handle :: handler where
  "ThreadCreatedHandler_handle tokens r =
     (if length tokens < 7 then r
      else case stoll (tokens ! 4) of
        None \<Rightarrow> r
      | Some timestamp \<Rightarrow>
          call (client_event_thread_created (tok tokens 2) (tok tokens 3) timestamp (tok tokens 5) (tok tokens 6)) r)"

definition ReplyCreatedHandler_handle :: handler where
  "ReplyCreatedHandler_handle tokens r =
     (if length tokens < 6 then r
      else call (client_event_thread_reply_received (tok tokens 2) (tok tokens 3) (tok tokens 4) (tok tokens 5)) r)"

definition UserLoggedInHandler_handle :: handler where
  "UserLoggedInHandler_handle tokens r =
     (if length tokens < 4 then r else call (client_event_logged_in (tok tokens 2) (tok tokens 3)) r)"

definition UserLoggedOutHandler_handle :: handler where
  "UserLoggedOutHandler_handle tokens r =
     (if length tokens < 4 then r else call (client_event_logged_out (tok tokens 2) (tok tokens 3)) r)"

definition PrivateMessageHandler_handle :: handler where
  "PrivateMessageHandler_handle tokens r =
     (if length tokens < 4 then r else call (client_event_private_message_received (tok tokens 2) (tok tokens 3)) r)"

section \<open>Status replies\<close>

text \<open>How many tokens a reply has at least, and where its fields are.\<close>

definition minHeaderTokens :: nat where [simp]: "minHeaderTokens = 3"
definition userMinTokens :: nat where [simp]: "userMinTokens = 5"
definition infoMinTokens :: nat where [simp]: "infoMinTokens = 6"
definition threadInfoMinTokens :: nat where [simp]: "threadInfoMinTokens = 8"
definition subscribeMinTokens :: nat where [simp]: "subscribeMinTokens = 4"
definition loginTokens :: nat where [simp]: "loginTokens = 4"
definition teamChannelMinTokens :: nat where [simp]: "teamChannelMinTokens = 6"
definition threadCreateMinTokens :: nat where [simp]: "threadCreateMinTokens = 8"
definition replyCreateMinTokens :: nat where [simp]: "replyCreateMinTokens = 7"
definition userUuidIndex :: nat where [simp]: "userUuidIndex = 2"
definition userNameIndex :: nat where [simp]: "userNameIndex = 3"
definition userStatusIndex :: nat where [simp]: "userStatusIndex = 4"
definition teamUuidIndex :: nat where [simp]: "teamUuidIndex = 3"
definition infoUuidIndex :: nat where [simp]: "infoUuidIndex = 3"
definition infoNameIndex :: nat where [simp]: "infoNameIndex = 4"
definition infoDescriptionIndex :: nat where [simp]: "infoDescriptionIndex = 5"
definition threadTimestampIndex :: nat where [simp]: "threadTimestampIndex = 5"
definition threadTitleIndex :: nat where [simp]: "threadTitleIndex = 6"
definition threadBodyIndex :: nat where [simp]: "threadBodyIndex = 7"

text \<open>The parser is a function that may throw; \<open>out\<close> is only used when the result is true.\<close>

definition tryParse :: "string \<Rightarrow> (string \<Rightarrow> 'a option) \<Rightarrow> 'a option" where [simp]:
  "tryParse value parseFunc = (case parseFunc value of None \<Rightarrow> None | Some out \<Rightarrow> Some out)"

definition parseTimestamp :: "string \<Rightarrow> int option" where [simp]:
  "parseTimestamp value = tryParse value stoll"

definition handle200Ok :: handler where
  "handle200Ok tokens r =
     (if length tokens \<ge> loginTokens then r\<lparr>rt_user := User_login (tokens ! userUuidIndex) (tokens ! userNameIndex) (rt_user r)\<rparr>
      else if rt_pendingCommand r = ''/logout'' then
        r\<lparr>rt_user := User_logout (rt_user r), rt_shouldDisconnect := True\<rparr>
      else r)"

definition handle200User :: handler where
  "handle200User tokens r =
     (if length tokens < userMinTokens then r
      else case tryParse (tokens ! userStatusIndex) stoi of
        None \<Rightarrow> r
      | Some status \<Rightarrow> call (client_print_user (tok tokens userUuidIndex) (tok tokens userNameIndex) status) r)"

definition handle200Subscribe :: handler where
  "handle200Subscribe tokens r =
     (if length tokens < subscribeMinTokens then r else call (client_print_subscribed (tok tokens userUuidIndex) (tok tokens teamUuidIndex)) r)"

definition handle200Unsubscribe :: handler where
  "handle200Unsubscribe tokens r =
     (if length tokens < subscribeMinTokens then r else call (client_print_unsubscribed (tok tokens userUuidIndex) (tok tokens teamUuidIndex)) r)"

definition handle200InfoUser :: handler where
  "handle200InfoUser tokens r =
     (if length tokens < infoMinTokens then r
      else case tryParse (tokens ! infoDescriptionIndex) stoi of
        None \<Rightarrow> r
      | Some status \<Rightarrow> call (client_print_user (tok tokens infoUuidIndex) (tok tokens infoNameIndex) status) r)"

definition handle200InfoTeam :: handler where
  "handle200InfoTeam tokens r =
     (if length tokens < infoMinTokens then r
      else call (client_print_team (tok tokens infoUuidIndex) (tok tokens infoNameIndex) (tok tokens infoDescriptionIndex)) r)"

definition handle200InfoChannel :: handler where
  "handle200InfoChannel tokens r =
     (if length tokens < infoMinTokens then r
      else call (client_print_channel (tok tokens infoUuidIndex) (tok tokens infoNameIndex) (tok tokens infoDescriptionIndex)) r)"

definition handle200InfoThread :: handler where
  "handle200InfoThread tokens r =
     (if length tokens < threadInfoMinTokens then r
      else case parseTimestamp (tokens ! threadTimestampIndex) of
        None \<Rightarrow> r
      | Some timestamp \<Rightarrow>
          call (client_print_thread (tok tokens infoUuidIndex) (tok tokens infoNameIndex) timestamp (tok tokens threadTitleIndex) (tok tokens threadBodyIndex)) r)"

text \<open>The tables of member functions, by key; a key that is not in the table is ignored.\<close>

definition run_table :: "(string \<times> handler) list \<Rightarrow> string \<Rightarrow> handler" where
  "run_table table k tokens r = (case map_of table k of None \<Rightarrow> r | Some h \<Rightarrow> h tokens r)"

definition handle200Info :: handler where
  "handle200Info tokens r =
     (if length tokens < minHeaderTokens then r
      else run_table [(''USER'', handle200InfoUser), (''TEAM'', handle200InfoTeam),
        (''CHANNEL'', handle200InfoChannel), (''THREAD'', handle200InfoThread)] (tokens ! 2) tokens r)"

definition handle200 :: handler where
  "handle200 tokens r =
     (if length tokens < 2 then r
      else run_table [(''OK'', handle200Ok), (''USER'', handle200User), (''SUBSCRIBE'', handle200Subscribe),
        (''UNSUBSCRIBE'', handle200Unsubscribe), (''INFO'', handle200Info)] (tokens ! 1) tokens r)"

definition handle201 :: handler where
  "handle201 tokens r =
     (if length tokens < minHeaderTokens then r
      else
        (let type = tokens ! 2 in
         if type = ''TEAM'' \<and> length tokens \<ge> teamChannelMinTokens then
           call (client_print_team_created (tok tokens 3) (tok tokens 4) (tok tokens infoDescriptionIndex)) r
         else if type = ''CHANNEL'' \<and> length tokens \<ge> teamChannelMinTokens then
           call (client_print_channel_created (tok tokens 3) (tok tokens 4) (tok tokens infoDescriptionIndex)) r
         else if type = ''THREAD'' \<and> length tokens \<ge> threadCreateMinTokens then
           (case parseTimestamp (tokens ! infoDescriptionIndex) of
              None \<Rightarrow> r
            | Some timestamp \<Rightarrow>
                call (client_print_thread_created (tok tokens 3) (tok tokens 4) timestamp (tok tokens threadTitleIndex) (tok tokens threadBodyIndex)) r)
         else if type = ''REPLY'' \<and> length tokens \<ge> replyCreateMinTokens then
           (case parseTimestamp (tokens ! infoDescriptionIndex) of
              None \<Rightarrow> r
            | Some timestamp \<Rightarrow>
                call (client_print_reply_created (tok tokens 3) (tok tokens 4) timestamp (tok tokens 6)) r)
         else r))"

definition handle400 :: handler where
  "handle400 tokens r = call (cout (''Error: bad request'' @ [LF])) r"

definition handle401 :: handler where
  "handle401 tokens r = call client_error_unauthorized r"

definition handle403 :: handler where
  "handle403 tokens r = call client_error_unauthorized r"

definition handle404 :: handler where
  "handle404 tokens r =
     (if length tokens \<ge> 4 then
        (let type = tokens ! 2 in
         if type = ''TEAM'' then call (client_error_unknown_team (tok tokens 3)) r
         else if type = ''CHANNEL'' then call (client_error_unknown_channel (tok tokens 3)) r
         else if type = ''THREAD'' then call (client_error_unknown_thread (tok tokens 3)) r
         else if type = ''USER'' then call (client_error_unknown_user (tok tokens 3)) r
         else r)
      else if length tokens \<ge> 3 then
        (if rt_pendingCommand r = ''/user'' \<or> rt_pendingCommand r = ''/send'' \<or> rt_pendingCommand r = ''/messages''
         then call (client_error_unknown_user (tok tokens 2)) r else r)
      else r)"

definition handle409 :: handler where
  "handle409 tokens r = call client_error_already_exist r"

definition ResponseStatusHandler_handle :: "string \<Rightarrow> handler" where
  "ResponseStatusHandler_handle code =
     run_table [(''200'', handle200), (''201'', handle201), (''400'', handle400), (''401'', handle401),
       (''403'', handle403), (''404'', handle404), (''409'', handle409)] code"

section \<open>Lists\<close>

definition safeLL :: "string \<Rightarrow> int option" where [simp]: "safeLL str = stoll str"
definition MIN_TOKENS_BASIC :: nat where [simp]: "MIN_TOKENS_BASIC = 4"
definition MIN_TOKENS_REPLY :: nat where [simp]: "MIN_TOKENS_REPLY = 5"
definition MIN_TOKENS_THREAD :: nat where [simp]: "MIN_TOKENS_THREAD = 6"

definition printUsers :: handler where
  "printUsers tokens r =
     (if length tokens < MIN_TOKENS_BASIC then r
      else case safeLL (tokens ! 3) of
        None \<Rightarrow> r
      | Some v \<Rightarrow> call (client_print_users (tok tokens 1) (tok tokens 2) (static_cast_int v)) r)"

definition printTeams :: handler where
  "printTeams tokens r =
     (if length tokens < MIN_TOKENS_BASIC then r else call (client_print_teams (tok tokens 1) (tok tokens 2) (tok tokens 3)) r)"

definition printChannels :: handler where
  "printChannels tokens r =
     (if length tokens < MIN_TOKENS_BASIC then r else call (client_team_print_channels (tok tokens 1) (tok tokens 2) (tok tokens 3)) r)"

definition printThreads :: handler where
  "printThreads tokens r =
     (if length tokens < MIN_TOKENS_THREAD then r
      else case safeLL (tokens ! 3) of
        None \<Rightarrow> r
      | Some v \<Rightarrow> call (client_channel_print_threads (tok tokens 1) (tok tokens 2) v (tok tokens 4) (tok tokens 5)) r)"

definition printReplies :: handler where
  "printReplies tokens r =
     (if length tokens < MIN_TOKENS_REPLY then r
      else case safeLL (tokens ! 3) of
        None \<Rightarrow> r
      | Some v \<Rightarrow> call (client_thread_print_replies (tok tokens 1) (tok tokens 2) v (tok tokens 4)) r)"

definition printMessages :: handler where
  "printMessages tokens r =
     (if length tokens < MIN_TOKENS_BASIC then r
      else case safeLL (tokens ! 2) of
        None \<Rightarrow> r
      | Some v \<Rightarrow> call (client_private_message_print_messages (tok tokens 1) v (tok tokens 3)) r)"

definition listHandlers :: "(string \<times> handler) list" where
  "listHandlers = [(''USERS'', printUsers), (''TEAMS'', printTeams), (''CHANNELS'', printChannels),
     (''THREADS'', printThreads), (''REPLIES'', printReplies), (''MESSAGES'', printMessages)]"

section \<open>Routing\<close>

text \<open>\<open>_handlers[command] = handler\<close>: a later handler with the same command takes the place of the earlier one.\<close>

definition registerHandler :: "string \<times> handler \<Rightarrow> (string \<times> handler) list \<Rightarrow> (string \<times> handler) list" where
  "registerHandler h handlers = AList.update (fst h) (snd h) handlers"

definition commandHandlers :: "(string \<times> handler) list" where
  "commandHandlers = fold registerHandler
    [(''TEAM_CREATED'', TeamCreatedHandler_handle), (''CHANNEL_CREATED'', ChannelCreatedHandler_handle),
     (''THREAD_CREATED'', ThreadCreatedHandler_handle), (''REPLY_CREATED'', ReplyCreatedHandler_handle),
     (''USER_LOGGED_IN'', UserLoggedInHandler_handle), (''USER_LOGGED_OUT'', UserLoggedOutHandler_handle),
     (''PRIVATE_MESSAGE'', PrivateMessageHandler_handle),
     (''200'', ResponseStatusHandler_handle ''200''), (''201'', ResponseStatusHandler_handle ''201''),
     (''400'', ResponseStatusHandler_handle ''400''), (''401'', ResponseStatusHandler_handle ''401''),
     (''403'', ResponseStatusHandler_handle ''403''), (''404'', ResponseStatusHandler_handle ''404''),
     (''409'', ResponseStatusHandler_handle ''409'')] []"

text \<open>The commands are different, so every handler stays.\<close>

lemma commandHandlers_table: "commandHandlers =
    [(''TEAM_CREATED'', TeamCreatedHandler_handle), (''CHANNEL_CREATED'', ChannelCreatedHandler_handle),
     (''THREAD_CREATED'', ThreadCreatedHandler_handle), (''REPLY_CREATED'', ReplyCreatedHandler_handle),
     (''USER_LOGGED_IN'', UserLoggedInHandler_handle), (''USER_LOGGED_OUT'', UserLoggedOutHandler_handle),
     (''PRIVATE_MESSAGE'', PrivateMessageHandler_handle),
     (''200'', ResponseStatusHandler_handle ''200''), (''201'', ResponseStatusHandler_handle ''201''),
     (''400'', ResponseStatusHandler_handle ''400''), (''401'', ResponseStatusHandler_handle ''401''),
     (''403'', ResponseStatusHandler_handle ''403''), (''404'', ResponseStatusHandler_handle ''404''),
     (''409'', ResponseStatusHandler_handle ''409'')]"
  by (simp add: commandHandlers_def registerHandler_def)

definition routeTokens :: handler where
  "routeTokens tokens r =
     (let first = tokens ! 0 in
      if first = ''210-BEGIN'' then (if length tokens \<ge> 2 then r\<lparr>rt_listContext := tokens ! 1\<rparr> else r)
      else if first = ''210-END'' then r\<lparr>rt_listContext := []\<rparr>
      else if first = ''210'' then run_table listHandlers (rt_listContext r) tokens r
      else if first = ''EVENT'' then
        (if length tokens < 2 then r else run_table commandHandlers (tokens ! 1) tokens r)
      else run_table commandHandlers first tokens r)"

definition routeFrame :: "string \<Rightarrow> router \<Rightarrow> router" where
  "routeFrame frame r =
     (case TokenParser_parse frame of
        None \<Rightarrow> r
      | Some tokens \<Rightarrow> if tokens = [] then r else routeTokens tokens r)"

end
