(* ===== verification/Client_Poller.thy ===== *)
theory Client_Poller
  imports Posix
begin

text \<open>
  The client's own poller (\<open>src/client/network/Poller.cpp\<close>) and its \<open>poll\<close>
  (\<open>src/client/sys/Posix.cpp\<close>), translated with the iterators of the source as indices and the loop of
  \<open>poll\<close> with the deadline computed once, and their equality with the poller of the server, whose
  facts the client theories use.
\<close>

section \<open>\<open>poll\<close>\<close>

fun Client_poll_loop :: "bool \<Rightarrow> int \<Rightarrow> int \<Rightarrow> poll_turn list \<Rightarrow> (exn + int \<times> (nat \<Rightarrow> 16 word) option) option" where
  "Client_poll_loop hasTimeout deadline timeout [] = None"
| "Client_poll_loop hasTimeout deadline timeout ((now, answer) # turns) =
     (if hasTimeout \<and> now \<ge> deadline then Some (Inr (0, None))
      else
        (let timeoutMs = (if hasTimeout then (deadline - now) div 1000000 else timeout) in
         case answer timeoutMs of
           Errno n \<Rightarrow>
             if n = EINTR then Client_poll_loop hasTimeout deadline timeout turns
             else Some (Inl (System_error ''poll''))
         | Ok (numReady, revents) \<Rightarrow> Some (Inr (numReady, Some revents))))"

definition Client_poll :: "int \<Rightarrow> int \<Rightarrow> poll_turn list \<Rightarrow> (exn + int \<times> (nat \<Rightarrow> 16 word) option) option" where
  "Client_poll timeout start = Client_poll_loop (timeout \<ge> 0) (start + timeout * 1000000) timeout"

section \<open>The poller\<close>

definition Client_addFileDescriptor :: "int \<Rightarrow> int \<Rightarrow> poller \<Rightarrow> poller" where
  "Client_addFileDescriptor fd events ps =
     (let p = \<lparr>pfd_fd = fd, pfd_events = word_of_int events, pfd_revents = 0\<rparr> in ps @ [p])"

text \<open>\<open>std::ranges::find_if\<close>: the index of the first entry with the descriptor, the length when there is none.\<close>

fun find_fd :: "int \<Rightarrow> poller \<Rightarrow> nat" where
  "find_fd fd [] = 0"
| "find_fd fd (p # ps) = (if pfd_fd p = fd then 0 else Suc (find_fd fd ps))"

definition Client_updateWatchedEvents :: "int \<Rightarrow> int \<Rightarrow> poller \<Rightarrow> poller" where
  "Client_updateWatchedEvents fd events ps =
     (let iter = find_fd fd ps in
      if iter \<noteq> length ps then ps[iter := (ps ! iter)\<lparr>pfd_events := word_of_int events\<rparr>] else ps)"

definition Client_removeFileDescriptor :: "int \<Rightarrow> poller \<Rightarrow> poller" where
  "Client_removeFileDescriptor fd ps =
     (let iter = find_fd fd ps in
      if iter \<noteq> length ps then take iter ps @ drop (Suc iter) ps else ps)"

fun Client_collect :: "pollEvent list \<Rightarrow> poller \<Rightarrow> pollEvent list" where
  "Client_collect events [] = events"
| "Client_collect events (entry # entries) =
     (if pfd_revents entry \<noteq> 0
      then Client_collect (events @ [\<lparr>ev_fd = pfd_fd entry, ev_revents = sint (pfd_revents entry)\<rparr>]) entries
      else Client_collect events entries)"

definition Client_waitForEvents :: "int \<Rightarrow> int \<Rightarrow> poll_turn list \<Rightarrow> poller \<Rightarrow> (exn + pollEvent list \<times> poller) option" where
  "Client_waitForEvents timeout start turns ps =
     (case Client_poll timeout start turns of
        None \<Rightarrow> None
      | Some (Inl x) \<Rightarrow> Some (Inl x)
      | Some (Inr (ready, r)) \<Rightarrow>
          (let ps1 = (case r of None \<Rightarrow> ps | Some rs \<Rightarrow> setRevents rs ps) in
           if ready \<le> 0 then Some (Inr ([], ps1)) else Some (Inr (Client_collect [] ps1, ps1))))"

section \<open>The same as the server's\<close>

lemma Client_poll_server [simp]: "Client_poll = Posix_poll"
proof -
  have "Client_poll_loop (timeout \<ge> 0) (start + timeout * 1000000) timeout turns = Posix_poll timeout start turns"
    for timeout start turns
    by (induction turns) (auto simp: Let_def split: sys.split)
  then show ?thesis by (simp add: fun_eq_iff Client_poll_def)
qed

lemma find_fd_le: "find_fd fd ps \<le> length ps"
  by (induction ps) auto

lemma Client_addFileDescriptor_server [simp]: "Client_addFileDescriptor = addFileDescriptor"
  by (simp add: fun_eq_iff Client_addFileDescriptor_def addFileDescriptor_def)

lemma Client_updateWatchedEvents_server [simp]: "Client_updateWatchedEvents = updateWatchedEvents"
proof -
  have "Client_updateWatchedEvents fd ev ps = updateWatchedEvents fd ev ps" for fd ev ps
    by (induction ps) (auto simp: Client_updateWatchedEvents_def updateWatchedEvents_def Let_def split: if_splits)
  then show ?thesis by (simp add: fun_eq_iff)
qed

lemma Client_removeFileDescriptor_server [simp]: "Client_removeFileDescriptor = removeFileDescriptor"
proof -
  have "Client_removeFileDescriptor fd ps = removeFileDescriptor fd ps" for fd ps
    by (induction ps) (auto simp: Client_removeFileDescriptor_def Let_def split: if_splits)
  then show ?thesis by (simp add: fun_eq_iff)
qed

lemma Client_collect_ready: "Client_collect evs ps = evs @ readyEvents ps"
  by (induction evs ps rule: Client_collect.induct) (auto simp: readyEvents_def)

lemma Client_waitForEvents_server [simp]: "Client_waitForEvents = waitForEvents"
proof -
  have "Client_collect [] = readyEvents" by (simp add: fun_eq_iff Client_collect_ready)
  then show ?thesis
    unfolding fun_eq_iff Client_waitForEvents_def waitForEvents_def Client_poll_server by (simp only:) simp
qed

section \<open>What it promises\<close>

lemma watched_table:
  "map_of (watched (updateWatchedEvents fd ev ps)) =
     (if fd \<in> set (map pfd_fd ps) then (map_of (watched ps))(fd \<mapsto> word_of_int ev) else map_of (watched ps))"
  "distinct (map pfd_fd ps) \<Longrightarrow> map_of (watched (removeFileDescriptor fd ps)) = (map_of (watched ps))(fd := None)"
  "fd \<notin> set (map pfd_fd ps) \<Longrightarrow>
     map_of (watched (addFileDescriptor fd ev ps)) = (map_of (watched ps))(fd \<mapsto> word_of_int ev)"
proof -
  have out: "map_of (watched ps) fd = None" if "fd \<notin> set (map pfd_fd ps)" for ps
    using that by (induction ps) (auto simp: watched_def)
  show "map_of (watched (updateWatchedEvents fd ev ps)) =
      (if fd \<in> set (map pfd_fd ps) then (map_of (watched ps))(fd \<mapsto> word_of_int ev) else map_of (watched ps))"
    by (induction ps) (auto simp: watched_def updateWatchedEvents_def)
  show "map_of (watched (removeFileDescriptor fd ps)) = (map_of (watched ps))(fd := None)" if "distinct (map pfd_fd ps)"
    using that
  proof (induction ps)
    case (Cons p ps)
    then show ?case using out [of ps] by (auto simp: watched_def fun_eq_iff)
  qed (simp add: watched_def)
  show "map_of (watched (addFileDescriptor fd ev ps)) = (map_of (watched ps))(fd \<mapsto> word_of_int ev)"
    if "fd \<notin> set (map pfd_fd ps)"
    using out [OF that] by (auto simp: addFileDescriptor_def watched_def map_add_def fun_eq_iff split: option.split)
qed

lemma poll_interrupted:
  assumes "list_all (\<lambda>(t, f). (timeout < 0 \<or> t < start + timeout * 1000000) \<and> (\<forall>ms. f ms = Errno EINTR)) interrupted"
  shows "Client_poll timeout start (interrupted @ turns) = Client_poll timeout start turns"
  using assms unfolding Client_poll_server by (induction interrupted) (auto simp: Let_def)

lemma ready_by_index:
  "readyEvents (setRevents rs ps) = map (\<lambda>i. \<lparr>ev_fd = pfd_fd (ps ! i), ev_revents = sint (rs i)\<rparr>)
     (filter (\<lambda>i. rs i \<noteq> 0) [0..<length ps])"
proof -
  have m: "map2 f is xs = map (\<lambda>i. f i (xs ! i)) is" if "is = [0..<length xs]" for f :: "nat \<Rightarrow> pollfd \<Rightarrow> pollfd" and "is" xs
    using that by (intro nth_equalityI) simp_all
  show ?thesis by (simp add: readyEvents_def setRevents_def m filter_map o_def)
qed

text \<open>C40. The client's poller is a table of the events watched per descriptor, and waiting asks the kernel about all of
  it. Registering adds an entry, changing the events changes the entry of that descriptor and nothing else,
  and removing takes away exactly that entry. Waiting repeats interrupted calls, with what is left of the time
  until a deadline fixed at the start, ends with no event once the deadline has passed, throws on any other
  failure, and reports every entry the kernel marked, whatever the mark, once, in the order of registration.\<close>

theorem client_poller_spec:
  assumes "distinct (map pfd_fd ps)" and "deadline = start + timeout * 1000000"
    and "list_all (\<lambda>(t, f). (timeout < 0 \<or> t < deadline) \<and> (\<forall>ms. f ms = Errno EINTR)) interrupted"
    and "answer (if timeout < 0 then timeout else (deadline - now) div 1000000) = r" and "r \<noteq> Errno EINTR"
  shows "(fd \<notin> set (map pfd_fd ps) \<longrightarrow>
      map_of (watched (Client_addFileDescriptor fd ev ps)) = (map_of (watched ps))(fd \<mapsto> word_of_int ev)) \<and>
    map_of (watched (Client_updateWatchedEvents fd ev ps)) =
      (if fd \<in> set (map pfd_fd ps) then (map_of (watched ps))(fd \<mapsto> word_of_int ev) else map_of (watched ps)) \<and>
    map_of (watched (Client_removeFileDescriptor fd ps)) = (map_of (watched ps))(fd := None) \<and>
    (\<exists>ps'. watched ps' = watched ps \<and>
      Client_waitForEvents timeout start (interrupted @ (now, answer) # turns) ps =
        (if 0 \<le> timeout \<and> deadline \<le> now then Some (Inr ([], ps'))
         else case r of
           Errno n \<Rightarrow> Some (Inl (System_error ''poll''))
         | Ok (ready, marks) \<Rightarrow>
             Some (Inr (if ready \<le> 0 then []
               else map (\<lambda>i. \<lparr>ev_fd = pfd_fd (ps ! i), ev_revents = sint (marks i)\<rparr>)
                 (filter (\<lambda>i. marks i \<noteq> 0) [0..<length ps]), ps'))))"
proof (intro conjI)
  have p: "Client_poll timeout start (interrupted @ (now, answer) # turns) = Client_poll timeout start ((now, answer) # turns)"
    using assms(2,3) by (intro poll_interrupted) simp
  let ?ps = "if 0 \<le> timeout \<and> deadline \<le> now then ps else case r of Errno n \<Rightarrow> ps | Ok (ready, marks) \<Rightarrow> setRevents marks ps"
  have last: "Client_poll timeout start ((now, answer) # turns) =
      (if 0 \<le> timeout \<and> deadline \<le> now then Some (Inr (0, None))
       else case r of Errno n \<Rightarrow> Some (Inl (System_error ''poll'')) | Ok (ready, marks) \<Rightarrow> Some (Inr (ready, Some marks)))"
    using assms(2,4,5) by (cases "timeout < 0") (auto simp: Client_poll_def split: sys.splits)
  have collect: "Client_collect [] = readyEvents" by (simp add: fun_eq_iff Client_collect_ready)
  have "Client_waitForEvents timeout start (interrupted @ (now, answer) # turns) ps =
        (if 0 \<le> timeout \<and> deadline \<le> now then Some (Inr ([], ?ps))
         else case r of
           Errno n \<Rightarrow> Some (Inl (System_error ''poll''))
         | Ok (ready, marks) \<Rightarrow>
             Some (Inr (if ready \<le> 0 then []
               else map (\<lambda>i. \<lparr>ev_fd = pfd_fd (ps ! i), ev_revents = sint (marks i)\<rparr>)
                 (filter (\<lambda>i. marks i \<noteq> 0) [0..<length ps]), ?ps)))"
    unfolding Client_waitForEvents_def p collect last by (simp add: Let_def ready_by_index split: sys.split prod.split)
  moreover have "watched ?ps = watched ps" by (auto simp: watched_setRevents split: sys.split)
  ultimately show "\<exists>ps'. watched ps' = watched ps \<and>
      Client_waitForEvents timeout start (interrupted @ (now, answer) # turns) ps =
        (if 0 \<le> timeout \<and> deadline \<le> now then Some (Inr ([], ps'))
         else case r of
           Errno n \<Rightarrow> Some (Inl (System_error ''poll''))
         | Ok (ready, marks) \<Rightarrow>
             Some (Inr (if ready \<le> 0 then []
               else map (\<lambda>i. \<lparr>ev_fd = pfd_fd (ps ! i), ev_revents = sint (marks i)\<rparr>)
                 (filter (\<lambda>i. marks i \<noteq> 0) [0..<length ps]), ps')))" by blast
qed (simp_all add: watched_table assms(1) del: set_map)

text \<open>Terminal and connection; one call is interrupted, the next finds the connection broken.\<close>

theorem client_poller_spec_witness:
  "let ps = Client_addFileDescriptor 3 1 (Client_addFileDescriptor 0 1 []) in
   map_of (watched (Client_removeFileDescriptor 0 ps)) = (map_of (watched ps))(0 := None) \<and>
   (\<exists>ps'. watched ps' = watched ps \<and>
     Client_waitForEvents 1000 0 [(5, \<lambda>_. Errno 4), (7000000, \<lambda>ms. if ms = 993 then Ok (1, \<lambda>i. if i = 1 then 16 else 0) else Errno 22)] ps =
       Some (Inr ([\<lparr>ev_fd = 3, ev_revents = 16\<rparr>], ps')))"
proof -
  define ps where "ps = Client_addFileDescriptor 3 1 (Client_addFileDescriptor 0 1 [])"
  have d: "distinct (map pfd_fd ps)" and l: "map pfd_fd ps = [0, 3]" unfolding ps_def by code_simp+
  define marks :: "nat \<Rightarrow> 16 word" where "marks = (\<lambda>i. if i = 1 then 16 else 0)"
  let ?answer = "\<lambda>ms::int. if ms = 993 then Ok (1 :: int, marks) else Errno 22"
  have n: "length ps = 2" "pfd_fd (ps ! 1) = 3" using arg_cong [OF l, of length] arg_cong [OF l, of "\<lambda>xs. xs ! 1"] by simp_all
  have i: "list_all (\<lambda>(t, f). ((1000::int) < 0 \<or> t < (1000000000::int)) \<and> (\<forall>ms. f ms = Errno EINTR)) [(5, \<lambda>_. Errno 4 :: (int \<times> (nat \<Rightarrow> 16 word)) sys)]"
    by (simp add: EINTR_def)
  have r: "?answer (if (1000::int) < 0 then 1000 else (1000000000 - 7000000) div 1000000) = Ok (1, marks)" by simp
  have e: "map (\<lambda>i. \<lparr>ev_fd = pfd_fd (ps ! i), ev_revents = sint (marks i)\<rparr>) (filter (\<lambda>i. marks i \<noteq> 0) [0..<length ps]) =
      [\<lparr>ev_fd = 3, ev_revents = 16\<rparr>]" using n by (simp add: marks_def upt_rec)
  have "1000000000 = 0 + (1000::int) * 1000000" by simp
  note c = client_poller_spec [where answer = ?answer and now = 7000000 and fd = 0 and ev = 1 and turns = "[]", OF d this i r sys.distinct(1)]
  have "map_of (watched (Client_removeFileDescriptor 0 ps)) = (map_of (watched ps))(0 := None)"
    using c by (elim conjE)
  moreover obtain ps' where "watched ps' = watched ps"
    "Client_waitForEvents 1000 0 [(5, \<lambda>_. Errno 4), (7000000, ?answer)] ps = Some (Inr ([\<lparr>ev_fd = 3, ev_revents = 16\<rparr>], ps'))"
    using c by (elim conjE exE) (simp add: e)
  ultimately show ?thesis unfolding ps_def [symmetric] Let_def marks_def by blast
qed

end
