(* ===== verification/Client_Net.thy ===== *)
theory Client_Net
  imports Client_Poller
begin

text \<open>
  The client's connection: \<open>src/client/sys/Posix.cpp\<close> and \<open>src/client/network/TcpClient.cpp\<close>. A
  system call that the client repeats while it is interrupted takes the list of the kernel's answers;
  \<open>None\<close>: still repeating when the list ends. \<open>poll\<close> and the \<open>Poller\<close> are in \<open>Client_Poller\<close>. A \<open>ClientError\<close> is a \<open>System_error\<close> with the same text; the warnings
  \<open>TcpClient\<close> prints are not recorded. \<open>tc_sent\<close> is what the kernel has accepted on the socket.
\<close>

definition EINPROGRESS :: int where "EINPROGRESS = 115"

section \<open>System calls\<close>

definition Client_socket :: "int sys \<Rightarrow> exn + int" where
  "Client_socket = checked ''socket''"

fun Client_connect :: "unit sys list \<Rightarrow> (exn + bool) option" where
  "Client_connect [] = None"
| "Client_connect (Ok u # rs) = Some (Inr True)"
| "Client_connect (Errno n # rs) =
     (if n = EINTR then Client_connect rs
      else if n = EINPROGRESS then Some (Inr False)
      else Some (Inl (System_error ''connect'')))"

fun Client_read :: "nat \<Rightarrow> string sys list \<Rightarrow> (exn + string option) option" where
  "Client_read count [] = None"
| "Client_read count (Ok d # rs) = Some (Inr (Some (take count d)))"
| "Client_read count (Errno n # rs) =
     (if n = EINTR then Client_read count rs
      else if n = EAGAIN \<or> n = EWOULDBLOCK then Some (Inr None)
      else Some (Inl (System_error ''read'')))"

fun Client_write :: "string \<Rightarrow> nat sys list \<Rightarrow> (exn + nat) option" where
  "Client_write buffer [] = None"
| "Client_write buffer (Ok n # rs) = Some (Inr (min n (length buffer)))"
| "Client_write buffer (Errno n # rs) =
     (if n = EINTR then Client_write buffer rs
      else if n = EAGAIN \<or> n = EWOULDBLOCK then Some (Inr 0)
      else Some (Inl (System_error ''write'')))"

definition Client_close :: "unit sys \<Rightarrow> exn + unit" where
  "Client_close r =
     (case r of Ok u \<Rightarrow> Inr u | Errno n \<Rightarrow> if n = EINTR then Inr () else Inl (System_error ''close''))"

section \<open>The connection\<close>

record tcpClient =
  tc_socketFd :: int
  tc_pendingWrites :: string
  tc_pendingOffset :: nat
  tc_sent :: string

definition newTcpClient :: tcpClient where
  "newTcpClient = \<lparr>tc_socketFd = -1, tc_pendingWrites = [], tc_pendingOffset = 0, tc_sent = []\<rparr>"

definition CONNECT_TIMEOUT_MS :: int where "CONNECT_TIMEOUT_MS = 5000"

text \<open>\<open>completePendingConnect\<close>: the clock and the turns of \<open>poll\<close>, and the error \<open>getsockopt\<close> stores.\<close>

definition completePendingConnect :: "int \<Rightarrow> poll_turn list \<Rightarrow> int sys \<Rightarrow> (exn + unit) option" where
  "completePendingConnect start turns sockerr =
     (case Client_poll CONNECT_TIMEOUT_MS start turns of
        None \<Rightarrow> None
      | Some (Inl x) \<Rightarrow> Some (Inl x)
      | Some (Inr (ready, r)) \<Rightarrow>
          Some (if ready = 0 then Inl (System_error ''connect timeout'')
                else case sockerr of
                  Errno n \<Rightarrow> Inl (System_error ''getsockopt'')
                | Ok connectError \<Rightarrow>
                    if connectError \<noteq> 0 then Inl (System_error ''connect'') else Inr ()))"

text \<open>What the kernel answers while one address is tried.\<close>

record attempt =
  att_socket :: "int sys"
  att_connect :: "unit sys list"
  att_start :: int
  att_polls :: "poll_turn list"
  att_sockerr :: "int sys"

definition tryAddress :: "attempt \<Rightarrow> (exn + int) option" where
  "tryAddress a =
     (case Client_socket (att_socket a) of
        Inl x \<Rightarrow> Some (Inl x)
      | Inr socketFd \<Rightarrow>
          (case Client_connect (att_connect a) of
             None \<Rightarrow> None
           | Some (Inl x) \<Rightarrow> Some (Inl x)
           | Some (Inr connected) \<Rightarrow>
               if connected then Some (Inr socketFd)
               else map_option (map_sum id (\<lambda>u. socketFd))
                 (completePendingConnect (att_start a) (att_polls a) (att_sockerr a))))"

fun tryAddresses :: "attempt list \<Rightarrow> tcpClient \<Rightarrow> tcpClient option" where
  "tryAddresses [] c = Some c"
| "tryAddresses (a # as) c =
     (case tryAddress a of
        None \<Rightarrow> None
      | Some (Inr socketFd) \<Rightarrow> Some (c\<lparr>tc_socketFd := socketFd\<rparr>)
      | Some (Inl error) \<Rightarrow> tryAddresses as c)"

definition TcpClient_disconnect :: "tcpClient \<Rightarrow> tcpClient" where
  "TcpClient_disconnect c =
     (if tc_socketFd c = -1 then c
      else c\<lparr>tc_socketFd := -1, tc_pendingWrites := [], tc_pendingOffset := 0\<rparr>)"

text \<open>\<open>connectTo\<close>: the addresses \<open>getaddrinfo\<close> finds, or its error text.\<close>

definition connectTo :: "string + attempt list \<Rightarrow> tcpClient \<Rightarrow> (exn + tcpClient) option" where
  "connectTo addresses c0 =
     (let c = TcpClient_disconnect c0 in
      case addresses of
        Inl err \<Rightarrow> Some (Inl (System_error (''getaddrinfo: '' @ err)))
      | Inr as \<Rightarrow>
          map_option (\<lambda>c1. if tc_socketFd c1 = -1 then Inl (System_error ''unable to connect to server'') else Inr c1)
            (tryAddresses as c))"

definition sendAll :: "string \<Rightarrow> tcpClient \<Rightarrow> tcpClient" where
  "sendAll d c = c\<lparr>tc_pendingWrites := tc_pendingWrites c @ d\<rparr>"

definition hasPendingWrites :: "tcpClient \<Rightarrow> bool" where
  "hasPendingWrites c \<longleftrightarrow> tc_pendingOffset c < length (tc_pendingWrites c)"

text \<open>The answers to the successive calls of \<open>write\<close>; the result says whether data is left.\<close>

fun flushPendingWrites :: "nat sys list list \<Rightarrow> tcpClient \<Rightarrow> (exn + bool \<times> tcpClient) option" where
  "flushPendingWrites answers c =
     (if tc_pendingOffset c < length (tc_pendingWrites c) then
        (case answers of
           [] \<Rightarrow> None
         | a # as \<Rightarrow>
             (case Client_write (drop (tc_pendingOffset c) (tc_pendingWrites c)) a of
                None \<Rightarrow> None
              | Some (Inl x) \<Rightarrow> Some (Inl x)
              | Some (Inr bytesWritten) \<Rightarrow>
                  if bytesWritten = 0 then Some (Inr (True, c))
                  else flushPendingWrites as
                    (c\<lparr>tc_pendingOffset := tc_pendingOffset c + bytesWritten,
                      tc_sent := tc_sent c @ take bytesWritten (drop (tc_pendingOffset c) (tc_pendingWrites c))\<rparr>)))
      else Some (Inr (False, c\<lparr>tc_pendingWrites := [], tc_pendingOffset := 0\<rparr>)))"

declare flushPendingWrites.simps [simp del]

definition receiveSome :: "nat \<Rightarrow> string sys list \<Rightarrow> tcpClient \<Rightarrow> (exn + string option) option" where
  "receiveSome bufferSize rs c = Client_read bufferSize rs"

section \<open>Nothing is lost, repeated or reordered\<close>

definition unsent :: "tcpClient \<Rightarrow> string" where
  "unsent c = drop (tc_pendingOffset c) (tc_pendingWrites c)"

lemma hasPendingWrites_unsent: "hasPendingWrites c \<longleftrightarrow> unsent c \<noteq> []"
  by (auto simp: hasPendingWrites_def unsent_def)

lemma unsent_sendAll: "tc_pendingOffset c \<le> length (tc_pendingWrites c) \<Longrightarrow> unsent (sendAll d c) = unsent c @ d"
  by (simp add: unsent_def sendAll_def)

lemma Client_write_bound: "Client_write b rs = Some (Inr n) \<Longrightarrow> n \<le> length b"
  by (induction b rs rule: Client_write.induct) (auto split: if_splits)

lemma flush_conserves:
  assumes "flushPendingWrites as c = Some (Inr (left, c'))" and "tc_pendingOffset c \<le> length (tc_pendingWrites c)"
  shows "tc_sent c' @ unsent c' = tc_sent c @ unsent c \<and> (left \<longleftrightarrow> hasPendingWrites c') \<and>
    tc_pendingOffset c' \<le> length (tc_pendingWrites c') \<and> tc_socketFd c' = tc_socketFd c"
  using assms
proof (induction as c rule: flushPendingWrites.induct)
  case (1 as c)
  show ?case
  proof (cases "hasPendingWrites c")
    case False
    then show ?thesis
      using "1.prems" by (auto simp: flushPendingWrites.simps [of as c] hasPendingWrites_def unsent_def)
  next
    case True
    then obtain a as' n where a: "as = a # as'" "Client_write (unsent c) a = Some (Inr n)"
      using "1.prems"(1)
      by (auto simp: flushPendingWrites.simps [of as c] hasPendingWrites_def unsent_def split: list.splits option.splits sum.splits)
    show ?thesis
    proof (cases "n = 0")
      case True
      then show ?thesis using "1.prems" a \<open>hasPendingWrites c\<close>
        by (auto simp: flushPendingWrites.simps [of "a # as'" c] hasPendingWrites_def unsent_def)
    next
      case False
      let ?d = "c\<lparr>tc_pendingOffset := tc_pendingOffset c + n, tc_sent := tc_sent c @ take n (unsent c)\<rparr>"
      have n: "n \<le> length (unsent c)" using Client_write_bound [OF a(2)] .
      have f: "flushPendingWrites as' ?d = Some (Inr (left, c'))"
        using "1.prems"(1) a False True by (simp add: flushPendingWrites.simps [of "a # as'" c] hasPendingWrites_def unsent_def)
      have o': "tc_pendingOffset ?d \<le> length (tc_pendingWrites ?d)"
        using n "1.prems"(2) by (simp add: unsent_def)
      have "tc_sent ?d @ unsent ?d = tc_sent c @ unsent c" 
        using append_take_drop_id [of n "unsent c"] by (simp add: unsent_def add.commute)
      with "1.IH" [OF True [unfolded hasPendingWrites_def] a(1) a(2) [unfolded unsent_def] refl False]
        f o' show ?thesis by (simp add: unsent_def)
    qed
  qed
qed

end
