(* ===== verification/Client_App.thy ===== *)
theory Client_App
  imports Client_Commands Client_Router Client_Net Lines
begin

text \<open>
  \<open>src/client/ClientApplication.cpp\<close>: the client's event loop between the terminal and the
  connection. What the outside answers during one event is an argument: the line \<open>std::getline\<close>
  returns, and the kernel's answers to \<open>write\<close> and \<open>read\<close>. An exception that leaves \<open>run\<close> is \<open>Inl\<close>.
\<close>

definition POLLNVAL :: int where "POLLNVAL = 32"
definition STDIN_FILENO :: int where "STDIN_FILENO = 0"
definition MAX_PORT :: int where "MAX_PORT = 65535"
definition READ_BUFFER_SIZE :: nat where "READ_BUFFER_SIZE = 4096"
definition MAX_SERVER_FRAME_SIZE :: int where "MAX_SERVER_FRAME_SIZE = 65536"

definition parsePort :: "string \<Rightarrow> exn + 16 word" where
  "parsePort portArg =
     (case stoull portArg of
        None \<Rightarrow> Inl (System_error ''stoull'')
      | Some rawPort \<Rightarrow>
          if rawPort = 0 \<or> rawPort > MAX_PORT then Inl (System_error ''Invalid port'')
          else Inr (word_of_int rawPort))"

record app =
  app_client :: tcpClient
  app_poller :: poller
  app_router :: router
  app_serverReadBuffer :: string

record app_answers =
  an_line :: "string option"
  an_writes :: "nat sys list list"
  an_reads :: "string sys list"

definition hasEvent :: "int \<Rightarrow> int \<Rightarrow> bool" where
  "hasEvent revents m \<longleftrightarrow> (word_of_int revents :: 32 word) AND word_of_int m \<noteq> 0"

section \<open>Sending\<close>

definition updateServerWatchedEvents :: "app \<Rightarrow> app" where
  "updateServerWatchedEvents a =
     (let events = (if hasPendingWrites (app_client a) then POLLIN OR POLLOUT else POLLIN)
      in a\<lparr>app_poller := Client_updateWatchedEvents (tc_socketFd (app_client a)) events (app_poller a)\<rparr>)"

definition flush_app :: "nat sys list list \<Rightarrow> app \<Rightarrow> (exn + app) option" where
  "flush_app ws a =
     map_option (map_sum id (\<lambda>(left, c). a\<lparr>app_client := c\<rparr>)) (flushPendingWrites ws (app_client a))"

definition sendCommandFrame :: "nat sys list list \<Rightarrow> string \<Rightarrow> app \<Rightarrow> (exn + app) option" where
  "sendCommandFrame ws frame a =
     (let wireFrame = frame @ CRLF;
          a1 = a\<lparr>app_client := sendAll wireFrame (app_client a)\<rparr>
      in map_option (map_sum id updateServerWatchedEvents) (flush_app ws a1))"

definition print :: "string \<Rightarrow> app \<Rightarrow> app" where
  "print s a = a\<lparr>app_router := call (cout s) (app_router a)\<rparr>"

text \<open>\<open>remove_prefix\<close> never goes past the end: a supported command has no blank, so it is at most as long
  as the text it was read from. Every path of the source returns \<open>true\<close>.\<close>

definition dispatchCommandLine :: "nat sys list list \<Rightarrow> string \<Rightarrow> app \<Rightarrow> (exn + bool \<times> app) option" where
  "dispatchCommandLine ws line a =
     (let trimmedLine = trimLeft line in
      if trimmedLine = [] then Some (Inr (True, a))
      else case extractCommand trimmedLine of
        None \<Rightarrow> Some (Inr (True, print (''Invalid command format'' @ [LF]) a))
      | Some command \<Rightarrow>
          if command = ''/help'' then Some (Inr (True, print printHelp a))
          else if command = [] \<or> hd command \<noteq> CHR ''/'' then
            Some (Inr (True, print (''Invalid command format'' @ [LF]) a))
          else if \<not> isSupportedServerCommand command then
            Some (Inr (True, print (''Unknown command: '' @ command @ [LF]) a))
          else
            (let argsView = drop (length command) trimmedLine in
             case validateArgs command argsView of
               Some err \<Rightarrow> Some (Inr (True, print (err @ [LF]) a))
             | None \<Rightarrow>
                 map_option (map_sum id (Pair True))
                   (sendCommandFrame ws (command @ argsView)
                     (a\<lparr>app_router := setPendingCommand command (app_router a)\<rparr>))))"

definition handleStdinEvent :: "app_answers \<Rightarrow> pollEvent \<Rightarrow> app \<Rightarrow> (exn + bool \<times> app) option" where
  "handleStdinEvent an ev a =
     (if hasEvent (ev_revents ev) (POLLERR OR POLLHUP OR POLLNVAL) then Some (Inr (False, a))
      else if \<not> hasEvent (ev_revents ev) POLLIN then Some (Inr (True, a))
      else case an_line an of
        None \<Rightarrow> Some (Inr (True, a\<lparr>app_poller := Client_removeFileDescriptor STDIN_FILENO (app_poller a)\<rparr>))
      | Some line \<Rightarrow> dispatchCommandLine (an_writes an) (strip_cr line) a)"

section \<open>Receiving\<close>

text \<open>The loop over the buffer: the result says whether the router asked to disconnect, and where
  parsing stopped.\<close>

function readable_loop :: "string \<Rightarrow> nat \<Rightarrow> router \<Rightarrow> exn + bool \<times> nat \<times> router" where
  "readable_loop buf parseOffset r =
     (case str_find LF buf parseOffset of
        None \<Rightarrow> Inr (False, parseOffset, r)
      | Some lineEnd \<Rightarrow>
          (let frameLength = lineEnd - parseOffset in
           if int frameLength > MAX_SERVER_FRAME_SIZE then Inl (System_error ''server frame exceeded maximum size'')
           else
             (let r1 = routeFrame (strip_cr (take frameLength (drop parseOffset buf))) r in
              if rt_shouldDisconnect r1 then Inr (True, lineEnd + 1, r1)
              else readable_loop buf (lineEnd + 1) r1)))"
  by pat_completeness auto
termination
  by (relation "measure (\<lambda>(buf, p, r). length buf - p)") (auto dest: str_find_Some)

declare readable_loop.simps [simp del]

definition handleServerReadable :: "string sys list \<Rightarrow> app \<Rightarrow> (exn + bool \<times> app) option" where
  "handleServerReadable rs a =
     (case receiveSome READ_BUFFER_SIZE rs (app_client a) of
        None \<Rightarrow> None
      | Some (Inl x) \<Rightarrow> Some (Inl x)
      | Some (Inr None) \<Rightarrow> Some (Inr (True, a))
      | Some (Inr (Some d)) \<Rightarrow>
          Some
            (if d = [] then Inr (False, a)
             else
               (let buf = app_serverReadBuffer a @ d in
                case readable_loop buf 0 (app_router a) of
                  Inl x \<Rightarrow> Inl x
                | Inr (True, parseOffset, r) \<Rightarrow>
                    Inr (False, a\<lparr>app_serverReadBuffer := buf, app_router := r\<rparr>)
                | Inr (False, parseOffset, r) \<Rightarrow>
                    (let rest = drop parseOffset buf in
                     if int (length rest) > MAX_SERVER_FRAME_SIZE
                     then Inl (System_error ''server frame exceeded maximum size'')
                     else Inr (True, a\<lparr>app_serverReadBuffer := rest, app_router := r\<rparr>)))))"

definition handleServerEvent :: "app_answers \<Rightarrow> pollEvent \<Rightarrow> app \<Rightarrow> (exn + bool \<times> app) option" where
  "handleServerEvent an ev a =
     (if hasEvent (ev_revents ev) (POLLERR OR POLLHUP OR POLLNVAL) then Some (Inr (False, a))
      else
        (case (if hasEvent (ev_revents ev) POLLOUT then flush_app (an_writes an) a else Some (Inr a)) of
           None \<Rightarrow> None
         | Some (Inl x) \<Rightarrow> Some (Inl x)
         | Some (Inr a1) \<Rightarrow>
             (case (if hasEvent (ev_revents ev) POLLIN then handleServerReadable (an_reads an) a1 else Some (Inr (True, a1))) of
                None \<Rightarrow> None
              | Some (Inl x) \<Rightarrow> Some (Inl x)
              | Some (Inr (False, a2)) \<Rightarrow> Some (Inr (False, a2))
              | Some (Inr (True, a2)) \<Rightarrow> Some (Inr (True, updateServerWatchedEvents a2)))))"

section \<open>The loop\<close>

definition clientEvent :: "app_answers \<Rightarrow> pollEvent \<Rightarrow> app \<Rightarrow> (exn + bool \<times> app) option" where
  "clientEvent an ev a =
     (if ev_fd ev = STDIN_FILENO then handleStdinEvent an ev a
      else if ev_fd ev = tc_socketFd (app_client a) then handleServerEvent an ev a
      else Some (Inr (True, a)))"

fun clientEvents :: "(pollEvent \<times> app_answers) list \<Rightarrow> app \<Rightarrow> (exn + bool \<times> app) option" where
  "clientEvents [] a = Some (Inr (True, a))"
| "clientEvents ((ev, an) # evs) a =
     (case clientEvent an ev a of
        None \<Rightarrow> None
      | Some (Inl x) \<Rightarrow> Some (Inl x)
      | Some (Inr (False, a1)) \<Rightarrow> Some (Inr (False, a1))
      | Some (Inr (True, a1)) \<Rightarrow> clientEvents evs a1)"

record app_turn =
  atn_polls :: "poll_turn list"
  atn_events :: "nat \<Rightarrow> app_answers"

text \<open>The result says whether the loop still runs when the turns are used up.\<close>

fun runEventLoop :: "app_turn list \<Rightarrow> app \<Rightarrow> (exn + bool \<times> app) option" where
  "runEventLoop [] a = Some (Inr (True, a))"
| "runEventLoop (t # ts) a =
     (case Client_waitForEvents (-1) 0 (atn_polls t) (app_poller a) of
        None \<Rightarrow> None
      | Some (Inl x) \<Rightarrow> Some (Inl x)
      | Some (Inr (evs, ps)) \<Rightarrow>
          (case clientEvents (map2 (\<lambda>n ev. (ev, atn_events t n)) [0..<length evs] evs) (a\<lparr>app_poller := ps\<rparr>) of
             None \<Rightarrow> None
           | Some (Inl x) \<Rightarrow> Some (Inl x)
           | Some (Inr (False, a1)) \<Rightarrow> Some (Inr (False, a1))
           | Some (Inr (True, a1)) \<Rightarrow> runEventLoop ts a1))"

definition newApp :: app where
  "newApp = \<lparr>app_client = newTcpClient, app_poller = [], app_router = newRouter, app_serverReadBuffer = []\<rparr>"

definition app_start :: "tcpClient \<Rightarrow> app \<Rightarrow> app" where
  "app_start c a =
     (let ps1 = Client_addFileDescriptor STDIN_FILENO POLLIN (app_poller a)
      in a\<lparr>app_client := c, app_poller := Client_addFileDescriptor (tc_socketFd c) POLLIN ps1\<rparr>)"

definition ClientApplication_run :: "string + attempt list \<Rightarrow> app_turn list \<Rightarrow> app \<Rightarrow> (exn + app) option" where
  "ClientApplication_run addresses turns a =
     (case connectTo addresses (app_client a) of
        None \<Rightarrow> None
      | Some (Inl x) \<Rightarrow> Some (Inl x)
      | Some (Inr c) \<Rightarrow>
          (case runEventLoop turns (app_start c a) of
             None \<Rightarrow> None
           | Some (Inl x) \<Rightarrow> Some (Inl x)
           | Some (Inr (True, a1)) \<Rightarrow> None
           | Some (Inr (False, a1)) \<Rightarrow> Some (Inr (a1\<lparr>app_client := TcpClient_disconnect (app_client a1)\<rparr>))))"

definition CLIENT_EXIT_ERROR :: int where "CLIENT_EXIT_ERROR = 84"

text \<open>\<open>src/client/main.cpp\<close>: the exit status, for the arguments after the program name.\<close>

definition client_main :: "string list \<Rightarrow> string + attempt list \<Rightarrow> app_turn list \<Rightarrow> int option" where
  "client_main argv addresses turns =
     (if argv = [''--help''] then Some 0
      else if length argv \<noteq> 2 then Some CLIENT_EXIT_ERROR
      else case parsePort (argv ! 1) of
        Inl x \<Rightarrow> Some CLIENT_EXIT_ERROR
      | Inr port \<Rightarrow>
          (case ClientApplication_run addresses turns newApp of
             None \<Rightarrow> None
           | Some (Inl x) \<Rightarrow> Some CLIENT_EXIT_ERROR
           | Some (Inr a) \<Rightarrow> Some 0))"

end
