(* ===== verification/Client_Specs.thy ===== *)
theory Client_Specs
  imports Client_App
begin

text \<open>
  Properties of the client: what a typed line puts on the wire and how the server reads it, the
  cutting of the received stream into frames, when the client disconnects, and the state of its
  poller.
\<close>

lemma map_Inr_iff [simp]: "map_sum id f x = Inr y \<longleftrightarrow> (\<exists>z. x = Inr z \<and> y = f z)"
  by (cases x) auto

lemma running_iff: "(case x of Some (Inr (b, a)) \<Rightarrow> b \<and> P a | _ \<Rightarrow> False) \<longleftrightarrow> (\<exists>a. x = Some (Inr (True, a)) \<and> P a)"
  by (auto split: option.splits sum.splits prod.splits)

section \<open>The invariant of the client\<close>

definition tcp_ok :: "tcpClient \<Rightarrow> bool" where
  "tcp_ok c \<longleftrightarrow> tc_pendingOffset c \<le> length (tc_pendingWrites c)"

definition app_inv :: "app \<Rightarrow> bool" where
  "app_inv a \<longleftrightarrow> tcp_ok (app_client a) \<and> tc_socketFd (app_client a) \<noteq> STDIN_FILENO \<and>
     map_of (watched (app_poller a)) (tc_socketFd (app_client a)) =
       Some (if unsent (app_client a) = [] then 1 else 5)"

lemma watched_updateWatchedEvents:
  "k \<in> fst ` set (watched ps) \<Longrightarrow> map_of (watched (updateWatchedEvents k ev ps)) k = Some (word_of_int ev)"
  by (induction ps) (auto simp: watched_def updateWatchedEvents_def)

lemma watched_fst: "fst ` set (watched ps) = set (map pfd_fd ps)"
  by (simp add: watched_def image_image)

lemma flags: "(word_of_int (POLLIN OR POLLOUT) :: 16 word) = 5" "(word_of_int POLLIN :: 16 word) = 1"
  by (simp_all add: POLLIN_def POLLOUT_def)

lemma map_of_Some_fst: "map_of xs k = Some v \<Longrightarrow> k \<in> fst ` set xs"
  by (metis map_of_eq_None_iff option.distinct(1))

lemma inv_updateServerWatchedEvents:
  assumes "tcp_ok (app_client a)" and "tc_socketFd (app_client a) \<noteq> STDIN_FILENO"
    and "tc_socketFd (app_client a) \<in> set (map pfd_fd (app_poller a))"
  shows "app_inv (updateServerWatchedEvents a)"
  using assms
  by (simp add: app_inv_def updateServerWatchedEvents_def watched_updateWatchedEvents watched_fst flags
      hasPendingWrites_unsent del: set_map)

lemma app_inv_polled: "app_inv a \<Longrightarrow> tc_socketFd (app_client a) \<in> set (map pfd_fd (app_poller a))"
  unfolding watched_fst [symmetric] app_inv_def by (blast intro: map_of_Some_fst)

lemma flush_app_spec:
  assumes "flush_app ws a = Some (Inr a')" and "tcp_ok (app_client a)"
  shows "\<exists>c. a' = a\<lparr>app_client := c\<rparr> \<and> tc_sent c @ unsent c = tc_sent (app_client a) @ unsent (app_client a) \<and>
    tcp_ok c \<and> tc_socketFd c = tc_socketFd (app_client a)"
proof -
  obtain left c where f: "flushPendingWrites ws (app_client a) = Some (Inr (left, c))" "a' = a\<lparr>app_client := c\<rparr>"
    using assms(1) by (auto simp: flush_app_def)
  from flush_conserves [OF f(1)] assms(2) f(2) show ?thesis by (auto simp: tcp_ok_def)
qed

lemma sendCommandFrame_spec:
  assumes "sendCommandFrame ws frame a = Some (Inr a')" and "app_inv a"
  shows "app_inv a' \<and> app_router a' = app_router a \<and> app_serverReadBuffer a' = app_serverReadBuffer a \<and>
    tc_sent (app_client a') @ unsent (app_client a') = tc_sent (app_client a) @ unsent (app_client a) @ frame @ CRLF"
proof -
  let ?a1 = "a\<lparr>app_client := sendAll (frame @ CRLF) (app_client a)\<rparr>"
  have ok: "tcp_ok (app_client ?a1)" using assms(2) by (simp add: app_inv_def tcp_ok_def sendAll_def)
  obtain a2 where a2: "flush_app ws ?a1 = Some (Inr a2)" "a' = updateServerWatchedEvents a2"
    using assms(1) by (auto simp: sendCommandFrame_def Let_def)
  from flush_app_spec [OF a2(1) ok] obtain c where c: "a2 = ?a1\<lparr>app_client := c\<rparr>" "tcp_ok c"
    "tc_sent c @ unsent c = tc_sent (app_client ?a1) @ unsent (app_client ?a1)"
    "tc_socketFd c = tc_socketFd (app_client ?a1)" by blast
  have fd: "tc_socketFd c = tc_socketFd (app_client a)" using c(4) by (simp add: sendAll_def)
  have "app_inv a'"
    unfolding a2(2) using c(1,2) fd app_inv_polled [OF assms(2)] assms(2)
    by (intro inv_updateServerWatchedEvents) (auto simp: app_inv_def)
  moreover have "unsent (app_client ?a1) = unsent (app_client a) @ frame @ CRLF"
    using unsent_sendAll [of "app_client a"] assms(2) by (simp add: app_inv_def tcp_ok_def)
  moreover have "tc_sent (app_client ?a1) = tc_sent (app_client a)" by (simp add: sendAll_def)
  ultimately show ?thesis using c(1,3) a2(2) by (simp add: updateServerWatchedEvents_def)
qed

section \<open>Typed lines\<close>

lemma trimLeft_head: "trimLeft line \<noteq> [] \<Longrightarrow> \<not> isspace (hd (trimLeft line))"
  unfolding trimLeft_def by (rule hd_dropWhile)

lemma dispatchCommandLine_cases:
  assumes "dispatchCommandLine ws line a = Some (Inr (b, a'))"
  obtains (local) evs where "b" "a' = a\<lparr>app_router := app_router a\<lparr>rt_log := rt_log (app_router a) @ evs\<rparr>\<rparr>"
  | (sent) command where "b" "trimLeft line \<noteq> []" "extractCommand (trimLeft line) = Some command"
      "isSupportedServerCommand command" "validateArgs command (drop (length command) (trimLeft line)) = None"
      "sendCommandFrame ws (command @ drop (length command) (trimLeft line))
         (a\<lparr>app_router := setPendingCommand command (app_router a)\<rparr>) = Some (Inr a')"
proof -
  have pr: "print s a = a\<lparr>app_router := app_router a\<lparr>rt_log := rt_log (app_router a) @ [cout s]\<rparr>\<rparr>" for s
    by (simp add: print_def call_def)
  have "a' = a \<Longrightarrow> b \<Longrightarrow> thesis" using local [of "[]"] by simp
  then show thesis
    using assms local sent unfolding dispatchCommandLine_def Let_def pr
    by (auto split: if_splits option.splits)
qed

text \<open>C7. A typed line either is answered locally and leaves the connection alone, or goes on the wire once,
  without its leading blanks and followed by CR LF, after everything queued before. A line that is sent is a
  command of the table with a number of arguments and argument lengths the table allows, as the client's
  tokenizer reads it; the server's argument parser reads the same command and arguments from it when no
  argument begins with a blank, and reaches undefined behaviour when one does.\<close>

theorem dispatchCommandLine_sends:
  assumes "dispatchCommandLine ws line a = Some (Inr (b, a'))" and "app_inv a"
  shows "(app_client a' = app_client a \<and> app_poller a' = app_poller a \<and> (\<exists>evs. rt_log (app_router a') = rt_log (app_router a) @ evs)) \<or>
    (\<exists>x args. x \<in> set schemas \<and> rt_pendingCommand (app_router a') = sch_name x \<and>
      tc_sent (app_client a') @ unsent (app_client a') =
        tc_sent (app_client a) @ unsent (app_client a) @ trimLeft line @ CRLF \<and>
      TokenParser_parse (trimLeft line) = Some (sch_name x # args) \<and>
      parseArgs (trimLeft line) =
        (if list_ex begins_blank args then Inl Undefined_behaviour else Inr (sch_name x # args)) \<and>
      sch_minArgs x \<le> length args \<and> length args \<le> sch_maxArgs x \<and>
      list_all2 (\<lambda>v s. length v \<le> arg_maxLen s) args (take (length args) (sch_args x)))"
  using assms(1)
proof (cases rule: dispatchCommandLine_cases)
  case (sent command)
  obtain args x where frame: "command @ drop (length command) (trimLeft line) = trimLeft line"
    and tk: "TokenParser_parse (trimLeft line) = Some (command # args)"
    and x: "x \<in> set schemas" "sch_name x = command" "sch_minArgs x \<le> length args" "length args \<le> sch_maxArgs x"
    and len: "\<And>i. i < length args \<Longrightarrow> length (args ! i) \<le> arg_maxLen (sch_args x ! i)"
    using validated_tokens [OF sent(3,4,2) trimLeft_head [OF sent(2)] sent(5)] by blast
  have "app_inv (a\<lparr>app_router := setPendingCommand command (app_router a)\<rparr>)" using assms(2) by (simp add: app_inv_def)
  from sendCommandFrame_spec [OF sent(6) this]
  have s: "rt_pendingCommand (app_router a') = command" "tc_sent (app_client a') @ unsent (app_client a') =
        tc_sent (app_client a) @ unsent (app_client a) @ trimLeft line @ CRLF"
    by (simp_all add: frame setPendingCommand_def)
  have "\<not> begins_blank command"
    using supported_name [OF sent(4)] by (cases command) (simp_all add: command_word_def begins_blank_def)
  then have "parseArgs (trimLeft line) = (if list_ex begins_blank args then Inl Undefined_behaviour else Inr (command # args))"
    using server_reads [OF tk] by simp
  moreover have "length args \<le> length (sch_args x)" using x(4) schema_arity [OF x(1)] by (rule le_trans)
  then have "list_all2 (\<lambda>v s. length v \<le> arg_maxLen s) args (take (length args) (sch_args x))"
    using len by (simp add: list_all2_conv_all_nth)
  ultimately show ?thesis using s x tk by (intro disjI2 exI [of _ x] exI [of _ args]) simp
qed auto

definition demo_app :: app where
  "demo_app = app_start (newTcpClient\<lparr>tc_socketFd := 3\<rparr>) newApp"

definition demo_line :: string where
  "demo_line = '' /login '' @ dq ''alice''"

lemma demo_app_inv: "app_inv demo_app"
  by code_simp

theorem dispatchCommandLine_sends_witness:
  "\<exists>a'. dispatchCommandLine [[Errno 4, Ok 7], [Errno 11]] demo_line demo_app = Some (Inr (True, a')) \<and> app_inv demo_app \<and>
    tc_sent (app_client a') @ unsent (app_client a') = ''/login '' @ dq ''alice'' @ CRLF \<and> tc_sent (app_client a') = ''/login '' \<and>
    parseArgs (''/login '' @ dq ''alice'') = Inr [''/login'', ''alice'']"
proof -
  define r where "r = dispatchCommandLine [[Errno 4, Ok 7], [Errno 11]] demo_line demo_app"
  have "case r of Some (Inr (b, a)) \<Rightarrow> b \<and> tc_sent (app_client a) = ''/login '' | _ \<Rightarrow> False"
    unfolding r_def by code_simp
  then obtain a where a: "r = Some (Inr (True, a))" "tc_sent (app_client a) = ''/login ''"
    unfolding running_iff by blast
  have tl: "trimLeft demo_line = ''/login '' @ dq ''alice''" by code_simp
  have tk: "TokenParser_parse (trimLeft demo_line) = Some [''/login'', ''alice'']" by code_simp
  have nb: "\<not> begins_blank ''alice''" by code_simp
  have e: "tc_sent (app_client demo_app) = []" "unsent (app_client demo_app) = []" by code_simp+
  have moved: "app_client a \<noteq> app_client demo_app" using a(2) e(1) by auto
  from dispatchCommandLine_sends [OF a(1) [unfolded r_def] demo_app_inv] moved tk nb
  have "tc_sent (app_client a) @ unsent (app_client a) = tc_sent (app_client demo_app) @ unsent (app_client demo_app) @ trimLeft demo_line @ CRLF"
    and "parseArgs (trimLeft demo_line) = Inr [''/login'', ''alice'']" by auto
  with a e tl show ?thesis by (intro exI [of _ a] conjI) (simp_all add: r_def demo_app_inv)
qed

section \<open>Received frames\<close>

fun route_lines :: "string list \<Rightarrow> router \<Rightarrow> exn + bool \<times> router" where
  "route_lines [] r = Inr (False, r)"
| "route_lines (l # ls) r =
     (if int (length l) > MAX_SERVER_FRAME_SIZE then Inl (System_error ''server frame exceeded maximum size'')
      else if rt_shouldDisconnect (routeFrame (strip_cr l) r) then Inr (True, routeFrame (strip_cr l) r)
      else route_lines ls (routeFrame (strip_cr l) r))"

lemma route_lines_append:
  "route_lines ls r = Inr (False, r1) \<Longrightarrow> route_lines (ls @ ms) r = route_lines ms r1"
  by (induction ls arbitrary: r) (auto split: if_splits)

definition position_free :: "exn + bool \<times> nat \<times> router \<Rightarrow> exn + bool \<times> router" where
  "position_free x = map_sum id (\<lambda>(d, p, r). (d, r)) x"

lemma readable_loop_lines:
  "position_free (readable_loop buf p r) = route_lines (fst (split_lf (drop p buf))) r \<and>
   (\<forall>q r'. readable_loop buf p r = Inr (False, q, r') \<longrightarrow> p \<le> length buf \<longrightarrow> drop q buf = snd (split_lf (drop p buf)) \<and> q \<le> length buf)"
proof (induction buf p r rule: readable_loop.induct)
  case (1 buf p r)
  show ?case
  proof (cases "LF \<in> set (drop p buf)")
    case False
    then have f: "str_find LF buf p = None" by (simp add: str_find_def)
    show ?thesis using False by (simp add: readable_loop.simps [of buf p] f split_lf_tail position_free_def)
  next
    case True
    then obtain l rest where lr: "drop p buf = l @ LF # rest" "LF \<notin> set l" by (auto dest: split_list_first)
    have f: "str_find LF buf p = Some (p + length l)"
      using True lr by (simp add: str_find_def takeWhile_neq_append)
    have "drop (length l + 1) (drop p buf) = rest" by (simp add: lr(1))
    then have d: "drop (p + length l + 1) buf = rest" by (simp add: ac_simps)
    have le: "p + length l + 1 \<le> length buf" using str_find_Some [OF f] by simp
    let ?r1 = "routeFrame (strip_cr l) r"
    show ?thesis
    proof (cases "int (length l) > MAX_SERVER_FRAME_SIZE \<or> rt_shouldDisconnect ?r1")
      case True
      then show ?thesis
        by (auto simp: readable_loop.simps [of buf p] f lr split_lf_line position_free_def Let_def)
    next
      case False
      then have "readable_loop buf p r = readable_loop buf (p + length l + 1) ?r1"
        by (simp add: readable_loop.simps [of buf p] f lr Let_def)
      moreover have "route_lines (fst (split_lf (drop p buf))) r = route_lines (fst (split_lf rest)) ?r1"
        using False by (simp add: lr split_lf_line)
      moreover have "position_free (readable_loop buf (p + length l + 1) ?r1) = route_lines (fst (split_lf rest)) ?r1 \<and>
          (\<forall>q r'. readable_loop buf (p + length l + 1) ?r1 = Inr (False, q, r') \<longrightarrow> p + length l + 1 \<le> length buf \<longrightarrow>
            drop q buf = snd (split_lf rest) \<and> q \<le> length buf)"
        using "1.IH" [OF f refl] False lr d by simp
      ultimately show ?thesis using False le by (simp add: lr d split_lf_line)
    qed
  qed
qed

lemma handleServerReadable_spec:
  assumes "length d \<le> READ_BUFFER_SIZE"
  shows "handleServerReadable [Ok d] b = Some (Inr (True, b')) \<longleftrightarrow>
    d \<noteq> [] \<and> (\<exists>r. route_lines (fst (split_lf (app_serverReadBuffer b @ d))) (app_router b) = Inr (False, r) \<and>
      int (length (snd (split_lf (app_serverReadBuffer b @ d)))) \<le> MAX_SERVER_FRAME_SIZE \<and>
      b' = b\<lparr>app_serverReadBuffer := snd (split_lf (app_serverReadBuffer b @ d)), app_router := r\<rparr>)"
proof -
  define buf where "buf = app_serverReadBuffer b @ d"
  have d: "receiveSome READ_BUFFER_SIZE [Ok d] (app_client b) = Some (Inr (Some d))" using assms by (simp add: receiveSome_def)
  note l = readable_loop_lines [of buf 0 "app_router b", unfolded drop_0]
  show ?thesis
  proof (cases "readable_loop buf 0 (app_router b)")
    case (Inl x)
    with l show ?thesis unfolding handleServerReadable_def d by (auto simp: Let_def position_free_def buf_def [symmetric])
  next
    case (Inr res)
    obtain disc q r where res: "res = (disc, q, r)" by (cases res)
    show ?thesis
    proof (cases disc)
      case True
      with l Inr res show ?thesis unfolding handleServerReadable_def d by (auto simp: Let_def position_free_def buf_def [symmetric])
    next
      case False
      then have "drop q buf = snd (split_lf buf)" "route_lines (fst (split_lf buf)) (app_router b) = Inr (False, r)"
        using l Inr res by (auto simp: position_free_def)
      with False Inr res show ?thesis
        unfolding handleServerReadable_def d by (auto simp: Let_def buf_def [symmetric] simp del: length_drop)
    qed
  qed
qed

text \<open>C17. How the network cuts the server's stream does not matter: when the client has read one chunk and
  then another and is still running, it is in the state it would have reached by reading both at once.\<close>

theorem handleServerReadable_append:
  assumes "handleServerReadable [Ok x] a = Some (Inr (True, a1))" and "handleServerReadable [Ok y] a1 = Some (Inr (True, a2))"
    and "length (x @ y) \<le> READ_BUFFER_SIZE"
  shows "handleServerReadable [Ok (x @ y)] a = Some (Inr (True, a2))"
proof -
  note spec = handleServerReadable_spec
  have lx: "length x \<le> READ_BUFFER_SIZE" "length y \<le> READ_BUFFER_SIZE" using assms(3) by simp_all
  from assms(1) spec [OF lx(1)] obtain r1 where r1: "route_lines (fst (split_lf (app_serverReadBuffer a @ x))) (app_router a) = Inr (False, r1)"
    and a1: "x \<noteq> []" "a1 = a\<lparr>app_serverReadBuffer := snd (split_lf (app_serverReadBuffer a @ x)), app_router := r1\<rparr>" by auto
  from assms(2) spec [OF lx(2)] obtain r2 where r2: "route_lines (fst (split_lf (app_serverReadBuffer a1 @ y))) r1 = Inr (False, r2)"
    and a2: "int (length (snd (split_lf (app_serverReadBuffer a1 @ y)))) \<le> MAX_SERVER_FRAME_SIZE"
      "a2 = a1\<lparr>app_serverReadBuffer := snd (split_lf (app_serverReadBuffer a1 @ y)), app_router := r2\<rparr>" by (auto simp: a1(2))
  have s: "split_lf (app_serverReadBuffer a @ x @ y) = (fst (split_lf (app_serverReadBuffer a @ x)) @
      fst (split_lf (app_serverReadBuffer a1 @ y)), snd (split_lf (app_serverReadBuffer a1 @ y)))"
    using split_lf_append [of "app_serverReadBuffer a @ x" y] by (simp add: a1(2))
  have "route_lines (fst (split_lf (app_serverReadBuffer a @ x @ y))) (app_router a) = Inr (False, r2)"
    using route_lines_append [OF r1] r2 by (simp add: s)
  then show ?thesis using spec [OF assms(3)] a1 a2 by (simp add: s)
qed

theorem handleServerReadable_append_witness:
  "\<exists>a1 a2. handleServerReadable [Ok ''210-BEG''] demo_app = Some (Inr (True, a1)) \<and>
    handleServerReadable [Ok (''IN USERS'' @ CRLF @ ''21'')] a1 = Some (Inr (True, a2)) \<and>
    handleServerReadable [Ok (''210-BEG'' @ ''IN USERS'' @ CRLF @ ''21'')] demo_app = Some (Inr (True, a2)) \<and>
    rt_listContext (app_router a2) = ''USERS''"
proof -
  define r where "r = handleServerReadable [Ok ''210-BEG''] demo_app"
  have "case r of Some (Inr (b, a)) \<Rightarrow> b \<and> (case handleServerReadable [Ok (''IN USERS'' @ CRLF @ ''21'')] a of
      Some (Inr (b', a')) \<Rightarrow> b' \<and> rt_listContext (app_router a') = ''USERS'' | _ \<Rightarrow> False) | _ \<Rightarrow> False"
    unfolding r_def by code_simp
  then obtain a1 a2 where a: "r = Some (Inr (True, a1))"
    "handleServerReadable [Ok (''IN USERS'' @ CRLF @ ''21'')] a1 = Some (Inr (True, a2))" "rt_listContext (app_router a2) = ''USERS''"
    unfolding running_iff by blast
  have "length (''210-BEG'' @ ''IN USERS'' @ CRLF @ ''21'') \<le> READ_BUFFER_SIZE" by (simp add: CRLF_def READ_BUFFER_SIZE_def)
  from handleServerReadable_append [OF a(1) [unfolded r_def] a(2) this] a show ?thesis
    unfolding r_def by (intro exI [of _ a1] exI [of _ a2] conjI)
qed

section \<open>Disconnecting\<close>

lemmas event_handler_defs = TeamCreatedHandler_handle_def ChannelCreatedHandler_handle_def ThreadCreatedHandler_handle_def
  ReplyCreatedHandler_handle_def UserLoggedInHandler_handle_def UserLoggedOutHandler_handle_def PrivateMessageHandler_handle_def

lemmas list_handler_defs = printUsers_def printTeams_def printChannels_def printThreads_def printReplies_def printMessages_def

lemmas status_handler_defs = handle200User_def handle200Subscribe_def handle200Unsubscribe_def handle200InfoUser_def
  handle200InfoTeam_def handle200InfoChannel_def handle200InfoThread_def handle201_def handle400_def handle401_def
  handle403_def handle404_def handle409_def

definition quiet :: "handler \<Rightarrow> bool" where
  "quiet h \<longleftrightarrow> (\<forall>ts r. rt_shouldDisconnect (h ts r) = rt_shouldDisconnect r)"

lemma quiet_table: "(\<And>k h. (k, h) \<in> set table \<Longrightarrow> quiet h) \<Longrightarrow> quiet (run_table table k)"
  by (auto simp: quiet_def run_table_def dest: map_of_SomeD split: option.split)

lemma quiet_events:
  "quiet TeamCreatedHandler_handle" "quiet ChannelCreatedHandler_handle" "quiet ThreadCreatedHandler_handle"
  "quiet ReplyCreatedHandler_handle" "quiet UserLoggedInHandler_handle" "quiet UserLoggedOutHandler_handle"
  "quiet PrivateMessageHandler_handle"
  by (auto simp: quiet_def event_handler_defs call_def split: if_splits option.splits)

lemma quiet_lists: "quiet (run_table listHandlers k)"
  by (rule quiet_table) (auto simp: listHandlers_def quiet_def list_handler_defs call_def split: if_splits option.splits)

lemma quiet_status:
  "quiet handle200User" "quiet handle200Subscribe" "quiet handle200Unsubscribe" "quiet handle201" "quiet handle400"
  "quiet handle401" "quiet handle403" "quiet handle404" "quiet handle409"
  by (auto simp: quiet_def status_handler_defs call_def Let_def split: if_splits option.splits)

lemma quiet_info: "quiet handle200Info"
proof -
  have "quiet (run_table [(''USER'', handle200InfoUser), (''TEAM'', handle200InfoTeam),
      (''CHANNEL'', handle200InfoChannel), (''THREAD'', handle200InfoThread)] k)" for k
    by (rule quiet_table) (auto simp: quiet_def status_handler_defs call_def split: if_splits option.splits)
  then show ?thesis by (simp add: quiet_def handle200Info_def)
qed

lemma handle200_disconnects:
  "rt_shouldDisconnect (handle200 ts r) \<longleftrightarrow> rt_shouldDisconnect r \<or>
     length ts \<ge> 2 \<and> ts ! 1 = ''OK'' \<and> length ts < 4 \<and> rt_pendingCommand r = ''/logout''"
  using quiet_status quiet_info by (auto simp: handle200_def run_table_def handle200Ok_def quiet_def)

lemma commands_disconnect:
  "rt_shouldDisconnect (run_table commandHandlers k ts r) \<longleftrightarrow> rt_shouldDisconnect r \<or>
     k = ''200'' \<and> length ts \<ge> 2 \<and> ts ! 1 = ''OK'' \<and> length ts < 4 \<and> rt_pendingCommand r = ''/logout''"
proof (cases "k = ''200''")
  case True
  then have "run_table commandHandlers k ts r = handle200 ts r"
    by (simp add: run_table_def commandHandlers_table ResponseStatusHandler_handle_def)
  with True show ?thesis by (simp add: handle200_disconnects)
next
  case False
  have "quiet h" if h: "(k, h) \<in> set commandHandlers" for h
    using h False quiet_events quiet_status
    by (auto simp: commandHandlers_table ResponseStatusHandler_handle_def run_table_def quiet_def)
  then have "rt_shouldDisconnect (run_table commandHandlers k ts r) = rt_shouldDisconnect r"
    by (auto simp: run_table_def quiet_def dest: map_of_SomeD split: option.split)
  with False show ?thesis by simp
qed

text \<open>C34. The client leaves after a frame exactly when the last command it sent is \<open>/logout\<close> and the frame is
  \<open>200 OK\<close> with at most one more token; no event, list item, other status or malformed frame makes it leave.\<close>

theorem routeFrame_disconnects:
  assumes "\<not> rt_shouldDisconnect r"
  shows "rt_shouldDisconnect (routeFrame f r) \<longleftrightarrow> rt_pendingCommand r = ''/logout'' \<and>
    (\<exists>rest. TokenParser_parse f = Some (''200'' # ''OK'' # rest) \<and> length rest < 2)"
proof (cases "TokenParser_parse f")
  case None
  with assms show ?thesis by (simp add: routeFrame_def)
next
  case (Some ts)
  show ?thesis
  proof (cases ts)
    case Nil
    with Some assms show ?thesis by (simp add: routeFrame_def)
  next
    case (Cons t us)
    have "rt_shouldDisconnect (routeTokens ts r) \<longleftrightarrow>
        t = ''200'' \<and> us \<noteq> [] \<and> hd us = ''OK'' \<and> length us < 3 \<and> rt_pendingCommand r = ''/logout''"
      using assms quiet_lists by (cases us) (auto simp: routeTokens_def Let_def Cons commands_disconnect quiet_def)
    with Some Cons show ?thesis by (cases us) (auto simp: routeFrame_def)
  qed
qed

theorem routeFrame_disconnects_witness:
  "\<not> rt_shouldDisconnect (newRouter\<lparr>rt_pendingCommand := ''/logout''\<rparr>) \<and>
   rt_shouldDisconnect (routeFrame ''200 OK'' (newRouter\<lparr>rt_pendingCommand := ''/logout''\<rparr>))"
proof -
  have a: "\<not> rt_shouldDisconnect (newRouter\<lparr>rt_pendingCommand := ''/logout''\<rparr>)" by (simp add: newRouter_def)
  have b: "TokenParser_parse ''200 OK'' = Some [''200'', ''OK'']" by code_simp
  from routeFrame_disconnects [OF a, of "''200 OK''"] a b show ?thesis by simp
qed

section \<open>The invariant through the loop\<close>

lemma inv_router: "app_inv (a\<lparr>app_router := r\<rparr>) = app_inv a" "app_inv (a\<lparr>app_serverReadBuffer := b, app_router := r\<rparr>) = app_inv a"
  by (simp_all add: app_inv_def)

lemma watched_remove_other: "k \<noteq> j \<Longrightarrow> map_of (watched (removeFileDescriptor j ps)) k = map_of (watched ps) k"
  by (induction ps) (auto simp: watched_def)

lemma handleStdinEvent_inv:
  assumes "handleStdinEvent an ev a = Some (Inr (b, a'))" and "app_inv a"
  shows "app_inv a'"
proof -
  have "app_inv a'" if d: "dispatchCommandLine ws l a = Some (Inr (b, a'))" for ws l
    using d
  proof (cases rule: dispatchCommandLine_cases)
    case (sent command)
    from sendCommandFrame_spec [OF sent(6)] assms(2) show ?thesis by (simp add: inv_router)
  qed (use assms(2) in \<open>simp add: inv_router\<close>)
  moreover have "app_inv (a\<lparr>app_poller := removeFileDescriptor STDIN_FILENO (app_poller a)\<rparr>)"
    using assms(2) by (simp add: app_inv_def watched_remove_other)
  ultimately show ?thesis
    using assms by (auto simp: handleStdinEvent_def split: if_splits option.splits)
qed

lemma handleServerReadable_frame:
  "handleServerReadable rs a = Some (Inr (b, a')) \<Longrightarrow> app_client a' = app_client a \<and> app_poller a' = app_poller a"
  unfolding handleServerReadable_def Let_def
  by (auto split: option.splits sum.splits if_splits bool.splits)

text \<open>Between the flush and the update of the flags the poller lags behind the connection.\<close>

definition app_lag :: "app \<Rightarrow> bool" where
  "app_lag a \<longleftrightarrow> tcp_ok (app_client a) \<and> tc_socketFd (app_client a) \<noteq> STDIN_FILENO \<and>
     tc_socketFd (app_client a) \<in> set (map pfd_fd (app_poller a))"

lemma inv_lag: "app_inv a \<Longrightarrow> app_lag a"
  using app_inv_polled [of a] by (simp add: app_lag_def app_inv_def)

lemma lag_update: "app_lag a \<Longrightarrow> app_inv (updateServerWatchedEvents a)"
  unfolding app_lag_def by (blast intro: inv_updateServerWatchedEvents)

lemma lag_flush: "flush_app ws a = Some (Inr a') \<Longrightarrow> app_lag a \<Longrightarrow> app_lag a'"
  by (auto simp: app_lag_def dest!: flush_app_spec)

lemma lag_read: "handleServerReadable rs a = Some (Inr (b, a')) \<Longrightarrow> app_lag a \<Longrightarrow> app_lag a'"
  by (auto simp: app_lag_def dest!: handleServerReadable_frame)

lemma handleServerEvent_inv:
  assumes "handleServerEvent an ev a = Some (Inr (True, a'))" and "app_inv a"
  shows "app_inv a'"
proof (cases "hasEvent (ev_revents ev) (POLLERR OR POLLHUP OR POLLNVAL)")
  case False
  then obtain a1 where a1: "(if hasEvent (ev_revents ev) POLLOUT then flush_app (an_writes an) a else Some (Inr a)) = Some (Inr a1)"
    using assms(1) by (auto simp: handleServerEvent_def split: option.splits sum.splits if_splits)
  then have l1: "app_lag a1" using inv_lag [OF assms(2)] lag_flush by (auto split: if_splits)
  obtain a2 where "(if hasEvent (ev_revents ev) POLLIN then handleServerReadable (an_reads an) a1 else Some (Inr (True, a1))) = Some (Inr (True, a2))"
    "a' = updateServerWatchedEvents a2"
    using assms(1) False unfolding handleServerEvent_def a1 by (auto split: option.splits sum.splits if_splits bool.splits)
  with l1 lag_read lag_update show ?thesis by (metis Pair_inject option.inject sum.inject(2))
qed (use assms in \<open>simp add: handleServerEvent_def\<close>)

lemma clientEvent_inv:
  "clientEvent an ev a = Some (Inr (True, a')) \<Longrightarrow> app_inv a \<Longrightarrow> app_inv a'"
  by (auto simp: clientEvent_def dest: handleStdinEvent_inv handleServerEvent_inv split: if_splits)

lemma clientEvents_inv:
  "clientEvents evs a = Some (Inr (True, a')) \<Longrightarrow> app_inv a \<Longrightarrow> app_inv a'"
proof (induction evs arbitrary: a)
  case (Cons e evs)
  obtain ev an where e: "e = (ev, an)" by fastforce
  obtain a1 where "clientEvent an ev a = Some (Inr (True, a1))" "clientEvents evs a1 = Some (Inr (True, a'))"
    using Cons.prems(1) by (auto simp: e split: option.splits sum.splits prod.splits bool.splits)
  with Cons clientEvent_inv show ?case by blast
qed simp

lemma app_inv_poller: "watched ps = watched (app_poller a) \<Longrightarrow> app_inv (a\<lparr>app_poller := ps\<rparr>) = app_inv a"
  by (simp add: app_inv_def)

lemma runEventLoop_inv:
  "runEventLoop ts a = Some (Inr (True, a')) \<Longrightarrow> app_inv a \<Longrightarrow> app_inv a'"
proof (induction ts arbitrary: a)
  case (Cons t ts)
  obtain evs ps where w: "waitForEvents (-1) 0 (atn_polls t) (app_poller a) = Some (Inr (evs, ps))"
    using Cons.prems(1) by (auto split: option.splits sum.splits)
  obtain a1 where "clientEvents (map2 (\<lambda>n ev. (ev, atn_events t n)) [0..<length evs] evs) (a\<lparr>app_poller := ps\<rparr>) = Some (Inr (True, a1))"
    "runEventLoop ts a1 = Some (Inr (True, a'))"
    using Cons.prems(1) by (auto simp: w split: option.splits sum.splits prod.splits bool.splits)
  moreover have "app_inv (a\<lparr>app_poller := ps\<rparr>)" using app_inv_poller [OF watched_waitForEvents [OF w]] Cons.prems(2) by simp
  ultimately show ?case using Cons.IH clientEvents_inv by blast
qed simp

lemma connectTo_ok:
  "connectTo as newTcpClient = Some (Inr c) \<Longrightarrow> tc_socketFd c \<noteq> -1 \<and> tcp_ok c \<and> unsent c = []"
proof -
  have "tryAddresses as' newTcpClient = Some c' \<Longrightarrow> tcp_ok c' \<and> unsent c' = []" for as' c'
    by (induction as') (auto simp: newTcpClient_def tcp_ok_def unsent_def split: option.splits sum.splits)
  then show "connectTo as newTcpClient = Some (Inr c) \<Longrightarrow> tc_socketFd c \<noteq> -1 \<and> tcp_ok c \<and> unsent c = []"
    by (auto simp: connectTo_def TcpClient_disconnect_def newTcpClient_def split: sum.splits if_splits)
qed

text \<open>C18. As long as the client's loop runs, its poller watches the connection for input, and for output exactly
  when there are bytes the kernel has not taken, so queued commands are never forgotten. The kernel never hands
  out descriptor 0, which the terminal holds.\<close>

theorem runEventLoop_watches:
  assumes "connectTo addresses newTcpClient = Some (Inr c)" and "tc_socketFd c \<noteq> STDIN_FILENO"
    and "runEventLoop turns (app_start c newApp) = Some (Inr (True, a))"
  shows "map_of (watched (app_poller a)) (tc_socketFd (app_client a)) =
      Some (if hasPendingWrites (app_client a) then 5 else 1) \<and> tc_pendingOffset (app_client a) \<le> length (tc_pendingWrites (app_client a))"
proof -
  have "app_inv (app_start c newApp)"
    using connectTo_ok [OF assms(1)] assms(2)
    by (simp add: app_inv_def app_start_def newApp_def watched_def addFileDescriptor_def Let_def POLLIN_def)
  from runEventLoop_inv [OF assms(3) this] show ?thesis by (simp add: app_inv_def tcp_ok_def hasPendingWrites_unsent)
qed

definition demo_attempts :: "string + attempt list" where
  "demo_attempts = Inr [\<lparr>att_socket = Errno 97, att_connect = [], att_start = 0, att_polls = [], att_sockerr = Ok 0\<rparr>,
     \<lparr>att_socket = Ok 3, att_connect = [Errno 4, Errno 115], att_start = 0,
       att_polls = [(0, \<lambda>_. Ok (1, \<lambda>_. 4))], att_sockerr = Ok 0\<rparr>]"

definition demo_turns :: "app_turn list" where
  "demo_turns = [\<lparr>atn_polls = [(0, \<lambda>_. Errno 4), (0, \<lambda>_. Ok (1, \<lambda>i. if i = 0 then 1 else 0))],
     atn_events = (\<lambda>_. \<lparr>an_line = Some ''/users'', an_writes = [[Ok 3], [Errno 11]], an_reads = []\<rparr>)\<rparr>]"

theorem runEventLoop_watches_witness:
  "\<exists>c a. connectTo demo_attempts newTcpClient = Some (Inr c) \<and> tc_socketFd c \<noteq> STDIN_FILENO \<and>
    runEventLoop demo_turns (app_start c newApp) = Some (Inr (True, a)) \<and>
    map_of (watched (app_poller a)) (tc_socketFd (app_client a)) = Some (if hasPendingWrites (app_client a) then 5 else 1) \<and>
    unsent (app_client a) = ''ers'' @ CRLF"
proof -
  define c where "c = newTcpClient\<lparr>tc_socketFd := 3\<rparr>"
  have c: "connectTo demo_attempts newTcpClient = Some (Inr c)" unfolding c_def
    by (simp add: connectTo_def demo_attempts_def newTcpClient_def TcpClient_disconnect_def tryAddress_def Client_socket_def
        checked_def EINTR_def EINPROGRESS_def completePendingConnect_def CONNECT_TIMEOUT_MS_def)
  have fd: "tc_socketFd c \<noteq> STDIN_FILENO" by (simp add: c_def STDIN_FILENO_def)
  define r where "r = runEventLoop demo_turns (app_start c newApp)"
  have "case r of Some (Inr (b, a)) \<Rightarrow> b \<and> unsent (app_client a) = ''ers'' @ CRLF | _ \<Rightarrow> False"
    unfolding r_def c_def by code_simp
  then obtain a where a: "r = Some (Inr (True, a))" "unsent (app_client a) = ''ers'' @ CRLF" unfolding running_iff by blast
  from runEventLoop_watches [OF c fd a(1) [unfolded r_def]] c fd a show ?thesis
    unfolding r_def by (intro exI [of _ c] exI [of _ a]) simp
qed

section \<open>The connection and the port\<close>

text \<open>Flushing neither loses, repeats nor reorders bytes: what the kernel has taken followed by what is still
  queued is unchanged, and the result says whether something is left.\<close>

theorem flushPendingWrites_conserves:
  assumes "flushPendingWrites as c = Some (Inr (left, c'))" and "tcp_ok c"
  shows "tc_sent c' @ unsent c' = tc_sent c @ unsent c \<and> (left \<longleftrightarrow> hasPendingWrites c') \<and> tcp_ok c'"
  using flush_conserves [OF assms(1)] assms(2) by (simp add: tcp_ok_def)

theorem flushPendingWrites_conserves_witness:
  "\<exists>c'. flushPendingWrites [[Ok 2], [Errno 4, Errno 11]] (sendAll ''abcde'' newTcpClient) = Some (Inr (True, c')) \<and>
    tcp_ok (sendAll ''abcde'' newTcpClient) \<and> tc_sent c' = ''ab'' \<and> tc_sent c' @ unsent c' = ''abcde''"
proof -
  define c where "c = sendAll ''abcde'' newTcpClient"
  have ok: "tcp_ok c" and e: "tc_sent c @ unsent c = ''abcde''" unfolding c_def by code_simp+
  have "case flushPendingWrites [[Ok 2], [Errno 4, Errno 11]] c of Some (Inr (b, a)) \<Rightarrow> b \<and> tc_sent a = ''ab'' | _ \<Rightarrow> False"
    unfolding c_def by code_simp
  then obtain c' where f: "flushPendingWrites [[Ok 2], [Errno 4, Errno 11]] c = Some (Inr (True, c'))" "tc_sent c' = ''ab''"
    unfolding running_iff by blast
  from flushPendingWrites_conserves [OF f(1) ok] f ok e show ?thesis unfolding c_def by metis
qed

lemma flush_returns:
  assumes "list_all (\<lambda>rs. Client_write [] rs \<noteq> None) as" and "length (unsent c) \<le> length as"
  shows "flushPendingWrites as c \<noteq> None"
  using assms
proof (induction as c rule: flushPendingWrites.induct)
  case (1 as c)
  have w: "Client_write b rs = None \<longleftrightarrow> Client_write [] rs = None" for b rs
    by (induction b rs rule: Client_write.induct) auto
  show ?case
  proof (cases "hasPendingWrites c")
    case False
    then show ?thesis by (simp add: flushPendingWrites.simps [of as c] hasPendingWrites_def)
  next
    case True
    then obtain r as' where as: "as = r # as'" using "1.prems"(2) by (cases as) (auto simp: hasPendingWrites_unsent)
    then obtain x where x: "Client_write (unsent c) r = Some x" using "1.prems"(1) w [of "unsent c" r] by auto
    show ?thesis
    proof (cases x)
      case (Inl e)
      with x as show ?thesis by (simp add: flushPendingWrites.simps [of "r # as'"] unsent_def)
    next
      case (Inr n)
      show ?thesis
      proof (cases "n = 0")
        case True
        with x as Inr show ?thesis by (simp add: flushPendingWrites.simps [of "r # as'"] unsent_def)
      next
        case n: False
        let ?d = "c\<lparr>tc_pendingOffset := tc_pendingOffset c + n, tc_sent := tc_sent c @ take n (unsent c)\<rparr>"
        have "flushPendingWrites as' ?d \<noteq> None"
          using "1.IH" [OF True [unfolded hasPendingWrites_def] as x [unfolded unsent_def] Inr n] "1.prems" n
          by (simp add: as unsent_def)
        with x as Inr n True show ?thesis
          by (simp add: flushPendingWrites.simps [of "r # as'"] unsent_def hasPendingWrites_def)
      qed
    qed
  qed
qed

text \<open>\<open>flushPendingWrites\<close> returns: one answered call of \<open>write\<close> per queued byte is enough, since each
  call that does not end the loop takes at least one byte.\<close>

theorem flushPendingWrites_returns:
  assumes "list_all (\<lambda>rs. Client_write [] rs \<noteq> None) as" and "length (unsent c) \<le> length as"
  shows "\<exists>r. flushPendingWrites as c = Some r"
  using flush_returns [OF assms] by simp

theorem flushPendingWrites_returns_witness:
  "\<exists>r. flushPendingWrites [[Errno 4, Ok 1], [Ok 1]] (sendAll ''ab'' newTcpClient) = Some r"
proof -
  have a: "list_all (\<lambda>rs. Client_write [] rs \<noteq> None) [[Errno 4, Ok 1], [Ok 1]]" by code_simp
  have b: "length (unsent (sendAll ''ab'' newTcpClient)) \<le> length [[Errno 4, Ok 1], [Ok 1 :: nat sys]]" by code_simp
  from flushPendingWrites_returns [OF a b] show ?thesis .
qed

text \<open>C36. Every port from 1 to 65535 is accepted from its decimal text and kept without truncation, and the port is
  never 0.\<close>

theorem parsePort_range:
  assumes "1 \<le> p" and "p \<le> MAX_PORT"
  shows "parsePort (to_string p) = Inr (word_of_int p) \<and> uint (word_of_int p :: 16 word) = p \<and> parsePort s \<noteq> Inr 0"
proof (intro conjI)
  have u: "uint (word_of_int v :: 16 word) = v" if "0 \<le> v" "v \<le> MAX_PORT" for v
    using that by (simp add: uint_word_of_int MAX_PORT_def)
  then show "uint (word_of_int p :: 16 word) = p" using assms by simp
  have "p mod 2 ^ 64 = p" using assms by (simp add: MAX_PORT_def)
  then show "parsePort (to_string p) = Inr (word_of_int p)"
    using assms by (simp add: parsePort_def stoull_def signed_digits_to_string MAX_PORT_def)
  have "word_of_int v \<noteq> (0 :: 16 word)" if "v \<noteq> 0" "0 \<le> v" "v \<le> MAX_PORT" for v
    using u [of v] that by auto
  moreover have "0 \<le> v" if "stoull s = Some v" for v
    using that by (auto simp: stoull_def split: option.splits if_splits)
  ultimately show "parsePort s \<noteq> Inr 0"
    by (auto simp: parsePort_def split: option.splits if_splits)
qed

theorem parsePort_range_witness:
  "parsePort ''4242'' = Inr 4242 \<and> uint (4242 :: 16 word) = 4242"
proof -
  have p: "(1::int) \<le> 4242" "4242 \<le> MAX_PORT" by (simp_all add: MAX_PORT_def)
  have "to_string 4242 = ''4242''" by code_simp
  with parsePort_range [OF p] show ?thesis by simp
qed

end
