(* ===== verification/End_To_End.thy ===== *)
theory End_To_End
  imports Client_Specs Command_Specs
begin

text \<open>
  From the server to the user: what the client shows for the lines the server writes. The contract of a
  listing (a begin marker, one line per item, an end marker) is the locale \<open>listing\<close>, interpreted for
  the six kinds of list; the lines of events are routed one by one. A field reaches the client as its
  escaped text up to the first NUL (\<open>shown\<close>).
\<close>

definition shown :: "string \<Rightarrow> string" where
  "shown v = c_str (escape v)"

lemma shown_id: "NUL \<notin> set v \<Longrightarrow> DQ \<notin> set v \<Longrightarrow> BSL \<notin> set v \<Longrightarrow> shown v = v"
  using escape_id_iff [of v] by (simp add: shown_def c_str_id)

section \<open>One line\<close>

lemma join_sp_no_LF: "list_all (\<lambda>w. LF \<notin> set w) ws \<Longrightarrow> LF \<notin> set (join_sp ws)"
  by (induction ws rule: join_sp.induct) auto

lemma plain_no_LF: "plain_word w \<Longrightarrow> LF \<notin> set w"
  by (auto simp: plain_word_def list_all_iff isspace_def)

lemma quotable_no_LF: "quotable v \<Longrightarrow> LF \<notin> set v"
proof -
  assume v: "quotable v"
  have "list_all (\<lambda>w. LF \<notin> set w) (words v)"
    using words_plain [of v] plain_no_LF by (simp add: list_all_iff)
  from join_sp_no_LF [OF this] v show ?thesis by (simp add: quotable_def)
qed

lemma render_no_LF: "list_all field_ok fs \<Longrightarrow> LF \<notin> set (render fs)"
  unfolding render_def
proof (rule join_sp_no_LF)
  have "LF \<notin> set (render_field f)" if "field_ok f" for f
    using that by (cases f) (auto simp: plain_no_LF quotable_no_LF)
  then show "list_all field_ok fs \<Longrightarrow> list_all (\<lambda>w. LF \<notin> set w) (map render_field fs)"
    by (simp add: list_all_iff)
qed

lemma route_line:
  assumes "list_all field_ok fs" and "fs \<noteq> []" and "int (length (render fs)) < MAX_SERVER_FRAME_SIZE"
    and "\<not> rt_shouldDisconnect (routeTokens (map field_token fs) r)"
  shows "route_lines (fst (split_lf (render fs @ CRLF @ rest))) r =
    route_lines (fst (split_lf rest)) (routeTokens (map field_token fs) r)"
proof -
  have "split_lf (render fs @ CRLF @ rest) = ((render fs @ [CR]) # fst (split_lf rest), snd (split_lf rest))"
    using split_lf_line [of "render fs @ [CR]" rest] render_no_LF [OF assms(1)] by (simp add: CRLF_def)
  moreover have "routeFrame (strip_cr (render fs @ [CR])) r = routeTokens (map field_token fs) r"
    using client_tok.loop_render [OF assms(1), of "[]"] assms(2)
    by (simp add: strip_cr_def routeFrame_def TokenParser_parse_def)
  ultimately show ?thesis using assms(3,4) by simp
qed

lemma plain_word_to_string: "plain_word (to_string t) \<and> hd (to_string t) \<noteq> DQ"
proof -
  have "list_all (\<lambda>c. isdigit c \<or> c = CHR ''-'') (to_string t)"
    using nat_digits_isdigit by (auto simp: to_string_def list_all_iff)
  then have "list_all (\<lambda>c. \<not> isspace c \<and> c \<noteq> DQ) (to_string t)"
    by (rule list.pred_mono_strong) (auto simp: isdigit_def isspace_def)
  then show ?thesis by (cases "to_string t") (auto simp: plain_word_def list_all_iff)
qed

lemma render_Cons: "fs \<noteq> [] \<Longrightarrow> render (f # fs) = render_field f @ SP # render fs"
  by (cases fs) (simp_all add: render_def)

lemma render_single: "render [f] = render_field f"
  by (simp add: render_def)

lemmas rendered = render_Cons render_single quoteProtocolField_def CRLF_def

section \<open>Listings\<close>

locale listing =
  fixes kind :: string
    and visible :: "'a \<Rightarrow> bool"
    and line :: "'a \<Rightarrow> string"
    and fields :: "'a \<Rightarrow> field list"
    and event :: "'a \<Rightarrow> client_event"
  assumes kind: "plain_word kind \<and> hd kind \<noteq> DQ \<and> length kind < 100"
    and line: "line x = render (Bare ''210'' # fields x) @ CRLF"
    and fields_ok: "visible x \<Longrightarrow> list_all field_ok (fields x)"
    and fits: "visible x \<Longrightarrow> int (length (line x)) < MAX_SERVER_FRAME_SIZE"
    and routed: "visible x \<Longrightarrow> rt_listContext r = kind \<Longrightarrow>
      run_table listHandlers kind (''210'' # map field_token (fields x)) r = call (event x) r"
begin

lemma items_routed:
  assumes "list_all visible xs" and "\<not> rt_shouldDisconnect r" and "rt_listContext r = kind"
  shows "route_lines (fst (split_lf (concat (map line xs) @ rest))) r =
    route_lines (fst (split_lf rest)) (r\<lparr>rt_log := rt_log r @ map event xs\<rparr>)"
  using assms
proof (induction xs arbitrary: r)
  case (Cons x xs)
  let ?fs = "Bare ''210'' # fields x"
  have x: "visible x" using Cons.prems(1) by simp
  have ok: "list_all field_ok ?fs" using fields_ok [OF x] by (simp add: plain_word_def isspace_def)
  have len: "int (length (render ?fs)) < MAX_SERVER_FRAME_SIZE" using fits [OF x] by (simp add: line CRLF_def)
  have rt: "routeTokens (map field_token ?fs) r = call (event x) r"
    using routed [OF x Cons.prems(3)] Cons.prems(3) by (simp add: routeTokens_def)
  then have "\<not> rt_shouldDisconnect (routeTokens (map field_token ?fs) r)" using Cons.prems(2) by (simp add: call_def)
  from route_line [OF ok _ len this] rt Cons.IH [of "call (event x) r"] Cons.prems show ?case
    by (simp add: line call_def)
qed simp

lemma listing_routed:
  assumes "list_all visible xs" and "\<not> rt_shouldDisconnect r"
  shows "route_lines (fst (split_lf (''210-BEGIN '' @ kind @ CRLF @ concat (map line xs) @ ''210-END '' @ kind @ CRLF))) r =
    Inr (False, r\<lparr>rt_listContext := [], rt_log := rt_log r @ map event xs\<rparr>)"
proof -
  let ?r1 = "r\<lparr>rt_listContext := kind\<rparr>"
  let ?r2 = "?r1\<lparr>rt_log := rt_log r @ map event xs\<rparr>"
  have k: "list_all field_ok [Bare w, Bare kind]" "int (length (render [Bare w, Bare kind])) < MAX_SERVER_FRAME_SIZE"
    if "w = ''210-BEGIN'' \<or> w = ''210-END''" for w
    using that kind by (auto simp: plain_word_def isspace_def render_def MAX_SERVER_FRAME_SIZE_def)
  have b: "''210-BEGIN '' @ kind @ CRLF @ t = render [Bare ''210-BEGIN'', Bare kind] @ CRLF @ t"
    "''210-END '' @ kind @ CRLF @ t = render [Bare ''210-END'', Bare kind] @ CRLF @ t" for t
    by (simp_all add: render_def)
  have rb: "routeTokens (map field_token [Bare ''210-BEGIN'', Bare kind]) r = ?r1" by (simp add: routeTokens_def)
  have re: "routeTokens (map field_token [Bare ''210-END'', Bare kind]) ?r2 = ?r2\<lparr>rt_listContext := []\<rparr>"
    by (simp add: routeTokens_def)
  have "route_lines (fst (split_lf (''210-END '' @ kind @ CRLF @ []))) ?r2 = Inr (False, ?r2\<lparr>rt_listContext := []\<rparr>)"
    unfolding b(2) using assms(2) k [of "''210-END''"] by (subst route_line) (simp_all add: routeTokens_def)
  moreover have "route_lines (fst (split_lf (''210-BEGIN '' @ kind @ CRLF @ t))) r = route_lines (fst (split_lf t)) ?r1" for t
    unfolding b(1) using assms(2) k [of "''210-BEGIN''"] by (subst route_line) (simp_all add: routeTokens_def)
  ultimately show ?thesis using items_routed [OF assms(1), of ?r1] assms(2) by simp
qed

end

text \<open>What the client shows for one item of each kind, and when the line of an item arrives whole: its texts
  are quotable, its time fits \<open>time_t\<close>, and the line is below the limit of a frame.\<close>

abbreviation time_ok :: "int \<Rightarrow> bool" where
  "time_ok t \<equiv> - (2 ^ 63) \<le> t \<and> t < 2 ^ 63"

definition line_fits :: "string \<Rightarrow> bool" where
  "line_fits l \<longleftrightarrow> int (length l) < MAX_SERVER_FRAME_SIZE"

definition status :: "user \<Rightarrow> int" where
  "status u = (if isConnected u then 1 else 0)"

definition user_visible :: "user \<Rightarrow> bool" where
  "user_visible u \<longleftrightarrow> quotable (usr_uuid u) \<and> quotable (usr_name u) \<and> line_fits (userLine ''210 '' u)"

definition team_visible :: "team \<Rightarrow> bool" where
  "team_visible t \<longleftrightarrow> quotable (team_uuid t) \<and> quotable (team_name t) \<and> quotable (team_description t) \<and> line_fits (teamLine ''210 '' t)"

definition channel_visible :: "channel \<Rightarrow> bool" where
  "channel_visible c \<longleftrightarrow> quotable (chn_uuid c) \<and> quotable (chn_name c) \<and> quotable (chn_description c) \<and>
     line_fits (''210 '' @ channelFields c)"

definition thread_visible :: "thread \<Rightarrow> bool" where
  "thread_visible t \<longleftrightarrow> quotable (thr_uuid t) \<and> quotable (thr_userUuid t) \<and> time_ok (thr_timestamp t) \<and> quotable (thr_title t) \<and>
     quotable (thr_body t) \<and> line_fits (''210 '' @ threadFields t)"

definition reply_visible :: "uuid \<Rightarrow> reply \<Rightarrow> bool" where
  "reply_visible th r \<longleftrightarrow> quotable th \<and> quotable (rep_userUuid r) \<and> time_ok (rep_timestamp r) \<and> quotable (rep_body r) \<and>
     line_fits (replyLine th r)"

definition message_visible :: "message \<Rightarrow> bool" where
  "message_visible m \<longleftrightarrow> quotable (msg_senderUuid m) \<and> time_ok (msg_timestamp m) \<and> quotable (msg_body m) \<and> line_fits (messageLine m)"

abbreviation quoted :: "string \<Rightarrow> field" where
  "quoted v \<equiv> Quoted (escape v)"

lemma kinds: "plain_word ''USERS''" "plain_word ''TEAMS''" "plain_word ''CHANNELS''" "plain_word ''THREADS''"
  "plain_word ''REPLIES''" "plain_word ''MESSAGES''"
  by code_simp+

lemma static_cast_status: "static_cast_int (status u) = status u"
  by (simp add: static_cast_int_def status_def)

lemma stoll_status: "stoll (connectedFlag u) = Some (status u)"
  by (simp add: connectedFlag_def status_def stoll_to_string)

lemmas listing_simps = listHandlers_def run_table_def list_handler_defs tok_def shown_def stoll_to_string quotable_escape
  plain_word_to_string line_fits_def numeral_eq_Suc

interpretation users_list: listing "''USERS''" user_visible "userLine ''210 ''"
  "\<lambda>u. [quoted (usr_uuid u), quoted (usr_name u), Bare (connectedFlag u)]"
  "\<lambda>u. client_print_users (shown (usr_uuid u)) (shown (usr_name u)) (status u)"
  by unfold_locales
    (auto simp: kinds user_visible_def userLine_def rendered connectedFlag_def [abs_def] listing_simps stoll_status [unfolded connectedFlag_def] static_cast_status)

interpretation teams_list: listing "''TEAMS''" team_visible "teamLine ''210 ''"
  "\<lambda>t. [quoted (team_uuid t), quoted (team_name t), quoted (team_description t)]"
  "\<lambda>t. client_print_teams (shown (team_uuid t)) (shown (team_name t)) (shown (team_description t))"
  by unfold_locales (auto simp: kinds team_visible_def teamLine_def rendered listing_simps)

interpretation channels_list: listing "''CHANNELS''" channel_visible "\<lambda>c. ''210 '' @ channelFields c"
  "\<lambda>c. [quoted (chn_uuid c), quoted (chn_name c), quoted (chn_description c)]"
  "\<lambda>c. client_team_print_channels (shown (chn_uuid c)) (shown (chn_name c)) (shown (chn_description c))"
  by unfold_locales (auto simp: kinds channel_visible_def channelFields_def rendered listing_simps)

interpretation threads_list: listing "''THREADS''" thread_visible "\<lambda>t. ''210 '' @ threadFields t"
  "\<lambda>t. [quoted (thr_uuid t), quoted (thr_userUuid t), Bare (to_string (thr_timestamp t)), quoted (thr_title t), quoted (thr_body t)]"
  "\<lambda>t. client_channel_print_threads (shown (thr_uuid t)) (shown (thr_userUuid t)) (thr_timestamp t) (shown (thr_title t)) (shown (thr_body t))"
  by unfold_locales (auto simp: kinds thread_visible_def threadFields_def rendered listing_simps)

interpretation replies_list: listing "''REPLIES''" "reply_visible th" "replyLine th"
  "\<lambda>r. [quoted th, quoted (rep_userUuid r), Bare (to_string (rep_timestamp r)), quoted (rep_body r)]"
  "\<lambda>r. client_thread_print_replies (shown th) (shown (rep_userUuid r)) (rep_timestamp r) (shown (rep_body r))" for th
  by unfold_locales (auto simp: kinds reply_visible_def replyLine_def rendered listing_simps)

interpretation messages_list: listing "''MESSAGES''" message_visible messageLine
  "\<lambda>m. [quoted (msg_senderUuid m), Bare (to_string (msg_timestamp m)), quoted (msg_body m)]"
  "\<lambda>m. client_private_message_print_messages (shown (msg_senderUuid m)) (msg_timestamp m) (shown (msg_body m))"
  by unfold_locales (auto simp: kinds message_visible_def messageLine_def rendered listing_simps)

section \<open>Lists reach the user\<close>

text \<open>C12. \<open>/users\<close> end to end: for a logged-in connection the text the server queues makes the client print
  every user of the database once, in order, with the user's identifier and name as escaped text and the
  connected flag, and leaves the client outside any list.\<close>

theorem users_reach_client:
  assumes "cl_userUuid (clientAt s fd) \<noteq> []" and "list_all user_visible (db_users (srv_db s))" and "\<not> rt_shouldDisconnect r"
  shows "\<exists>text. UsersCommand_execute e fd s = sendToClient text fd s \<and>
    route_lines (fst (split_lf text)) r = Inr (False, r\<lparr>rt_listContext := [], rt_log := rt_log r @
      map (\<lambda>u. client_print_users (shown (usr_uuid u)) (shown (usr_name u)) (status u)) (db_users (srv_db s))\<rparr>)"
proof -
  have "UsersCommand_execute e fd s = sendToClient (''210-BEGIN '' @ ''USERS'' @ CRLF @
      concat (map (userLine ''210 '') (db_users (srv_db s))) @ ''210-END '' @ ''USERS'' @ CRLF) fd s"
    using assms(1) by (simp add: UsersCommand_execute_def Let_def fold_sendToClient)
  with users_list.listing_routed [OF assms(2,3)] show ?thesis by blast
qed

theorem users_reach_client_witness:
  "\<exists>text. UsersCommand_execute demo_env 4 (demo emptyCtx []) = sendToClient text 4 (demo emptyCtx []) \<and>
    route_lines (fst (split_lf text)) newRouter = Inr (False, newRouter\<lparr>rt_log :=
      [client_print_users ''u1'' ''alice'' 1, client_print_users ''u2'' ''bob'' 1]\<rparr>)"
proof -
  have a: "cl_userUuid (clientAt (demo emptyCtx []) 4) \<noteq> []" by code_simp
  have b: "list_all user_visible (db_users (srv_db (demo emptyCtx [])))" by code_simp
  have c: "\<not> rt_shouldDisconnect newRouter" by (simp add: newRouter_def)
  have d: "map (\<lambda>u. client_print_users (shown (usr_uuid u)) (shown (usr_name u)) (status u)) (db_users (srv_db (demo emptyCtx []))) =
    [client_print_users ''u1'' ''alice'' 1, client_print_users ''u2'' ''bob'' 1]" by code_simp
  from users_reach_client [OF a b c, of demo_env] show ?thesis unfolding d by (simp add: newRouter_def)
qed

text \<open>C33. \<open>/messages\<close> end to end: the client prints exactly the messages of the conversation the server stores
  between the two users, oldest first, with their author, time and escaped body.\<close>

theorem messages_reach_client:
  assumes "findUser (srv_db s) (cl_userUuid (clientAt s fd)) \<noteq> None" and "cl_userUuid (clientAt s fd) \<noteq> []"
    and "length (cl_args (clientAt s fd)) \<ge> 2" and "cl_args (clientAt s fd) ! 1 \<noteq> []"
    and "findUser (srv_db s) (cl_args (clientAt s fd) ! 1) \<noteq> None" and "\<not> rt_shouldDisconnect r"
    and "list_all message_visible (conv (srv_db s) (cl_userUuid (clientAt s fd)) (cl_args (clientAt s fd) ! 1))"
  shows "\<exists>text. Messages_execute e fd s = sendToClient text fd s \<and>
    route_lines (fst (split_lf text)) r = Inr (False, r\<lparr>rt_listContext := [], rt_log := rt_log r @
      map (\<lambda>m. client_private_message_print_messages (shown (msg_senderUuid m)) (msg_timestamp m) (shown (msg_body m)))
        (conv (srv_db s) (cl_userUuid (clientAt s fd)) (cl_args (clientAt s fd) ! 1))\<rparr>)"
proof -
  have "Messages_execute e fd s = sendToClient (''210-BEGIN '' @ ''MESSAGES'' @ CRLF @
      concat (map messageLine (conv (srv_db s) (cl_userUuid (clientAt s fd)) (cl_args (clientAt s fd) ! 1))) @
      ''210-END '' @ ''MESSAGES'' @ CRLF) fd s"
    using assms(1-5)
    by (auto simp: Messages_execute_def Let_def conv_def conversation_def fold_sendMessageLine split: option.splits)
  with messages_list.listing_routed [OF assms(7,6)] show ?thesis by blast
qed

definition demo_talk :: server where
  "demo_talk = Send_execute (demo_env\<lparr>env_time := 42\<rparr>) 4 (demo emptyCtx [''/send'', ''u2'', ''hi there''])"

theorem messages_reach_client_witness:
  "\<exists>text. Messages_execute demo_env 4 demo_talk = sendToClient text 4 demo_talk \<and>
    route_lines (fst (split_lf text)) newRouter = Inr (False, newRouter\<lparr>rt_log :=
      [client_private_message_print_messages ''u1'' 42 ''hi there'']\<rparr>)"
proof -
  have a: "findUser (srv_db demo_talk) (cl_userUuid (clientAt demo_talk 4)) \<noteq> None"
    "cl_userUuid (clientAt demo_talk 4) \<noteq> []" "length (cl_args (clientAt demo_talk 4)) \<ge> 2" "cl_args (clientAt demo_talk 4) ! 1 \<noteq> []"
    "findUser (srv_db demo_talk) (cl_args (clientAt demo_talk 4) ! 1) \<noteq> None" by code_simp+
  have b: "\<not> rt_shouldDisconnect newRouter" by (simp add: newRouter_def)
  have c: "list_all message_visible (conv (srv_db demo_talk) (cl_userUuid (clientAt demo_talk 4)) (cl_args (clientAt demo_talk 4) ! 1))"
    by code_simp
  have d: "map (\<lambda>m. client_private_message_print_messages (shown (msg_senderUuid m)) (msg_timestamp m) (shown (msg_body m)))
      (conv (srv_db demo_talk) (cl_userUuid (clientAt demo_talk 4)) (cl_args (clientAt demo_talk 4) ! 1)) =
    [client_private_message_print_messages ''u1'' 42 ''hi there'']" by code_simp
  from messages_reach_client [OF a b c, of demo_env] show ?thesis unfolding d by (simp add: newRouter_def)
qed

section \<open>Announcements reach the users\<close>

lemma route_last:
  assumes "list_all field_ok fs" and "fs \<noteq> []" and "line_fits (render fs)"
    and "\<not> rt_shouldDisconnect (routeTokens (map field_token fs) r)"
  shows "route_lines (fst (split_lf (render fs @ CRLF))) r = Inr (False, routeTokens (map field_token fs) r)"
  using route_line [OF assms(1,2) _ assms(4), of "[]"] assms(3) by (simp add: line_fits_def)

definition team_fields :: "team \<Rightarrow> field list" where
  "team_fields t = [quoted (team_uuid t), quoted (team_name t), quoted (team_description t)]"

text \<open>Creating a team end to end: the author's client prints the created team and then the event, every other
  connected client prints the event, with the identifier, name and description as escaped text.\<close>

theorem team_creation_reaches_clients:
  assumes "team_visible t" and "k \<in> set (fds s)" and "\<not> rt_shouldDisconnect r"
    and "line_fits (teamLine ''201 CREATED TEAM '' t)" and "line_fits (teamLine ''EVENT TEAM_CREATED '' t)"
  shows "\<exists>text. writeBufferAt (emitTeamCreated fd t s) k = writeBufferAt s k @ text \<and>
    route_lines (fst (split_lf text)) r = Inr (False, r\<lparr>rt_log := rt_log r @
      (if k = fd then [client_print_team_created (shown (team_uuid t)) (shown (team_name t)) (shown (team_description t))] else []) @
      [client_event_team_created (shown (team_uuid t)) (shown (team_name t)) (shown (team_description t))]\<rparr>)"
proof -
  let ?c = "[Bare ''201'', Bare ''CREATED'', Bare ''TEAM''] @ team_fields t"
  let ?e = "[Bare ''EVENT'', Bare ''TEAM_CREATED''] @ team_fields t"
  have q: "list_all field_ok (team_fields t)" using assms(1) by (simp add: team_fields_def team_visible_def quotable_escape)
  have ok: "list_all field_ok ?c" "list_all field_ok ?e" using q by (simp_all add: plain_word_def isspace_def)
  have l: "teamLine ''201 CREATED TEAM '' t = render ?c @ CRLF" "teamLine ''EVENT TEAM_CREATED '' t = render ?e @ CRLF"
    by (simp_all add: teamLine_def rendered team_fields_def)
  have fit: "int (length (render ?c)) < MAX_SERVER_FRAME_SIZE" "line_fits (render ?e)"
    using assms(4,5) unfolding l line_fits_def by simp_all
  define r1 where "r1 = call (client_print_team_created (shown (team_uuid t)) (shown (team_name t)) (shown (team_description t))) r"
  have c: "routeTokens (map field_token ?c) r = r1"
    by (simp add: routeTokens_def run_table_def commandHandlers_table ResponseStatusHandler_handle_def handle201_def r1_def
        team_fields_def tok_def shown_def numeral_eq_Suc)
  have e: "routeTokens (map field_token ?e) r' = call (client_event_team_created (shown (team_uuid t)) (shown (team_name t)) (shown (team_description t))) r'" for r'
    by (simp add: routeTokens_def run_table_def commandHandlers_table TeamCreatedHandler_handle_def team_fields_def tok_def shown_def numeral_eq_Suc)
  have d: "\<not> rt_shouldDisconnect r1" using assms(3) by (simp add: r1_def call_def)
  have last: "route_lines (fst (split_lf (render ?e @ CRLF))) r' = Inr (False, routeTokens (map field_token ?e) r')"
    if "\<not> rt_shouldDisconnect r'" for r'
    using that e [of r'] by (intro route_last [OF ok(2) _ fit(2)]) (simp_all add: call_def)
  have first: "route_lines (fst (split_lf (render ?c @ CRLF @ rest))) r = route_lines (fst (split_lf rest)) r1" for rest
    using route_line [OF ok(1) _ fit(1), of r rest] c d by simp
  have "writeBufferAt (emitTeamCreated fd t s) k = writeBufferAt s k @
      ((if k = fd then teamLine ''201 CREATED TEAM '' t else []) @ teamLine ''EVENT TEAM_CREATED '' t)"
    using assms(2) by (simp add: emitTeamCreated_def Let_def broadcast_deliver sendToClient_deliver writeBufferAt_deliver
        writeBufferAt_frames frame_simps)
  then show ?thesis
    using last [OF assms(3)] last [OF d] first [of "render ?e @ CRLF"] e
    by (intro exI conjI) (auto simp: l r1_def call_def)
qed

theorem team_creation_reaches_clients_witness:
  "\<exists>text. writeBufferAt (emitTeamCreated 4 demo_team (demo emptyCtx [])) 4 = writeBufferAt (demo emptyCtx []) 4 @ text \<and>
    route_lines (fst (split_lf text)) newRouter = Inr (False, newRouter\<lparr>rt_log :=
      [client_print_team_created ''t1'' ''core'' ''the team'', client_event_team_created ''t1'' ''core'' ''the team'']\<rparr>)"
proof -
  have a: "team_visible demo_team" "4 \<in> set (fds (demo emptyCtx []))" by code_simp+
  have b: "\<not> rt_shouldDisconnect newRouter" by (simp add: newRouter_def)
  have c: "line_fits (teamLine ''201 CREATED TEAM '' demo_team)" "line_fits (teamLine ''EVENT TEAM_CREATED '' demo_team)" by code_simp+
  have d: "shown (team_uuid demo_team) = ''t1''" "shown (team_name demo_team) = ''core''" "shown (team_description demo_team) = ''the team''"
    by code_simp+
  from team_creation_reaches_clients [OF a b c, of 4] show ?thesis by (simp add: d newRouter_def)
qed

end
