(* ===== verification/Announcements.thy ===== *)
theory Announcements
  imports End_To_End
begin

text \<open>
  What the server announces and what the users of the clients see of it: the lines of the events and of the
  replies to \<open>/create\<close> against the handlers of the client, one contract (locale \<open>announcement\<close>) for all, and
  the commands that write them: to whom each line goes and what is printed there.
\<close>

section \<open>Texts a client displays\<close>

text \<open>Complete lines that make any client that is not about to leave call the logging library with the given
  events, in order, and change nothing else of it.\<close>

definition displays :: "string \<Rightarrow> client_event list \<Rightarrow> bool" where
  "displays text evs \<longleftrightarrow> snd (split_lf text) = [] \<and>
     (\<forall>r. \<not> rt_shouldDisconnect r \<and> rt_pendingCommand r \<noteq> ''/logout'' \<longrightarrow>
        route_lines (fst (split_lf text)) r = Inr (False, r\<lparr>rt_log := rt_log r @ evs\<rparr>))"

lemma displays_Nil [simp]: "displays [] []"
  by (simp add: displays_def)

lemma displays_append: "displays a as \<Longrightarrow> displays b bs \<Longrightarrow> displays (a @ b) (as @ bs)"
  using split_lf_append [of a b] by (simp add: displays_def route_lines_append)

lemma displays_if: "displays a as \<Longrightarrow> displays (if p then a else []) (if p then as else [])"
  by simp

text \<open>One line: bare words, then fields.\<close>

definition announce :: "string list \<Rightarrow> field list \<Rightarrow> string" where
  "announce heads fs = render (map Bare heads @ fs) @ CRLF"

definition arrives :: "field list \<Rightarrow> string \<Rightarrow> bool" where
  "arrives fs text \<longleftrightarrow> list_all field_ok fs \<and> line_fits text"

lemma displays_line:
  assumes "arrives fs (render fs @ CRLF)" and "fs \<noteq> []"
    and "\<And>r. rt_pendingCommand r \<noteq> ''/logout'' \<Longrightarrow> routeTokens (map field_token fs) r = r\<lparr>rt_log := rt_log r @ evs\<rparr>"
  shows "displays (render fs @ CRLF) evs"
proof -
  have f: "list_all field_ok fs" "line_fits (render fs)" using assms(1) by (simp_all add: arrives_def line_fits_def)
  have "snd (split_lf (render fs @ CRLF)) = []"
    using split_lf_line [of "render fs @ [CR]" "[]"] render_no_LF [OF f(1)] by (simp add: CRLF_def)
  then show ?thesis unfolding displays_def using route_last [OF f(1) assms(2) f(2)] assms(3) by simp
qed

text \<open>Fields the client can read back, short enough to fit in a frame after any of the heads below.\<close>

definition sendable :: "field list \<Rightarrow> bool" where
  "sendable fs \<longleftrightarrow> list_all field_ok fs \<and> int (length (render fs)) + 100 < MAX_SERVER_FRAME_SIZE"

lemma length_join_sp: "xs \<noteq> [] \<Longrightarrow> ys \<noteq> [] \<Longrightarrow> length (join_sp (xs @ ys)) = length (join_sp xs) + 1 + length (join_sp ys)"
proof (induction xs rule: join_sp.induct)
  case (2 w)
  then show ?case by (cases ys) simp_all
qed simp_all

lemma sendable_fits:
  assumes "sendable fs" and "fs \<noteq> []" and "heads \<noteq> []" and "int (length (render (map Bare heads))) < 90"
  shows "line_fits (announce heads fs)"
  using assms by (simp add: sendable_def line_fits_def announce_def render_def length_join_sp CRLF_def)

locale announcement =
  fixes heads :: "string list"
    and visible :: "'a \<Rightarrow> bool"
    and fields :: "'a \<Rightarrow> field list"
    and event :: "'a \<Rightarrow> client_event"
  assumes heads: "heads \<noteq> [] \<and> list_all (\<lambda>w. field_ok (Bare w)) heads \<and> int (length (render (map Bare heads))) < 90"
    and some: "fields x \<noteq> []"
    and routed: "visible x \<Longrightarrow> routeTokens (heads @ map field_token (fields x)) r = call (event x) r"
begin

lemma displayed:
  assumes "visible x" and "sendable (fields x)"
  shows "displays (announce heads (fields x)) [event x]"
  unfolding announce_def
proof (rule displays_line)
  have "line_fits (announce heads (fields x))" using heads assms(2) by (intro sendable_fits some) simp_all
  moreover have "list_all field_ok (map Bare heads @ fields x)"
    using heads assms(2) by (auto simp: sendable_def list_all_iff)
  ultimately show "arrives (map Bare heads @ fields x) (render (map Bare heads @ fields x) @ CRLF)"
    by (simp add: arrives_def announce_def)
  show "map Bare heads @ fields x \<noteq> []" using heads by simp
  show "routeTokens (map field_token (map Bare heads @ fields x)) r = r\<lparr>rt_log := rt_log r @ [event x]\<rparr>" for r
    using routed [OF assms(1), of r] by (simp add: comp_def call_def)
qed

end

section \<open>The announcements of the server\<close>

definition channel_fields :: "channel \<Rightarrow> field list" where
  "channel_fields c = [quoted (chn_uuid c), quoted (chn_name c), quoted (chn_description c)]"

definition thread_fields :: "thread \<Rightarrow> field list" where
  "thread_fields t = [quoted (thr_uuid t), quoted (thr_userUuid t), Bare (to_string (thr_timestamp t)),
     quoted (thr_title t), quoted (thr_body t)]"

text \<open>A reply in the thread \<open>th\<close>: as its author is told, and as the subscribers of the team \<open>tu\<close> are.\<close>

definition reply_fields :: "uuid \<Rightarrow> reply \<Rightarrow> field list" where
  "reply_fields th r = [quoted th, quoted (rep_userUuid r), Bare (to_string (rep_timestamp r)), quoted (rep_body r)]"

definition replied_fields :: "uuid \<Rightarrow> uuid \<Rightarrow> reply \<Rightarrow> field list" where
  "replied_fields tu th r = [quoted tu, quoted th, quoted (rep_userUuid r), quoted (rep_body r)]"

lemmas field_defs = team_fields_def channel_fields_def thread_fields_def reply_fields_def replied_fields_def

lemmas announcement_simps = routeTokens_def run_table_def commandHandlers_table ResponseStatusHandler_handle_def
  handle201_def event_handler_defs tok_def shown_def stoll_to_string field_defs numeral_eq_Suc

interpretation team_created: announcement "[''201'', ''CREATED'', ''TEAM'']" "\<lambda>_. True" team_fields
  "\<lambda>t. client_print_team_created (shown (team_uuid t)) (shown (team_name t)) (shown (team_description t))"
  by unfold_locales (simp_all add: announcement_simps plain_word_def isspace_def render_def)

interpretation team_event: announcement "[''EVENT'', ''TEAM_CREATED'']" "\<lambda>_. True" team_fields
  "\<lambda>t. client_event_team_created (shown (team_uuid t)) (shown (team_name t)) (shown (team_description t))"
  by unfold_locales (simp_all add: announcement_simps plain_word_def isspace_def render_def)

interpretation channel_created: announcement "[''201'', ''CREATED'', ''CHANNEL'']" "\<lambda>_. True" channel_fields
  "\<lambda>c. client_print_channel_created (shown (chn_uuid c)) (shown (chn_name c)) (shown (chn_description c))"
  by unfold_locales (simp_all add: announcement_simps plain_word_def isspace_def render_def)

interpretation channel_event: announcement "[''EVENT'', ''CHANNEL_CREATED'']" "\<lambda>_. True" channel_fields
  "\<lambda>c. client_event_channel_created (shown (chn_uuid c)) (shown (chn_name c)) (shown (chn_description c))"
  by unfold_locales (simp_all add: announcement_simps plain_word_def isspace_def render_def)

interpretation thread_created: announcement "[''201'', ''CREATED'', ''THREAD'']" "\<lambda>t. time_ok (thr_timestamp t)" thread_fields
  "\<lambda>t. client_print_thread_created (shown (thr_uuid t)) (shown (thr_userUuid t)) (thr_timestamp t) (shown (thr_title t)) (shown (thr_body t))"
  by unfold_locales (simp_all add: announcement_simps plain_word_def isspace_def render_def)

interpretation thread_event: announcement "[''EVENT'', ''THREAD_CREATED'']" "\<lambda>t. time_ok (thr_timestamp t)" thread_fields
  "\<lambda>t. client_event_thread_created (shown (thr_uuid t)) (shown (thr_userUuid t)) (thr_timestamp t) (shown (thr_title t)) (shown (thr_body t))"
  by unfold_locales (simp_all add: announcement_simps plain_word_def isspace_def render_def)

interpretation reply_created: announcement "[''201'', ''CREATED'', ''REPLY'']" "\<lambda>r. time_ok (rep_timestamp r)" "reply_fields th"
  "\<lambda>r. client_print_reply_created (shown th) (shown (rep_userUuid r)) (rep_timestamp r) (shown (rep_body r))" for th
  by unfold_locales (simp_all add: announcement_simps plain_word_def isspace_def render_def)

interpretation reply_event: announcement "[''EVENT'', ''REPLY_CREATED'']" "\<lambda>_. True" "replied_fields tu th"
  "\<lambda>r. client_event_thread_reply_received (shown tu) (shown th) (shown (rep_userUuid r)) (shown (rep_body r))" for tu th
  by unfold_locales (simp_all add: announcement_simps plain_word_def isspace_def render_def)

interpretation message_event: announcement "[''EVENT'', ''PRIVATE_MESSAGE'']" "\<lambda>_. True" "\<lambda>b. [quoted u, quoted b]"
  "\<lambda>b. client_event_private_message_received (shown u) (shown b)" for u
  by unfold_locales (simp_all add: announcement_simps plain_word_def isspace_def render_def)

interpretation login_event: announcement "[''EVENT'', ''USER_LOGGED_IN'']" "\<lambda>_. True" "\<lambda>n. [quoted u, quoted n]"
  "\<lambda>n. client_event_logged_in (shown u) (shown n)" for u
  by unfold_locales (simp_all add: announcement_simps plain_word_def isspace_def render_def)

interpretation logout_event: announcement "[''EVENT'', ''USER_LOGGED_OUT'']" "\<lambda>_. True" "\<lambda>n. [quoted u, quoted n]"
  "\<lambda>n. client_event_logged_out (shown u) (shown n)" for u
  by unfold_locales (simp_all add: announcement_simps plain_word_def isspace_def render_def)

text \<open>The answer to an accepted \<open>/send\<close> shows nothing.\<close>

lemma ok_displays: "displays R200 []"
proof -
  have ok: "list_all field_ok [Bare ''200'', Bare ''OK'']" by (simp add: plain_word_def isspace_def)
  have fit: "line_fits (render [Bare ''200'', Bare ''OK''] @ CRLF)" by (simp add: line_fits_def render_def MAX_SERVER_FRAME_SIZE_def CRLF_def)
  have "displays (render [Bare ''200'', Bare ''OK''] @ CRLF) []"
    using ok fit by (intro displays_line) (simp_all add: arrives_def announcement_simps handle200_def handle200Ok_def)
  then show ?thesis by (simp add: render_def)
qed

section \<open>To whom the announcements go\<close>

definition told :: "server \<Rightarrow> fd \<Rightarrow> uuid \<Rightarrow> bool" where
  "told s k tu \<longleftrightarrow> tu \<noteq> [] \<and> cl_userUuid (clientAt s k) \<noteq> [] \<and>
     (\<exists>x. findTeam (srv_db s) tu = Some x \<and> isUserSubscribed x (cl_userUuid (clientAt s k)))"

lemma announced_texts:
  "teamLine ''201 CREATED TEAM '' t = announce [''201'', ''CREATED'', ''TEAM''] (team_fields t)"
  "teamLine ''EVENT TEAM_CREATED '' t = announce [''EVENT'', ''TEAM_CREATED''] (team_fields t)"
  "''201 CREATED CHANNEL '' @ channelFields c = announce [''201'', ''CREATED'', ''CHANNEL''] (channel_fields c)"
  "''EVENT CHANNEL_CREATED '' @ channelFields c = announce [''EVENT'', ''CHANNEL_CREATED''] (channel_fields c)"
  "''201 CREATED THREAD '' @ threadFields h = announce [''201'', ''CREATED'', ''THREAD''] (thread_fields h)"
  "''EVENT THREAD_CREATED '' @ threadFields h = announce [''EVENT'', ''THREAD_CREATED''] (thread_fields h)"
  "''201 CREATED REPLY '' @ quoteProtocolField th @ '' '' @ quoteProtocolField (rep_userUuid r) @ '' '' @
     to_string (rep_timestamp r) @ '' '' @ quoteProtocolField (rep_body r) @ CRLF =
   announce [''201'', ''CREATED'', ''REPLY''] (reply_fields th r)"
  "''EVENT REPLY_CREATED '' @ quoteProtocolField tu @ '' '' @ quoteProtocolField th @ '' '' @
     quoteProtocolField (rep_userUuid r) @ '' '' @ quoteProtocolField (rep_body r) @ CRLF =
   announce [''EVENT'', ''REPLY_CREATED''] (replied_fields tu th r)"
  "privateMessage u b = announce [''EVENT'', ''PRIVATE_MESSAGE''] [quoted u, quoted b]"
  by (simp_all add: announce_def teamLine_def channelFields_def threadFields_def privateMessage_def field_defs rendered)

lemma emitted:
  assumes "k \<in> set (fds s)"
  shows "writeBufferAt (emitTeamCreated fd t s) k = writeBufferAt s k @
      (if k = fd then teamLine ''201 CREATED TEAM '' t else []) @ teamLine ''EVENT TEAM_CREATED '' t"
    and "writeBufferAt (emitChannelCreated fd tu c s) k = writeBufferAt s k @
      (if k = fd then ''201 CREATED CHANNEL '' @ channelFields c else []) @
      (if told s k tu then ''EVENT CHANNEL_CREATED '' @ channelFields c else [])"
    and "writeBufferAt (emitThreadCreated fd tu cu h s) k = writeBufferAt s k @
      (if k = fd then ''201 CREATED THREAD '' @ threadFields h else []) @
      (if told s k tu then ''EVENT THREAD_CREATED '' @ threadFields h else [])"
    and "writeBufferAt (emitReplyCreated fd tu th r s) k = writeBufferAt s k @
      (if k = fd then announce [''201'', ''CREATED'', ''REPLY''] (reply_fields th r) else []) @
      (if told s k tu then announce [''EVENT'', ''REPLY_CREATED''] (replied_fields tu th r) else [])"
  using assms
  by (simp_all only: emit_defs Let_def announced_texts)
    (simp_all add: broadcast_deliver sendToClient_deliver notifySubscribers_deliver writeBufferAt_deliver
      writeBufferAt_frames frame_simps told_def)

lemma ex_displays: "displays text evs \<Longrightarrow> \<exists>x. a @ text = a @ x \<and> displays x evs"
  by blast

text \<open>C14. A private message reaches its receiver: an accepted \<open>/send\<close> makes the client of every connection that is
  logged in as the receiver show the message with its author, and no other client show anything.\<close>

theorem send_reaches_receiver:
  assumes "send_refusal (srv_db s) (cl_userUuid (clientAt s fd)) (cl_args (clientAt s fd)) = None" and "k \<in> set (fds s)"
    and "sendable [quoted (cl_userUuid (clientAt s fd)), quoted (cl_args (clientAt s fd) ! 2)]"
  shows "\<exists>text. writeBufferAt (Send_execute e fd s) k = writeBufferAt s k @ text \<and> displays text
    (if cl_userUuid (clientAt s k) = cl_args (clientAt s fd) ! 1
     then [client_event_private_message_received (shown (cl_userUuid (clientAt s fd))) (shown (cl_args (clientAt s fd) ! 2))] else [])"
proof -
  define u where "u = cl_userUuid (clientAt s fd)"
  define b where "b = cl_args (clientAt s fd) ! 2"
  let ?p = "cl_userUuid (clientAt s k) = cl_args (clientAt s fd) ! 1"
  have "writeBufferAt (Send_execute e fd s) k = writeBufferAt s k @ (if ?p then privateMessage u b else []) @ (if k = fd then R200 else [])"
    using assms(1,2)
    by (simp add: Send_execute_outcome Let_def sendToUser_deliver sendToClient_deliver writeBufferAt_deliver writeBufferAt_frames frame_simps u_def b_def)
  moreover have "displays ((if ?p then privateMessage u b else []) @ (if k = fd then R200 else []))
      ((if ?p then [client_event_private_message_received (shown u) (shown b)] else []) @ (if k = fd then [] else []))"
    unfolding announced_texts
    by (intro displays_append displays_if message_event.displayed ok_displays assms(3) [folded u_def b_def] TrueI)
  ultimately show ?thesis unfolding u_def [symmetric] b_def [symmetric] by auto
qed

theorem send_reaches_receiver_witness:
  "let s = demo emptyCtx [''/send'', ''u2'', ''hi there''] in
   \<exists>text. writeBufferAt (Send_execute demo_env 4 s) 5 = writeBufferAt s 5 @ text \<and>
     displays text [client_event_private_message_received ''u1'' ''hi there'']"
proof -
  let ?s = "demo emptyCtx [''/send'', ''u2'', ''hi there'']"
  have a: "send_refusal (srv_db ?s) (cl_userUuid (clientAt ?s 4)) (cl_args (clientAt ?s 4)) = None" "5 \<in> set (fds ?s)"
    "sendable [quoted (cl_userUuid (clientAt ?s 4)), quoted (cl_args (clientAt ?s 4) ! 2)]" by code_simp+
  have v: "cl_userUuid (clientAt ?s 5) = cl_args (clientAt ?s 4) ! 1" "shown (cl_userUuid (clientAt ?s 4)) = ''u1''"
    "shown (cl_args (clientAt ?s 4) ! 2) = ''hi there''" by code_simp+
  from send_reaches_receiver [OF a, of demo_env] show ?thesis unfolding Let_def v by simp
qed

section \<open>Logging in\<close>

lemma login_effect:
  assumes "fd \<in> set (fds s)" and "k \<in> set (fds s)" and "cl_userUuid (clientAt s fd) = []"
    and "length (cl_args (clientAt s fd)) \<ge> 2" and "cl_args (clientAt s fd) ! 1 = name" and "name \<noteq> []" and "length name \<le> 32"
  shows "writeBufferAt (Login_execute e fd s) k = writeBufferAt s k @
    (if k = fd then render [Bare ''200'', Bare ''OK'', Quoted (cl_userUuid (clientAt (Login_execute e fd s) fd)), Quoted name] @ CRLF else []) @
    announce [''EVENT'', ''USER_LOGGED_IN''] [quoted (cl_userUuid (clientAt (Login_execute e fd s) fd)), quoted name]"
proof -
  have w: "writeBufferAt (setUserUuid fd u t) k = writeBufferAt t k" for u t
    unfolding setUserUuid_def by (rule writeBufferAt_modify) simp
  have f: "fds (setUserUuid fd u t) = fds t" for u t by (simp add: setUserUuid_def frame_simps)
  note texts = broadcast_deliver sendToClient_deliver frame_simps writeBufferAt_deliver writeBufferAt_frames w f
    clientAt_fields_setUserUuid announce_def rendered
  show ?thesis
  proof (cases "findUserByName (srv_db s) name")
    case None
    then have "Login_execute e fd s = createNewUser e fd name s"
      using assms(3-7) by (simp add: Login_execute_def Let_def MAX_NAME_LENGTH_def)
    then show ?thesis using assms(1,2)
      by (simp add: createNewUser_def Let_def newUser_def incrementConnection_def texts)
  next
    case (Some u)
    then have "usr_name u = name" by (simp add: findUserByName_def find_Some_iff) blast
    moreover have "Login_execute e fd s = logUserIn fd name s"
      using Some assms(3-7) by (simp add: Login_execute_def Let_def MAX_NAME_LENGTH_def)
    ultimately show ?thesis using assms(1,2) Some by (simp add: logUserIn_def Let_def texts)
  qed
qed

text \<open>C15. Both ends agree on who is logged in: after an accepted \<open>/login\<close>, with a new name or a known one, the
  client of the connection holds the identifier the server has put into the session, and the name, and every
  client, also this one, shows that the user logged in.\<close>

theorem login_reaches_clients:
  assumes "fd \<in> set (fds s)" and "k \<in> set (fds s)" and "cl_userUuid (clientAt s fd) = []"
    and "length (cl_args (clientAt s fd)) \<ge> 2" and "cl_args (clientAt s fd) ! 1 = name" and "name \<noteq> []" and "length name \<le> 32"
    and "cl_userUuid (clientAt (Login_execute e fd s) fd) = u"
    and "sendable [Quoted u, Quoted name]" and "sendable [quoted u, quoted name]"
    and "\<not> rt_shouldDisconnect r" and "rt_pendingCommand r \<noteq> ''/logout''"
  shows "\<exists>text. writeBufferAt (Login_execute e fd s) k = writeBufferAt s k @ text \<and>
    route_lines (fst (split_lf text)) r = Inr (False,
      (if k = fd then r\<lparr>rt_user := \<lparr>cu_uuid = u, cu_name = name, cu_loggedIn = True\<rparr>\<rparr> else r)
        \<lparr>rt_log := rt_log r @ [client_event_logged_in (shown u) (shown name)]\<rparr>)"
proof -
  let ?ok = "[Bare ''200'', Bare ''OK'', Quoted u, Quoted name]"
  let ?ev = "announce [''EVENT'', ''USER_LOGGED_IN''] [quoted u, quoted name]"
  define r1 where "r1 = r\<lparr>rt_user := \<lparr>cu_uuid = u, cu_name = name, cu_loggedIn = True\<rparr>\<rparr>"
  have ev: "route_lines (fst (split_lf ?ev)) q = Inr (False, q\<lparr>rt_log := rt_log q @ [client_event_logged_in (shown u) (shown name)]\<rparr>)"
    if "\<not> rt_shouldDisconnect q" "rt_pendingCommand q \<noteq> ''/logout''" for q
    using login_event.displayed [OF TrueI assms(10)] that by (simp add: displays_def)
  have ok: "list_all field_ok ?ok" using assms(9) by (simp add: sendable_def plain_word_def isspace_def)
  have "line_fits (announce [''200'', ''OK''] [Quoted u, Quoted name])"
    by (rule sendable_fits [OF assms(9)]) (simp_all add: render_def)
  then have fit: "int (length (render ?ok)) < MAX_SERVER_FRAME_SIZE" by (simp add: line_fits_def announce_def)
  have "routeTokens (map field_token ?ok) r = r1"
    by (simp add: announcement_simps handle200_def handle200Ok_def User_login_def r1_def)
  with route_line [OF ok _ fit, of r ?ev] assms(11)
  have "route_lines (fst (split_lf (render ?ok @ CRLF @ ?ev))) r = route_lines (fst (split_lf ?ev)) r1" by (simp add: r1_def)
  with ev [of r] ev [of r1] assms(11,12) login_effect [OF assms(1-7), of e, unfolded assms(8)] show ?thesis
    by (intro exI [of _ "(if k = fd then render ?ok @ CRLF else []) @ ?ev"]) (simp add: r1_def)
qed

theorem login_reaches_clients_witness:
  "let s = demo emptyCtx []; t = Login_execute demo_env 6 (setArgs 6 [''/login'', ''bob''] s) in
   \<exists>text. writeBufferAt t 6 = writeBufferAt s 6 @ text \<and> cl_userUuid (clientAt t 6) = ''u2'' \<and>
     route_lines (fst (split_lf text)) newRouter = Inr (False, newRouter\<lparr>rt_user := \<lparr>cu_uuid = ''u2'', cu_name = ''bob'', cu_loggedIn = True\<rparr>,
       rt_log := [client_event_logged_in ''u2'' ''bob'']\<rparr>)"
proof -
  let ?s = "setArgs 6 [''/login'', ''bob''] (demo emptyCtx [])"
  have a: "6 \<in> set (fds ?s)" "6 \<in> set (fds ?s)" "cl_userUuid (clientAt ?s 6) = []" "length (cl_args (clientAt ?s 6)) \<ge> 2"
    "cl_args (clientAt ?s 6) ! 1 = ''bob''" "''bob'' \<noteq> []" "length ''bob'' \<le> 32"
    "cl_userUuid (clientAt (Login_execute demo_env 6 ?s) 6) = ''u2''" "sendable [Quoted ''u2'', Quoted ''bob'']"
    "sendable [quoted ''u2'', quoted ''bob'']" "\<not> rt_shouldDisconnect newRouter" "rt_pendingCommand newRouter \<noteq> ''/logout''" by code_simp+
  have w: "writeBufferAt ?s 6 = writeBufferAt (demo emptyCtx []) 6" by code_simp
  have v: "shown ''u2'' = ''u2''" "shown ''bob'' = ''bob''" by code_simp+
  have n: "rt_log newRouter = []" by (simp add: newRouter_def)
  from login_reaches_clients [OF a] a(8) show ?thesis unfolding Let_def v w n by simp
qed

section \<open>Membership\<close>

interpretation subscribed_reply: announcement "[''200'', ''SUBSCRIBE'']" "\<lambda>_. True" "\<lambda>t. [quoted u, quoted t]"
  "\<lambda>t. client_print_subscribed (shown u) (shown t)" for u
  by unfold_locales (simp_all add: announcement_simps handle200_def handle200Subscribe_def plain_word_def isspace_def render_def)

text \<open>The line the members of the team are sent has no handler in the client.\<close>

lemma unheard_displays:
  assumes "sendable fs"
  shows "displays (announce [''user_subscribed''] fs) []"
proof -
  have "line_fits (announce [''user_subscribed''] fs)" if "fs \<noteq> []"
    using assms that by (intro sendable_fits) (simp_all add: render_def)
  moreover have "line_fits (announce [''user_subscribed''] [])"
    by (simp add: line_fits_def announce_def render_def MAX_SERVER_FRAME_SIZE_def CRLF_def)
  ultimately have "arrives (map Bare [''user_subscribed''] @ fs) (announce [''user_subscribed''] fs)"
    using assms by (cases "fs = []") (simp_all add: arrives_def sendable_def plain_word_def isspace_def)
  then show ?thesis
    unfolding announce_def by (intro displays_line) (simp_all add: announcement_simps)
qed

text \<open>C16. Joining a team: an accepted \<open>/subscribe\<close> appends the user to the members; the connection is sent
  \<open>200 SUBSCRIBE\<close> with the user and the team, which its client prints; and every connection logged in as a member, old or
  new, is first sent a line \<open>user_subscribed\<close>, which no client understands, so no other client displays anything.\<close>

theorem subscribe_reaches_clients:
  assumes "cl_userUuid (clientAt s fd) = u" and "u \<noteq> []" and "length (cl_args (clientAt s fd)) \<ge> 2" and "cl_args (clientAt s fd) ! 1 = tu"
    and "tu \<noteq> []" and "findTeam (srv_db s) tu = Some team" and "\<not> isUserSubscribed team u" and "k \<in> set (fds s)"
    and "sendable [quoted u, quoted tu]" and "sendable [Quoted tu, Quoted u]"
    and "Subscribe_execute e fd s = s'"
    and "text = (if cl_userUuid (clientAt s k) \<in> set (u # team_subscriberUuids team) - {[]}
        then ''user_subscribed '' @ dq tu @ '' '' @ dq u @ CRLF else []) @
      (if k = fd then ''200 SUBSCRIBE '' @ quoteProtocolField u @ '' '' @ quoteProtocolField tu @ CRLF else [])"
  shows "(\<exists>x. findTeam (srv_db s') tu = Some x \<and> team_subscriberUuids x = team_subscriberUuids team @ [u]) \<and>
    writeBufferAt s' k = writeBufferAt s k @ text \<and>
    displays text (if k = fd then [client_print_subscribed (shown u) (shown tu)] else [])"
proof -
  let ?joined = "snd (addSubscriber u team)"
  let ?s1 = "modifyDb (modifyTeam tu (\<lambda>x. snd (addSubscriber u x))) s"
  let ?heard = "announce [''user_subscribed''] [Quoted tu, Quoted u]" and ?ok = "announce [''200'', ''SUBSCRIBE''] [quoted u, quoted tu]"
  have add: "fst (addSubscriber u team)" "team_subscriberUuids ?joined = team_subscriberUuids team @ [u]"
    using assms(2,7) by (simp_all add: addSubscriber_def isUserSubscribed_def)
  have f: "findTeam (modifyTeam tu (\<lambda>x. snd (addSubscriber u x)) (srv_db s)) tu = Some ?joined"
    using teams.lookup_modify_same [of "\<lambda>x. snd (addSubscriber u x)" tu "srv_db s"] assms(6) by (simp add: addSubscriber_def)
  have texts: "''user_subscribed '' @ DQ # tu @ DQ # SP # DQ # u @ DQ # CRLF = ?heard" "subscribeOk u tu = ?ok"
    by (simp_all add: announce_def subscribeOk_def rendered)
  have t: "s' = sendToClient ?ok fd (notifySubscribers tu ?heard
      (logEvent (server_event_user_subscribed (c_str tu) (c_str u)) ?s1))"
    using assms(1-7,11) add(1) by (simp add: Subscribe_execute_def Let_def texts [symmetric])
  have told: "told ?s1 k tu \<longleftrightarrow> cl_userUuid (clientAt s k) \<in> set (u # team_subscriberUuids team) - {[]}"
    using assms(5) add(2) by (auto simp: told_def frame_simps f isUserSubscribed_def)
  have said: "text = (if told ?s1 k tu then ?heard else []) @ (if k = fd then ?ok else [])"
    unfolding assms(12) told by (simp add: announce_def rendered dq_def)
  have "writeBufferAt s' k = writeBufferAt s k @ text"
    using assms(8) unfolding t said
    by (simp add: notifySubscribers_deliver sendToClient_deliver writeBufferAt_deliver writeBufferAt_frames frame_simps told_def)
  moreover have "displays text ((if told ?s1 k tu then [] else []) @ (if k = fd then [client_print_subscribed (shown u) (shown tu)] else []))"
    unfolding said by (intro displays_append displays_if unheard_displays subscribed_reply.displayed assms TrueI)
  moreover have "findTeam (srv_db s') tu = Some ?joined" unfolding t by (simp add: frame_simps f)
  ultimately show ?thesis using add(2) by auto
qed

theorem subscribe_reaches_clients_witness:
  "let s = setArgs 5 [''/subscribe'', ''t1''] (demo emptyCtx []); s' = Subscribe_execute demo_env 5 s in
   (\<exists>x. findTeam (srv_db s') ''t1'' = Some x \<and> team_subscriberUuids x = [''u1'', ''u2'']) \<and>
   writeBufferAt s' 5 = writeBufferAt s 5 @ ''user_subscribed '' @ dq ''t1'' @ '' '' @ dq ''u2'' @ CRLF @
     ''200 SUBSCRIBE '' @ dq ''u2'' @ '' '' @ dq ''t1'' @ CRLF"
proof -
  let ?s = "setArgs 5 [''/subscribe'', ''t1''] (demo emptyCtx [])"
  have a: "cl_userUuid (clientAt ?s 5) = ''u2''" "''u2'' \<noteq> []" "length (cl_args (clientAt ?s 5)) \<ge> 2" "cl_args (clientAt ?s 5) ! 1 = ''t1''"
    "''t1'' \<noteq> []" "findTeam (srv_db ?s) ''t1'' = Some demo_team" "\<not> isUserSubscribed demo_team ''u2''" "5 \<in> set (fds ?s)"
    "sendable [quoted ''u2'', quoted ''t1'']" "sendable [Quoted ''t1'', Quoted ''u2'']" by code_simp+
  have m: "team_subscriberUuids demo_team = [''u1'']" by code_simp
  have q: "quoteProtocolField ''u2'' = dq ''u2''" "quoteProtocolField ''t1'' = dq ''t1''" by code_simp+
  from subscribe_reaches_clients [OF a refl refl, of demo_env] show ?thesis unfolding Let_def m a(1) q by simp
qed

end
