(* ===== verification/Creations.thy ===== *)
theory Creations
  imports Announcements Chat_View "HOL-Library.Multiset"
begin

text \<open>
  \<open>/create\<close> end to end: what an accepted command stores, and that this, and nothing else, is what
  the clients are shown: the object in the database and the object of the announcement are the same.
\<close>

section \<open>What is stored and what is announced\<close>

definition created_team :: "env \<Rightarrow> uuid \<Rightarrow> string list \<Rightarrow> team" where
  "created_team e u args = \<lparr>team_uuid = env_uuid e, team_name = args ! 1, team_description = args ! 2,
     team_subscriberUuids = [u], team_channels = []\<rparr>"

definition created_channel :: "env \<Rightarrow> string list \<Rightarrow> channel" where
  "created_channel e args = \<lparr>chn_uuid = env_uuid e, chn_name = args ! 1, chn_description = args ! 2, chn_threads = []\<rparr>"

definition created_thread :: "env \<Rightarrow> uuid \<Rightarrow> string list \<Rightarrow> thread" where
  "created_thread e u args = \<lparr>thr_uuid = env_uuid e, thr_userUuid = u, thr_timestamp = env_time e,
     thr_title = args ! 1, thr_body = args ! 2, thr_replies = []\<rparr>"

definition created_reply :: "env \<Rightarrow> uuid \<Rightarrow> string list \<Rightarrow> reply" where
  "created_reply e u args = \<lparr>rep_uuid = env_uuid e, rep_userUuid = u, rep_timestamp = env_time e, rep_body = args ! 1\<rparr>"

lemmas created_defs = created_team_def created_channel_def created_thread_def created_reply_def

lemma team_stored:
  assumes "srv_db (Create_executeTeam e fd s) \<noteq> srv_db s" and "cl_userUuid (clientAt s fd) = u" and "u \<noteq> []"
  shows "length (cl_args (clientAt s fd)) \<ge> 3 \<and> Create_executeTeam e fd s =
    (let t = created_team e u (cl_args (clientAt s fd)) in emitTeamCreated fd t (modifyDb (pushTeam t) s))"
  using assms by (auto simp: Create_executeTeam_def Let_def frame_simps created_team_def addSubscriber_def
      isUserSubscribed_def newTeam_def split: if_splits)

lemma channel_stored:
  assumes "srv_db (Create_executeChannel e fd s) \<noteq> srv_db s" and "ctx_teamUuid (cl_context (clientAt s fd)) = tu"
  shows "length (cl_args (clientAt s fd)) \<ge> 3 \<and> (\<exists>team. findTeam (srv_db s) tu = Some team) \<and> Create_executeChannel e fd s =
    (let c = created_channel e (cl_args (clientAt s fd)) in
     emitChannelCreated fd tu c (modifyDb (modifyTeam tu (\<lambda>t. t\<lparr>team_channels := team_channels t @ [c]\<rparr>)) s))"
  using assms by (auto simp: Create_executeChannel_def Let_def frame_simps created_channel_def newChannel_def
      findAccessibleTeam_def split: if_splits option.splits)

lemma thread_stored:
  assumes "srv_db (Create_executeThread e fd s) \<noteq> srv_db s" and "ctx_teamUuid (cl_context (clientAt s fd)) = tu"
    and "ctx_channelUuid (cl_context (clientAt s fd)) = cu" and "cl_userUuid (clientAt s fd) = u"
  shows "length (cl_args (clientAt s fd)) \<ge> 3 \<and> (\<exists>y. findChannel (srv_db s) tu cu = Some y) \<and> Create_executeThread e fd s =
    (let h = created_thread e u (cl_args (clientAt s fd)) in
     emitThreadCreated fd tu cu h (modifyDb (modifyChannel tu cu (\<lambda>y. y\<lparr>chn_threads := chn_threads y @ [h]\<rparr>)) s))"
  using assms by (auto simp: Create_executeThread_def Let_def frame_simps created_thread_def newThread_def
      findAccessibleTeam_def findChannelOrSend404_def split: if_splits option.splits)

lemma reply_stored:
  assumes "srv_db (Create_executeReply e fd s) \<noteq> srv_db s" and "ctx_teamUuid (cl_context (clientAt s fd)) = tu"
    and "ctx_channelUuid (cl_context (clientAt s fd)) = cu" and "ctx_threadUuid (cl_context (clientAt s fd)) = hu"
    and "cl_userUuid (clientAt s fd) = u"
  shows "length (cl_args (clientAt s fd)) \<ge> 2 \<and> (\<exists>z. findThread (srv_db s) cu hu = Some z) \<and> Create_executeReply e fd s =
    (let r = created_reply e u (cl_args (clientAt s fd)) in
     emitReplyCreated fd tu hu r (modifyDb (modifyThread cu hu (\<lambda>y. y\<lparr>thr_replies := thr_replies y @ [r]\<rparr>)) s))"
  using assms by (auto simp: Create_executeReply_def Let_def frame_simps created_reply_def newReply_def
      findAccessibleTeam_def findChannelOrSend404_def findThreadOrSend404_def split: if_splits option.splits)

section \<open>Who is told\<close>

lemma find_update_keeps:
  assumes "\<And>x. P (f x) = P x" and "\<And>x. g (f x) = g x"
  shows "map_option g (find P (update_first Q f xs)) = map_option g (find P xs)"
  using assms by (induction xs) auto

lemma members_keep:
  "map_option team_subscriberUuids (findTeam (modifyTeam k (\<lambda>t. t\<lparr>team_channels := team_channels t @ [c]\<rparr>) db) tu) =
     map_option team_subscriberUuids (findTeam db tu)"
  "map_option team_subscriberUuids (findTeam (modifyChannel k j f db) tu) = map_option team_subscriberUuids (findTeam db tu)"
  "map_option team_subscriberUuids (findTeam (modifyThread i h g db) tu) = map_option team_subscriberUuids (findTeam db tu)"
  by (simp_all add: findTeam_def modifyTeam_def modifyChannel_def modifyThread_def modifyThread_team_def find_update_keeps)

lemma told_modify:
  assumes "map_option team_subscriberUuids (findTeam (f (srv_db s)) tu) = map_option team_subscriberUuids (findTeam (srv_db s) tu)"
  shows "told (modifyDb f s) k tu = told s k tu"
  using assms by (cases "findTeam (f (srv_db s)) tu"; cases "findTeam (srv_db s) tu")
    (simp_all add: told_def frame_simps isUserSubscribed_def)

section \<open>Which texts arrive\<close>

lemma length_render: "fs \<noteq> [] \<Longrightarrow> length (render fs) + 1 = sum_mset (image_mset (\<lambda>f. length (render_field f) + 1) (mset fs))"
proof -
  have "ws \<noteq> [] \<Longrightarrow> length (join_sp ws) + 1 = sum_list (map (\<lambda>w. length w + 1) ws)" for ws
    by (induction ws rule: join_sp.induct) simp_all
  then show "fs \<noteq> [] \<Longrightarrow> length (render fs) + 1 = sum_mset (image_mset (\<lambda>f. length (render_field f) + 1) (mset fs))"
    by (simp add: render_def o_def flip: sum_mset_sum_list mset_map)
qed

lemma sendable_part:
  assumes "sendable fs" and "mset fs = mset gs + M" and "gs \<noteq> []"
  shows "sendable gs"
proof -
  have "fs \<noteq> []" using assms(2,3) by auto
  from length_render [OF this] length_render [OF assms(3)] have "length (render gs) \<le> length (render fs)"
    by (simp add: assms(2))
  moreover have "set gs \<subseteq> set fs" using arg_cong [OF assms(2), of set_mset] by auto
  ultimately show ?thesis using assms(1) by (auto simp: sendable_def list_all_iff)
qed

text \<open>All a creation can announce, as one line.\<close>

definition creation_fields :: "env \<Rightarrow> fd \<Rightarrow> server \<Rightarrow> field list" where
  "creation_fields e fd s = (let x = cl_context (clientAt s fd) in
     map quoted (tl (cl_args (clientAt s fd))) @ [quoted (ctx_teamUuid x), quoted (ctx_threadUuid x),
       quoted (cl_userUuid (clientAt s fd)), quoted (env_uuid e), Bare (to_string (env_time e))])"


lemma creation_sendable:
  assumes "sendable (creation_fields e fd s)" and "cl_args (clientAt s fd) = args" and "cl_userUuid (clientAt s fd) = u"
    and "cl_context (clientAt s fd) = demo_ctx tu cu hu"
  shows "length args \<ge> 3 \<Longrightarrow> sendable (team_fields (created_team e u args))"
    and "length args \<ge> 3 \<Longrightarrow> sendable (channel_fields (created_channel e args))"
    and "length args \<ge> 3 \<Longrightarrow> sendable (thread_fields (created_thread e u args))"
    and "length args \<ge> 2 \<Longrightarrow> sendable (reply_fields hu (created_reply e u args))"
    and "length args \<ge> 2 \<Longrightarrow> sendable (replied_fields tu hu (created_reply e u args))"
proof -
  let ?now = "Bare (to_string (env_time e))"
  have f: "mset (creation_fields e fd s) = mset (map quoted (tl args)) + {#quoted tu, quoted hu, quoted u, quoted (env_uuid e), ?now#}"
    using assms(2-4) by (simp add: creation_fields_def Let_def demo_ctx_def)
  note part = sendable_part [OF assms(1)]
  {
    assume "length args \<ge> 3"
    then obtain a b c as where a: "args = a # b # c # as" by (metis Suc_le_length_iff numeral_3_eq_3)
    show "sendable (team_fields (created_team e u args))"
      by (rule part [where M = "mset (map quoted as) + {#quoted tu, quoted hu, quoted u, ?now#}"])
        (simp_all add: f a field_defs created_defs add_mset_commute)
    show "sendable (channel_fields (created_channel e args))"
      by (rule part [where M = "mset (map quoted as) + {#quoted tu, quoted hu, quoted u, ?now#}"])
        (simp_all add: f a field_defs created_defs add_mset_commute)
    show "sendable (thread_fields (created_thread e u args))"
      by (rule part [where M = "mset (map quoted as) + {#quoted tu, quoted hu#}"])
        (simp_all add: f a field_defs created_defs add_mset_commute)
  }
  {
    assume "length args \<ge> 2"
    then obtain a b as where a: "args = a # b # as" by (metis Suc_le_length_iff numeral_2_eq_2)
    show "sendable (reply_fields hu (created_reply e u args))"
      by (rule part [where M = "mset (map quoted as) + {#quoted tu, quoted (env_uuid e)#}"])
        (simp_all add: f a field_defs created_defs add_mset_commute)
    show "sendable (replied_fields tu hu (created_reply e u args))"
      by (rule part [where M = "mset (map quoted as) + {#quoted (env_uuid e), ?now#}"])
        (simp_all add: f a field_defs created_defs add_mset_commute)
  }
qed

section \<open>From the command to the clients\<close>

text \<open>The lines appended to the output of a connection make its client display the events.\<close>

definition hears :: "fd \<Rightarrow> server \<Rightarrow> server \<Rightarrow> client_event list \<Rightarrow> bool" where
  "hears k s s' evs \<longleftrightarrow> (\<exists>text. writeBufferAt s' k = writeBufferAt s k @ text \<and> displays text evs)"

lemma emits_heard:
  assumes "k \<in> set (fds s)"
  shows "sendable (team_fields t) \<Longrightarrow> hears k s (emitTeamCreated fd t s)
      ((if k = fd then [client_print_team_created (shown (team_uuid t)) (shown (team_name t)) (shown (team_description t))] else []) @
       [client_event_team_created (shown (team_uuid t)) (shown (team_name t)) (shown (team_description t))])"
    and "sendable (channel_fields c) \<Longrightarrow> hears k s (emitChannelCreated fd tu c s)
      ((if k = fd then [client_print_channel_created (shown (chn_uuid c)) (shown (chn_name c)) (shown (chn_description c))] else []) @
       (if told s k tu then [client_event_channel_created (shown (chn_uuid c)) (shown (chn_name c)) (shown (chn_description c))] else []))"
    and "sendable (thread_fields h) \<Longrightarrow> time_ok (thr_timestamp h) \<Longrightarrow> hears k s (emitThreadCreated fd tu cu h s)
      ((if k = fd then [client_print_thread_created (shown (thr_uuid h)) (shown (thr_userUuid h)) (thr_timestamp h) (shown (thr_title h)) (shown (thr_body h))] else []) @
       (if told s k tu then [client_event_thread_created (shown (thr_uuid h)) (shown (thr_userUuid h)) (thr_timestamp h) (shown (thr_title h)) (shown (thr_body h))] else []))"
    and "sendable (reply_fields th r) \<Longrightarrow> sendable (replied_fields tu th r) \<Longrightarrow> time_ok (rep_timestamp r) \<Longrightarrow> hears k s (emitReplyCreated fd tu th r s)
      ((if k = fd then [client_print_reply_created (shown th) (shown (rep_userUuid r)) (rep_timestamp r) (shown (rep_body r))] else []) @
       (if told s k tu then [client_event_thread_reply_received (shown tu) (shown th) (shown (rep_userUuid r)) (shown (rep_body r))] else []))"
  unfolding hears_def emitted [OF assms] announced_texts
  by (intro ex_displays displays_append displays_if team_created.displayed team_event.displayed channel_created.displayed
      channel_event.displayed thread_created.displayed thread_event.displayed reply_created.displayed reply_event.displayed
      TrueI; assumption)+

lemma hears_modifyDb: "hears k (modifyDb f s) s' evs = hears k s s' evs"
  by (simp add: hears_def writeBufferAt_frames)

text \<open>C13. What \<open>/create\<close> stores is what it announces. Whenever the command changes the database, it adds one object,
  with the new identifier, the author, the time and the texts of the arguments, at the place the context of the connection
  names; and the client of the author prints that object, and every client (for a team) or exactly the clients of the
  members of the team (for a channel, a thread, a reply) learn of it, with its stored identifier, names, time and texts; other
  clients display nothing. A reply is announced under its thread, not under its own identifier.\<close>

theorem creations_reach_clients:
  assumes "Create_execute e fd s = s'" and "srv_db s' \<noteq> srv_db s" and "k \<in> set (fds s)"
    and "cl_userUuid (clientAt s fd) = u" and "cl_args (clientAt s fd) = args"
    and "cl_context (clientAt s fd) = \<lparr>ctx_teamUuid = tu, ctx_channelUuid = cu, ctx_threadUuid = hu\<rparr>"
    and "sendable (creation_fields e fd s)" and "time_ok (env_time e)"
  shows "if tu = [] then
      \<exists>t. db_teams (srv_db s') = db_teams (srv_db s) @ [t] \<and> t = created_team e u args \<and> hears k s s'
        ((if k = fd then [client_print_team_created (shown (team_uuid t)) (shown (team_name t)) (shown (team_description t))] else []) @
         [client_event_team_created (shown (team_uuid t)) (shown (team_name t)) (shown (team_description t))])
    else if cu = [] then
      \<exists>x c. findTeam (srv_db s) tu = Some x \<and> findTeam (srv_db s') tu = Some (x\<lparr>team_channels := team_channels x @ [c]\<rparr>) \<and>
        c = created_channel e args \<and> hears k s s'
        ((if k = fd then [client_print_channel_created (shown (chn_uuid c)) (shown (chn_name c)) (shown (chn_description c))] else []) @
         (if told s k tu then [client_event_channel_created (shown (chn_uuid c)) (shown (chn_name c)) (shown (chn_description c))] else []))
    else if hu = [] then
      \<exists>y h. findChannel (srv_db s) tu cu = Some y \<and> findChannel (srv_db s') tu cu = Some (y\<lparr>chn_threads := chn_threads y @ [h]\<rparr>) \<and>
        h = created_thread e u args \<and> hears k s s'
        ((if k = fd then [client_print_thread_created (shown (thr_uuid h)) (shown (thr_userUuid h)) (thr_timestamp h) (shown (thr_title h)) (shown (thr_body h))] else []) @
         (if told s k tu then [client_event_thread_created (shown (thr_uuid h)) (shown (thr_userUuid h)) (thr_timestamp h) (shown (thr_title h)) (shown (thr_body h))] else []))
    else
      \<exists>z r. findThread (srv_db s) cu hu = Some z \<and> findThread (srv_db s') cu hu = Some (z\<lparr>thr_replies := thr_replies z @ [r]\<rparr>) \<and>
        r = created_reply e u args \<and> hears k s s'
        ((if k = fd then [client_print_reply_created (shown hu) (shown (rep_userUuid r)) (rep_timestamp r) (shown (rep_body r))] else []) @
         (if told s k tu then [client_event_thread_reply_received (shown tu) (shown hu) (shown (rep_userUuid r)) (shown (rep_body r))] else []))"
proof -
  note send = creation_sendable [OF assms(7,5,4), unfolded demo_ctx_def, OF assms(6)]
  have x: "ctx_teamUuid (cl_context (clientAt s fd)) = tu" "ctx_channelUuid (cl_context (clientAt s fd)) = cu"
    "ctx_threadUuid (cl_context (clientAt s fd)) = hu" by (simp_all add: assms(6))
  have u: "u \<noteq> []" using assms(1,2,4) by (auto simp: Create_execute_def Let_def frame_simps)
  have k: "k \<in> set (fds (modifyDb f s))" for f using assms(3) by (simp add: frame_simps)
  have s': "s' = (if tu = [] then Create_executeTeam e fd s else if cu = [] then Create_executeChannel e fd s
      else if hu = [] then Create_executeThread e fd s else Create_executeReply e fd s)"
    using assms(1) u unfolding Create_execute_def Let_def x assms(4) by simp
  consider (team) "tu = []" | (channel) "tu \<noteq> []" "cu = []" | (thread) "tu \<noteq> []" "cu \<noteq> []" "hu = []" | (reply) "tu \<noteq> []" "cu \<noteq> []" "hu \<noteq> []"
    by blast
  then show ?thesis
  proof cases
    case team
    then have "srv_db (Create_executeTeam e fd s) \<noteq> srv_db s" using assms(2) by (simp add: s')
    from team_stored [OF this assms(4) u] send(1) emits_heard(1) [OF k] team show ?thesis
      by (simp add: s' assms(5) Let_def frame_simps pushTeam_def hears_modifyDb)
  next
    case channel
    then have "srv_db (Create_executeChannel e fd s) \<noteq> srv_db s" using assms(2) by (simp add: s')
    note stored = channel_stored [OF this x(1), unfolded assms(5)]
    let ?c = "created_channel e args" let ?f = "modifyTeam tu (\<lambda>t. t\<lparr>team_channels := team_channels t @ [?c]\<rparr>)"
    have "told (modifyDb ?f s) k tu = told s k tu" by (intro told_modify members_keep)
    with emits_heard(2) [OF k [of ?f], of ?c fd tu] stored send(2) channel show ?thesis
      by (simp add: s' Let_def frame_simps hears_modifyDb teams.lookup_modify_same del: split_paired_Ex) blast
  next
    case thread
    then have "srv_db (Create_executeThread e fd s) \<noteq> srv_db s" using assms(2) by (simp add: s')
    note stored = thread_stored [OF this x(1,2) assms(4), unfolded assms(5)]
    let ?h = "created_thread e u args" let ?f = "modifyChannel tu cu (\<lambda>y. y\<lparr>chn_threads := chn_threads y @ [?h]\<rparr>)"
    have "told (modifyDb ?f s) k tu = told s k tu" by (intro told_modify members_keep)
    moreover have "time_ok (thr_timestamp ?h)" using assms(8) by (simp add: created_thread_def)
    ultimately show ?thesis using emits_heard(3) [OF k [of ?f], of ?h fd tu cu] stored send(3) thread
      by (simp add: s' Let_def frame_simps hears_modifyDb findChannel_modifyChannel) blast
  next
    case reply
    then have "srv_db (Create_executeReply e fd s) \<noteq> srv_db s" using assms(2) by (simp add: s')
    note stored = reply_stored [OF this x assms(4), unfolded assms(5)]
    let ?r = "created_reply e u args" let ?f = "modifyThread cu hu (\<lambda>y. y\<lparr>thr_replies := thr_replies y @ [?r]\<rparr>)"
    have "told (modifyDb ?f s) k tu = told s k tu" by (intro told_modify members_keep)
    moreover have "time_ok (rep_timestamp ?r)" using assms(8) by (simp add: created_reply_def)
    ultimately show ?thesis using emits_heard(4) [OF k [of ?f], of hu ?r tu fd] stored send(4,5) reply
      by (simp add: s' Let_def frame_simps hears_modifyDb findThread_modifyThread) blast
  qed
qed

text \<open>Alice replies in the thread: her client prints the stored reply and shows the event.\<close>

theorem creations_reach_clients_witness:
  "let s = demo (demo_ctx ''t1'' ''c1'' ''h1'') [''/create'', ''hi there''] in
   \<exists>z r. findThread (srv_db (Create_execute (demo_env\<lparr>env_time := 42\<rparr>) 4 s)) ''c1'' ''h1'' = Some (z\<lparr>thr_replies := thr_replies z @ [r]\<rparr>) \<and>
     r = \<lparr>rep_uuid = ''n1'', rep_userUuid = ''u1'', rep_timestamp = 42, rep_body = ''hi there''\<rparr> \<and>
     hears 4 s (Create_execute (demo_env\<lparr>env_time := 42\<rparr>) 4 s) [client_print_reply_created ''h1'' ''u1'' 42 ''hi there'',
       client_event_thread_reply_received ''t1'' ''h1'' ''u1'' ''hi there'']"
proof -
  define s where "s = demo (demo_ctx ''t1'' ''c1'' ''h1'') [''/create'', ''hi there'']"
  have d: "srv_db (Create_execute (demo_env\<lparr>env_time := 42\<rparr>) 4 s) \<noteq> srv_db s" "4 \<in> set (fds s)" "cl_userUuid (clientAt s 4) = ''u1''"
    "cl_args (clientAt s 4) = [''/create'', ''hi there'']" "cl_context (clientAt s 4) = \<lparr>ctx_teamUuid = ''t1'', ctx_channelUuid = ''c1'', ctx_threadUuid = ''h1''\<rparr>"
    "sendable (creation_fields (demo_env\<lparr>env_time := 42\<rparr>) 4 s)" "time_ok (env_time (demo_env\<lparr>env_time := 42\<rparr>))"
    unfolding s_def by code_simp+
  have t: "told s 4 ''t1''" by (simp add: s_def told_def demo_defs clientAt_def getClient_def findTeam_def isUserSubscribed_def)
  have r: "created_reply (demo_env\<lparr>env_time := 42\<rparr>) ''u1'' [''/create'', ''hi there''] =
      \<lparr>rep_uuid = ''n1'', rep_userUuid = ''u1'', rep_timestamp = 42, rep_body = ''hi there''\<rparr>" by code_simp
  have v: "shown ''h1'' = ''h1''" "shown ''t1'' = ''t1''" "shown ''u1'' = ''u1''" "shown ''hi there'' = ''hi there''" by code_simp+
  let ?r = "created_reply (demo_env\<lparr>env_time := 42\<rparr>) ''u1'' [''/create'', ''hi there'']"
  have "\<exists>z. findThread (srv_db (Create_execute (demo_env\<lparr>env_time := 42\<rparr>) 4 s)) ''c1'' ''h1'' = Some (z\<lparr>thr_replies := thr_replies z @ [?r]\<rparr>) \<and>
      hears 4 s (Create_execute (demo_env\<lparr>env_time := 42\<rparr>) 4 s) [client_print_reply_created ''h1'' (shown (rep_userUuid ?r)) (rep_timestamp ?r) (shown (rep_body ?r)),
       client_event_thread_reply_received ''t1'' ''h1'' (shown (rep_userUuid ?r)) (shown (rep_body ?r))]"
    using creations_reach_clients [OF refl d] t by (auto simp: v(1,2))
  then show ?thesis unfolding s_def [symmetric] Let_def r by (simp add: v)
qed

section \<open>What \<open>/create\<close> answers\<close>

text \<open>A refusal is one line to the author and nothing else.\<close>

definition refuses :: "fd \<Rightarrow> server \<Rightarrow> server \<Rightarrow> bool" where
  "refuses fd s s' \<longleftrightarrow> (\<exists>r \<in> {R400, R401, R403, R409}. s' = sendToClient r fd s)"

lemma refusals: "refuses fd s (sendToClient R400 fd s)" "refuses fd s (sendToClient R401 fd s)"
  "refuses fd s (sendToClient R403 fd s)" "refuses fd s (sendToClient R409 fd s)"
  by (auto simp: refuses_def)

definition creates :: "fd \<Rightarrow> server \<Rightarrow> server \<Rightarrow> bool" where
  "creates fd s s' \<longleftrightarrow> srv_db s' \<noteq> srv_db s \<and> (\<exists>text. writeBufferAt s' fd = writeBufferAt s fd @ ''201 CREATED '' @ text)"

lemma emits_create:
  assumes "fd \<in> set (fds s)" and "f (srv_db s) \<noteq> srv_db s"
  shows "creates fd s (emitTeamCreated fd t (modifyDb f s))" "creates fd s (emitChannelCreated fd tu c (modifyDb f s))"
    "creates fd s (emitThreadCreated fd tu cu h (modifyDb f s))" "creates fd s (emitReplyCreated fd tu hu r (modifyDb f s))"
proof -
  have k: "fd \<in> set (fds (modifyDb f s))" using assms(1) by (simp add: frame_simps)
  show "creates fd s (emitTeamCreated fd t (modifyDb f s))" "creates fd s (emitChannelCreated fd tu c (modifyDb f s))"
    "creates fd s (emitThreadCreated fd tu cu h (modifyDb f s))" "creates fd s (emitReplyCreated fd tu hu r (modifyDb f s))"
    using assms(2) by (simp_all add: creates_def frame_simps emitted [OF k] writeBufferAt_frames teamLine_def announce_def render_def reply_fields_def)
qed

lemma writes_change:
  "pushTeam t db \<noteq> db"
  "findTeam db tu = Some x \<Longrightarrow> modifyTeam tu (\<lambda>t. t\<lparr>team_channels := team_channels t @ [c]\<rparr>) db \<noteq> db"
  "findChannel db tu cu = Some y \<Longrightarrow> modifyChannel tu cu (\<lambda>y. y\<lparr>chn_threads := chn_threads y @ [h]\<rparr>) db \<noteq> db"
  "findThread db cu hu = Some z \<Longrightarrow> modifyThread cu hu (\<lambda>z. z\<lparr>thr_replies := thr_replies z @ [r]\<rparr>) db \<noteq> db"
proof -
  show "pushTeam t db \<noteq> db" by (cases db) (simp add: pushTeam_def)
  assume "findTeam db tu = Some x"
  then have "findTeam (modifyTeam tu (\<lambda>t. t\<lparr>team_channels := team_channels t @ [c]\<rparr>) db) tu \<noteq> findTeam db tu"
    by (cases x) (simp add: teams.lookup_modify_same)
  then show "modifyTeam tu (\<lambda>t. t\<lparr>team_channels := team_channels t @ [c]\<rparr>) db \<noteq> db" by auto
next
  assume "findChannel db tu cu = Some y"
  then have "findChannel (modifyChannel tu cu (\<lambda>y. y\<lparr>chn_threads := chn_threads y @ [h]\<rparr>) db) tu cu \<noteq> findChannel db tu cu"
    by (cases y) (simp add: findChannel_modifyChannel)
  then show "modifyChannel tu cu (\<lambda>y. y\<lparr>chn_threads := chn_threads y @ [h]\<rparr>) db \<noteq> db" by auto
next
  assume "findThread db cu hu = Some z"
  then have "findThread (modifyThread cu hu (\<lambda>z. z\<lparr>thr_replies := thr_replies z @ [r]\<rparr>) db) cu hu \<noteq> findThread db cu hu"
    by (cases z) (simp add: findThread_modifyThread)
  then show "modifyThread cu hu (\<lambda>z. z\<lparr>thr_replies := thr_replies z @ [r]\<rparr>) db \<noteq> db" by auto
qed

text \<open>With a context that exists, the lookups of \<open>/create\<close> find what they look for.\<close>

lemma create_outcome:
  assumes "fd \<in> set (fds s)" and "cl_context (clientAt s fd) = x"
    and "ctx_teamUuid x \<noteq> [] \<Longrightarrow> findTeam (srv_db s) (ctx_teamUuid x) \<noteq> None"
    and "ctx_channelUuid x \<noteq> [] \<Longrightarrow> findChannel (srv_db s) (ctx_teamUuid x) (ctx_channelUuid x) \<noteq> None"
    and "ctx_threadUuid x \<noteq> [] \<Longrightarrow> findThread (srv_db s) (ctx_channelUuid x) (ctx_threadUuid x) \<noteq> None"
  shows "refuses fd s (Create_execute e fd s) \<or> creates fd s (Create_execute e fd s)"
proof -
  note outcome = refusals [simplified] emits_create [OF assms(1)] writes_change
  have "refuses fd s (Create_executeTeam e fd s) \<or> creates fd s (Create_executeTeam e fd s)"
    unfolding Create_executeTeam_def Let_def by (simp add: outcome)
  moreover have "refuses fd s (Create_executeChannel e fd s) \<or> creates fd s (Create_executeChannel e fd s)" if "ctx_teamUuid x \<noteq> []"
    using assms(3) that unfolding Create_executeChannel_def Let_def assms(2) findAccessibleTeam_def
    by (auto simp: outcome split: option.splits)
  moreover have "refuses fd s (Create_executeThread e fd s) \<or> creates fd s (Create_executeThread e fd s)"
    if "ctx_teamUuid x \<noteq> []" "ctx_channelUuid x \<noteq> []"
    using assms(3,4) that unfolding Create_executeThread_def Let_def assms(2) findAccessibleTeam_def findChannelOrSend404_def
    by (auto simp: outcome split: option.splits)
  moreover have "refuses fd s (Create_executeReply e fd s) \<or> creates fd s (Create_executeReply e fd s)"
    if "ctx_teamUuid x \<noteq> []" "ctx_channelUuid x \<noteq> []" "ctx_threadUuid x \<noteq> []"
    using assms(3-5) that unfolding Create_executeReply_def Let_def assms(2) findAccessibleTeam_def findChannelOrSend404_def findThreadOrSend404_def
    by (auto simp: outcome split: option.splits)
  ultimately show ?thesis unfolding Create_execute_def Let_def assms(2) by (simp add: outcome)
qed

end
