(* ===== verification/Link.thy ===== *)
theory Link
  imports Client_Specs Loop_Inv
begin

text \<open>
  A client and the server joined by a connection: two streams of bytes, which the network cuts as it
  likes, between the handlers of the client (typing, flushing, reading) and those of the server
  (reading, writing, and events of the other connections). Histories record what was typed, run, queued
  and routed; the theorem is that both directions are in order, complete and without repetition.
\<close>

section \<open>The bytes of the client\<close>

definition bytes :: "app \<Rightarrow> string" where
  "bytes a = tc_sent (app_client a) @ unsent (app_client a)"

definition wire :: "string list \<Rightarrow> string" where
  "wire fs = concat (map (\<lambda>f. f @ CRLF) fs)"

text \<open>The frame a typed line becomes: none when it is answered locally.\<close>

definition frame_of :: "string \<Rightarrow> string list" where
  "frame_of line =
     (let t = trimLeft line in
      case extractCommand t of
        None \<Rightarrow> []
      | Some command \<Rightarrow>
          if t \<noteq> [] \<and> isSupportedServerCommand command \<and> validateArgs command (drop (length command) t) = None
          then [t] else [])"

lemma supported_slash: "isSupportedServerCommand c \<Longrightarrow> c \<noteq> ''/help'' \<and> c \<noteq> [] \<and> hd c = CHR ''/''"
  by (auto simp: isSupportedServerCommand_def schemas_def schema_def)

lemma flush_sent: "flushPendingWrites as c = Some (Inr (left, c')) \<Longrightarrow> prefix (tc_sent c) (tc_sent c')"
proof (induction as c rule: flushPendingWrites.induct)
  case (1 as c)
  show ?case
  proof (cases "tc_pendingOffset c < length (tc_pendingWrites c)")
    case False
    then show ?thesis using "1.prems" by (auto simp: flushPendingWrites.simps [of as c])
  next
    case True
    then obtain a as' n where a: "as = a # as'" "Client_write (drop (tc_pendingOffset c) (tc_pendingWrites c)) a = Some (Inr n)"
      using "1.prems" by (auto simp: flushPendingWrites.simps [of as c] split: list.splits option.splits sum.splits)
    show ?thesis
    proof (cases "n = 0")
      case True
      then show ?thesis using "1.prems" a \<open>tc_pendingOffset c < _\<close> by (auto simp: flushPendingWrites.simps [of "a # as'" c])
    next
      case False
      from "1.IH" [OF True a refl False] "1.prems" a False True
      have "prefix (tc_sent c @ take n (drop (tc_pendingOffset c) (tc_pendingWrites c))) (tc_sent c')"
        by (simp add: flushPendingWrites.simps [of "a # as'" c])
      then show ?thesis by (rule append_prefixD)
    qed
  qed
qed

lemma flush_app_bytes:
  assumes "flush_app ws a = Some (Inr a')" and "tcp_ok (app_client a)"
  shows "bytes a' = bytes a \<and> tcp_ok (app_client a') \<and> app_serverReadBuffer a' = app_serverReadBuffer a \<and>
    prefix (tc_sent (app_client a)) (tc_sent (app_client a'))"
proof -
  obtain left c where f: "flushPendingWrites ws (app_client a) = Some (Inr (left, c))" "a' = a\<lparr>app_client := c\<rparr>"
    using assms(1) by (auto simp: flush_app_def)
  from flush_conserves [OF f(1)] flush_sent [OF f(1)] assms(2) f(2) show ?thesis by (simp add: tcp_ok_def bytes_def)
qed

lemma dispatch_bytes:
  assumes "dispatchCommandLine ws line a = Some (Inr (b, a'))" and "tcp_ok (app_client a)"
  shows "bytes a' = bytes a @ wire (frame_of line) \<and> tcp_ok (app_client a') \<and>
    app_serverReadBuffer a' = app_serverReadBuffer a \<and> prefix (tc_sent (app_client a)) (tc_sent (app_client a'))"
proof (cases "frame_of line = []")
  case True
  then have "app_client a' = app_client a \<and> app_serverReadBuffer a' = app_serverReadBuffer a"
    using assms(1)
    by (auto simp: frame_of_def dispatchCommandLine_def Let_def print_def split: option.splits if_splits)
  with True assms(2) show ?thesis by (simp add: bytes_def wire_def)
next
  case False
  then obtain command where c: "extractCommand (trimLeft line) = Some command" "trimLeft line \<noteq> []"
    "isSupportedServerCommand command" "validateArgs command (drop (length command) (trimLeft line)) = None"
    and f: "frame_of line = [trimLeft line]"
    by (auto simp: frame_of_def Let_def split: option.splits if_splits)
  have frame: "command @ drop (length command) (trimLeft line) = trimLeft line"
    using validated_tokens [OF c(1,3,2) trimLeft_head [OF c(2)] c(4)] by blast
  let ?a1 = "a\<lparr>app_router := setPendingCommand command (app_router a),
    app_client := sendAll (trimLeft line @ CRLF) (app_client a)\<rparr>"
  obtain a2 where a2: "flush_app ws ?a1 = Some (Inr a2)" "a' = updateServerWatchedEvents a2"
    using assms(1) c supported_slash [OF c(3)]
    by (auto simp: dispatchCommandLine_def sendCommandFrame_def Let_def frame)
  have "tcp_ok (app_client ?a1)" using assms(2) by (simp add: tcp_ok_def sendAll_def)
  from flush_app_bytes [OF a2(1) this]
  have "bytes a2 = bytes ?a1" "tcp_ok (app_client a2)" "app_serverReadBuffer a2 = app_serverReadBuffer a"
    "prefix (tc_sent (app_client a)) (tc_sent (app_client a2))" by (simp_all add: sendAll_def)
  moreover have "bytes ?a1 = bytes a @ trimLeft line @ CRLF"
    using assms(2) by (simp add: bytes_def unsent_sendAll tcp_ok_def) (simp add: sendAll_def)
  ultimately show ?thesis
    by (simp add: a2(2) bytes_def f wire_def updateServerWatchedEvents_def)
qed

section \<open>The connection at the server\<close>

lemma clientAt_modify_other: "k \<noteq> fd \<Longrightarrow> clientAt (modifyClient k f s) fd = clientAt s fd"
  by (cases "fd \<in> set (fds s)")
    (simp_all add: modifyClient_def clientAt_map_clients clientAt_absent frame_simps)

lemma clientAt_modify_same: "fd \<in> set (fds s) \<Longrightarrow> clientAt (modifyClient fd f s) fd = f (clientAt s fd)"
  by (simp add: modifyClient_def clientAt_map_clients)

lemma handleWrite_effect:
  assumes "handleWrite r fd s = Inr t" and "fd \<in> set (fds s)"
  shows "let n = (case r of Ok n \<Rightarrow> n | Errno e \<Rightarrow> 0) in
    take n (writeBufferAt s fd) @ writeBufferAt t fd = writeBufferAt s fd \<and>
    (\<forall>k. k \<noteq> fd \<longrightarrow> clientAt t k = clientAt s k)"
  using assms(1) clientAt_modify_same [OF assms(2)] clientAt_modify_other [of fd]
  by (auto simp: handleWrite_def Posix_write_def writeBufferAt_def consumeFromWriteBuffer_def Let_def min_def
      split: sys.splits if_splits)

text \<open>What everybody else may do to a connection: append to its output, and nothing more.\<close>

definition undisturbed :: "fd \<Rightarrow> server \<Rightarrow> server \<Rightarrow> bool" where
  "undisturbed fd s t \<longleftrightarrow> (fd \<in> set (fds s) \<longrightarrow> fd \<in> set (fds t)) \<and> (distinct (fds s) \<longrightarrow> distinct (fds t)) \<and>
     cl_readBuffer (clientAt t fd) = cl_readBuffer (clientAt s fd) \<and> prefix (writeBufferAt s fd) (writeBufferAt t fd)"

lemma undisturbed_refl [simp]: "undisturbed fd s s"
  by (simp add: undisturbed_def)

lemma undisturbed_trans: "undisturbed fd r s \<Longrightarrow> undisturbed fd s t \<Longrightarrow> undisturbed fd r t"
  unfolding undisturbed_def using prefix_order.trans by metis

lemma undisturbed_same: "fds t = fds s \<Longrightarrow> clientAt t fd = clientAt s fd \<Longrightarrow> undisturbed fd s t"
  by (simp add: undisturbed_def writeBufferAt_def)

lemma undisturbed_modify: "k \<noteq> fd \<Longrightarrow> undisturbed fd s (modifyClient k f s)"
  by (rule undisturbed_same) (simp_all add: clientAt_modify_other frame_simps)

lemma undisturbed_deliver: "undisturbed fd s (deliver P m s)"
  by (simp add: undisturbed_def frame_simps writeBufferAt_deliver)

lemma undisturbed_frame:
  assumes "cmd_frame k s t"
  shows "undisturbed fd s t"
proof -
  have f: "fds t = fds s" using cmd_frame_lookup(1) [OF assms] .
  have "client_frame (fd = k) (clientAt s fd) (clientAt t fd)"
  proof -
    have "list_all2 (\<lambda>(j, c) (i, d). i = j \<and> client_frame (j = k) c d) (srv_clients s) (srv_clients t)"
      using assms by (simp add: cmd_frame_def)
    then have "rel_option (client_frame (fd = k)) (map_of (srv_clients s) fd) (map_of (srv_clients t) fd)"
      by (induction rule: list_all2_induct) (auto split: prod.splits)
    then show ?thesis unfolding clientAt_def getClient_def
      by (cases "map_of (srv_clients s) fd"; cases "map_of (srv_clients t) fd") simp_all
  qed
  with f show ?thesis by (simp add: undisturbed_def client_frame_def writeBufferAt_def)
qed

lemma undisturbed_command:
  assumes "handleCommand e raw k s = Inr t" and "k \<noteq> fd"
  shows "undisturbed fd s t"
  using assms(1)
proof (cases rule: handleCommand_cases)
  case (known args f)
  then have "icommand f" using command_dispatch by blast
  from undisturbed_frame [OF icommand.frame [OF this]] known
  have "undisturbed fd (setArgs k args s) t" by simp
  moreover have "undisturbed fd s (setArgs k args s)" unfolding setArgs_def by (rule undisturbed_modify [OF assms(2)])
  ultimately show ?thesis by (blast intro: undisturbed_trans)
qed (use assms(2) in \<open>simp_all add: setArgs_def undisturbed_modify\<close>)

lemma undisturbed_lines:
  "run_lines es ls k s = Inr t \<Longrightarrow> k \<noteq> fd \<Longrightarrow> undisturbed fd s t"
proof (induction ls arbitrary: es s)
  case (Cons l ls)
  then obtain u where u: "dispatch_line (es 0) l k s = Inr u" "run_lines (\<lambda>i. es (Suc i)) ls k u = Inr t"
    by (auto split: sum.splits)
  from u(1) have "undisturbed fd s u"
    by (cases rule: dispatch_line_cases) (auto intro: undisturbed_command [OF _ Cons.prems(2)])
  with Cons.IH [OF u(2) Cons.prems(2)] show ?case by (blast intro: undisturbed_trans)
qed simp

lemma undisturbed_loop:
  "parseCommands_loop es buf p k s = Inr (q, t) \<Longrightarrow> k \<noteq> fd \<Longrightarrow> undisturbed fd s t"
  by (auto simp: parseCommands_loop_lines intro: undisturbed_lines split: sum.splits)

lemma undisturbed_read:
  assumes "handleRead es r k s = Inr t" and "k \<noteq> fd"
  shows "undisturbed fd s t"
proof -
  note m = undisturbed_modify [OF assms(2)]
  have parse: "undisturbed fd u t" if "parseCommands es k u = Inr t" for u
    using that undisturbed_loop [OF _ assms(2)]
    by (auto simp: parseCommands_def intro: undisturbed_trans [OF _ m] split: sum.splits)
  show ?thesis
  proof (cases "Posix_read readBufferSize r")
    case (Inr got)
    with assms(1) m show ?thesis
      by (cases got; cases "the got = []") (auto simp: handleRead_def intro: undisturbed_trans [OF m parse])
  qed (use assms(1) in \<open>simp add: handleRead_def\<close>)
qed

lemma undisturbed_write: "handleWrite r k s = Inr t \<Longrightarrow> k \<noteq> fd \<Longrightarrow> undisturbed fd s t"
  by (auto simp: handleWrite_def Let_def intro: undisturbed_modify split: if_splits sum.splits)

lemma undisturbed_erase: "k \<noteq> fd \<Longrightarrow> undisturbed fd s (eraseClient k s)"
proof -
  assume k: "k \<noteq> fd"
  have "map_of (filter (\<lambda>(j, c). j \<noteq> k) cs) fd = map_of cs fd" for cs :: "(fd \<times> client) list"
    using k by (induction cs) auto
  then have "clientAt (eraseClient k s) fd = clientAt s fd"
    by (simp add: clientAt_def getClient_def eraseClient_def)
  moreover have "fds (eraseClient k s) = filter (\<lambda>j. j \<noteq> k) (fds s)"
    by (simp add: fds_def eraseClient_def filter_map o_def split_def)
  ultimately show ?thesis using k by (simp add: undisturbed_def writeBufferAt_def)
qed

lemma undisturbed_disconnect:
  assumes "disconnectClient r k (s, ps) = Inr (t, ps')" and "k \<noteq> fd"
  shows "undisturbed fd s t"
proof -
  obtain lo s1 where l: "releaseUser k s = (lo, s1)" by fastforce
  have "undisturbed fd s s1"
    using l by (intro undisturbed_same) (auto simp: releaseUser_def frame_simps split: if_splits option.splits)
  then have e: "undisturbed fd s (eraseClient k s1)" using undisturbed_erase [OF assms(2)] undisturbed_trans by blast
  have log: "undisturbed fd u (logEvent ev (broadcast m u))" for ev m u
    by (rule undisturbed_trans [OF undisturbed_deliver undisturbed_same]) (simp_all add: broadcast_deliver frame_simps)
  have "t = eraseClient k s1 \<or> (\<exists>m ev. t = logEvent ev (broadcast m (eraseClient k s1)))"
    using assms(1) l by (auto simp: disconnectClient_def Let_def split: sum.splits option.splits)
  with e log show ?thesis using undisturbed_trans by blast
qed

lemma undisturbed_accept:
  assumes "acceptClient a (s, ps) = Inr (t, ps')" and "fd \<in> set (fds s)"
  shows "undisturbed fd s t"
proof -
  obtain k c where t: "t = emplaceClient k c s"
    using assms(1) by (auto simp: acceptClient_def split: sum.splits)
  have "map_of (srv_clients s) fd \<noteq> None" using assms(2) by (auto simp: fds_def map_of_eq_None_iff)
  then have "clientAt (emplaceClient k c s) fd = clientAt s fd"
    by (auto simp: emplaceClient_def clientAt_def getClient_def map_add_def split: option.splits)
  then show ?thesis using assms(2) by (auto simp: t undisturbed_def emplaceClient_def fds_def writeBufferAt_def)
qed

text \<open>Handling an event of another descriptor, and updating the poll flags, leave a connection undisturbed.\<close>

lemma undisturbed_event:
  assumes "processEvent es a ev (s, ps) = Inr (t, ps')" and "ev_fd ev \<noteq> fd" and "fd \<in> set (fds s)"
  shows "undisturbed fd s t"
proof -
  have client: "undisturbed fd s t" if p: "processClientEvent es a ev (s, ps) = Inr (t, ps')"
  proof (cases "ev_revents ev AND (POLLHUP OR POLLERR) \<noteq> 0")
    case True
    with p undisturbed_disconnect [OF _ assms(2)] show ?thesis by (simp add: processClientEvent_def)
  next
    case False
    with p obtain s1 where s1: "(if ev_revents ev AND POLLIN \<noteq> 0 then handleRead es (ans_read a) (ev_fd ev) s else Inr s) = Inr s1"
      and t: "t = s1 \<or> disconnectClient (ans_close a) (ev_fd ev) (s1, ps) = Inr (t, ps') \<or>
        handleWrite (ans_write a) (ev_fd ev) s1 = Inr t"
      by (auto simp: processClientEvent_def split: sum.splits if_splits)
    have "undisturbed fd s s1" using s1 undisturbed_read [OF _ assms(2)] by (auto split: if_splits)
    moreover have "undisturbed fd s1 t"
      using t undisturbed_disconnect [OF _ assms(2)] undisturbed_write [OF _ assms(2)] by auto
    ultimately show ?thesis by (rule undisturbed_trans)
  qed
  show ?thesis
    using assms(1) client undisturbed_accept [OF _ assms(3)]
    by (auto simp: processEvent_def split: if_splits)
qed

lemma undisturbed_flags:
  assumes "updatePollFlags (s, ps) = (t, ps')"
  shows "undisturbed fd s t"
proof -
  let ?bare = "map (\<lambda>(k, c). (k, c\<lparr>cl_pollOutEnabled := False\<rparr>))"
  have bare: "?bare (fst (updatePollFlags_loop cs qs)) = ?bare cs" for cs qs
  proof (induction cs arbitrary: qs)
    case (Cons x cs)
    obtain k c where x: "x = (k, c)" by fastforce
    have "case updatePollFlags_loop cs rs of (cs', rs') \<Rightarrow> ?bare cs' = ?bare cs" for rs
      using Cons.IH [of rs] by (auto split: prod.splits)
    then show ?case unfolding x by (simp add: Let_def split_def)
  qed simp
  have t: "srv_clients t = fst (updatePollFlags_loop (srv_clients s) ps)"
    using assms by (auto simp: updatePollFlags_def split: prod.splits)
  with bare have b: "?bare (srv_clients t) = ?bare (srv_clients s)" by simp
  have f: "fds u = map fst (?bare (srv_clients u))" for u by (simp add: fds_def split_def)
  have m: "map_option (\<lambda>c. c\<lparr>cl_pollOutEnabled := False\<rparr>) (map_of cs fd) = map_of (?bare cs) fd" for cs
    by (induction cs) auto
  then have c: "map_option (\<lambda>c. c\<lparr>cl_pollOutEnabled := False\<rparr>) (getClient t fd) =
      map_option (\<lambda>c. c\<lparr>cl_pollOutEnabled := False\<rparr>) (getClient s fd)"
    unfolding getClient_def m b ..
  have same: "cl_readBuffer c = cl_readBuffer d \<and> cl_writeBuffer c = cl_writeBuffer d"
    if "c\<lparr>cl_pollOutEnabled := False\<rparr> = d\<lparr>cl_pollOutEnabled := False\<rparr>" for c d :: client
    using that by (cases c; cases d) simp
  have "cl_readBuffer (clientAt t fd) = cl_readBuffer (clientAt s fd) \<and> writeBufferAt t fd = writeBufferAt s fd"
  proof (cases "getClient t fd")
    case None
    with c show ?thesis by (simp add: clientAt_def writeBufferAt_def)
  next
    case (Some x)
    with c obtain y where y: "getClient s fd = Some y" "x\<lparr>cl_pollOutEnabled := False\<rparr> = y\<lparr>cl_pollOutEnabled := False\<rparr>"
      by (cases "getClient s fd") simp_all
    from same [OF y(2)] show ?thesis by (simp add: clientAt_def writeBufferAt_def Some y(1))
  qed
  then show ?thesis by (simp add: undisturbed_def f [of t] f [of s] b)
qed

section \<open>Client and server, joined\<close>

text \<open>
  What happens at the server, as calls of its handlers: a command of the connection \<open>fd\<close> runs, the text of the
  connection that is not yet a line changes, output of the connection is written, an event of another
  descriptor is handled, the poll flags are updated. Only \<open>Runs\<close> can make the connection's own commands happen.
\<close>

datatype server_act = Runs env string | Buffers string | Writes nat | Handles "nat \<Rightarrow> env" answers pollEvent poller | Flags poller

fun act :: "fd \<Rightarrow> server_act \<Rightarrow> server \<Rightarrow> exn + server" where
  "act fd (Runs e c) s = handleCommand e c fd s"
| "act fd (Buffers x) s = Inr (setReadBuffer fd x s)"
| "act fd (Writes n) s = handleWrite (Ok n) fd s"
| "act fd (Handles es k ev ps) s = map_sum id fst (processEvent es k ev (s, ps))"
| "act fd (Flags ps) s = Inr (fst (updatePollFlags (s, ps)))"

fun acts :: "fd \<Rightarrow> server_act list \<Rightarrow> server \<Rightarrow> exn + server" where
  "acts fd [] s = Inr s"
| "acts fd (x # xs) s = (case act fd x s of Inl e \<Rightarrow> Inl e | Inr t \<Rightarrow> acts fd xs t)"

text \<open>The bytes appended to the output of the connection on the way.\<close>

definition queued :: "fd \<Rightarrow> server \<Rightarrow> server \<Rightarrow> string" where
  "queued fd s t = drop (length (writeBufferAt s fd)) (writeBufferAt t fd)"

fun said :: "fd \<Rightarrow> server_act list \<Rightarrow> server \<Rightarrow> string" where
  "said fd [] s = []"
| "said fd (x # xs) s = (case act fd x s of Inl e \<Rightarrow> [] | Inr t \<Rightarrow> queued fd s t @ said fd xs t)"

fun commands_run :: "server_act list \<Rightarrow> string list" where
  "commands_run [] = []"
| "commands_run (Runs e c # xs) = c # commands_run xs"
| "commands_run (x # xs) = commands_run xs"

text \<open>What the others and the kernel did, in order.\<close>

fun around :: "server_act list \<Rightarrow> server_act list" where
  "around [] = []"
| "around (Runs e c # xs) = around xs"
| "around (Buffers x # xs) = around xs"
| "around (x # xs) = x # around xs"

text \<open>At the client: a line is typed, queued output is written, a line of the server is routed, the text that is
  not yet a line changes.\<close>

datatype client_act = Types "nat sys list list" string | Flushes "nat sys list list" | Routes string | Keeps string

fun cact :: "client_act \<Rightarrow> app \<Rightarrow> app option" where
  "cact (Types ws line) a = (case dispatchCommandLine ws line a of Some (Inr (True, b)) \<Rightarrow> Some b | _ \<Rightarrow> None)"
| "cact (Flushes ws) a = (case flush_app ws a of Some (Inr b) \<Rightarrow> Some b | _ \<Rightarrow> None)"
| "cact (Routes line) a =
     (let r = routeFrame (strip_cr line) (app_router a) in
      if rt_shouldDisconnect r then None else Some (a\<lparr>app_router := r\<rparr>))"
| "cact (Keeps x) a = Some (a\<lparr>app_serverReadBuffer := x\<rparr>)"

fun cacts :: "client_act list \<Rightarrow> app \<Rightarrow> app option" where
  "cacts [] a = Some a"
| "cacts (x # xs) a = Option.bind (cact x a) (cacts xs)"

fun routed :: "client_act list \<Rightarrow> string list" where
  "routed [] = []"
| "routed (Routes line # xs) = line # routed xs"
| "routed (x # xs) = routed xs"

text \<open>What the user and the kernel did, in order; and the commands among it.\<close>

fun local :: "client_act list \<Rightarrow> client_act list" where
  "local [] = []"
| "local (Routes line # xs) = local xs"
| "local (Keeps x # xs) = local xs"
| "local (x # xs) = x # local xs"

fun commands_of :: "client_act list \<Rightarrow> string list" where
  "commands_of [] = []"
| "commands_of (Types ws line # xs) = frame_of line @ commands_of xs"
| "commands_of (x # xs) = commands_of xs"

lemma act_lists_append [simp]:
  "commands_run (xs @ ys) = commands_run xs @ commands_run ys" "around (xs @ ys) = around xs @ around ys"
  "routed (cs @ ds) = routed cs @ routed ds" "local (cs @ ds) = local cs @ local ds"
  "commands_of (cs @ ds) = commands_of cs @ commands_of ds"
      apply (induction xs rule: commands_run.induct; simp)
     apply (induction xs rule: around.induct; simp)
    apply (induction cs rule: routed.induct; simp)
   apply (induction cs rule: local.induct; simp)
  apply (induction cs rule: commands_of.induct; simp)
  done

lemma acts_append [simp]: "acts fd (xs @ ys) s = (case acts fd xs s of Inl e \<Rightarrow> Inl e | Inr t \<Rightarrow> acts fd ys t)"
  by (induction xs arbitrary: s) (simp_all split: sum.split)

lemma said_append: "acts fd xs s = Inr t \<Longrightarrow> said fd (xs @ ys) s = said fd xs s @ said fd ys t"
  by (induction xs arbitrary: s) (auto split: sum.splits)

lemma cacts_append [simp]: "cacts (cs @ ds) a = Option.bind (cacts cs a) (cacts ds)"
proof (induction cs arbitrary: a)
  case (Cons x cs)
  then show ?case by (cases "cact x a") simp_all
qed simp

text \<open>
  The joined system: the two programs, the bytes in flight in each direction, and what the outside did at either end.
  A line is typed, the client flushes or reads, the server reads or writes on the connection \<open>fd\<close>, or does
  anything else. A read takes any part of what is in flight.
\<close>

record link =
  lk_app :: app
  lk_srv :: server
  lk_up :: string
  lk_down :: string
  lk_user :: "client_act list"
  lk_env :: "server_act list"

definition link_start :: "app \<Rightarrow> server \<Rightarrow> link" where
  "link_start a s = \<lparr>lk_app = a, lk_srv = s, lk_up = [], lk_down = [], lk_user = [], lk_env = []\<rparr>"

text \<open>What a handler of the client hands to the kernel.\<close>

definition handed :: "app \<Rightarrow> app \<Rightarrow> string" where
  "handed a a' = drop (length (tc_sent (app_client a))) (tc_sent (app_client a'))"

inductive link_step :: "fd \<Rightarrow> link \<Rightarrow> link \<Rightarrow> bool" for fd where
  typing: "dispatchCommandLine ws line (lk_app l) = Some (Inr (True, a)) \<Longrightarrow> LF \<notin> set line \<Longrightarrow>
    link_step fd l (l\<lparr>lk_app := a, lk_up := lk_up l @ handed (lk_app l) a, lk_user := lk_user l @ [Types ws line]\<rparr>)"
| flushing: "flush_app ws (lk_app l) = Some (Inr a) \<Longrightarrow>
    link_step fd l (l\<lparr>lk_app := a, lk_up := lk_up l @ handed (lk_app l) a, lk_user := lk_user l @ [Flushes ws]\<rparr>)"
| reading: "handleRead es (Ok d) fd (lk_srv l) = Inr t \<Longrightarrow> d \<noteq> [] \<Longrightarrow> length d \<le> readBufferSize \<Longrightarrow> lk_up l = d @ rest \<Longrightarrow>
    link_step fd l (l\<lparr>lk_srv := t, lk_up := rest\<rparr>)"
| writing: "handleWrite (Ok n) fd (lk_srv l) = Inr t \<Longrightarrow>
    link_step fd l (l\<lparr>lk_srv := t, lk_down := lk_down l @ take n (writeBufferAt (lk_srv l) fd), lk_env := lk_env l @ [Writes n]\<rparr>)"
| other: "processEvent es k ev (lk_srv l, ps) = Inr (t, ps') \<Longrightarrow> ev_fd ev \<noteq> fd \<Longrightarrow>
    link_step fd l (l\<lparr>lk_srv := t, lk_env := lk_env l @ [Handles es k ev ps]\<rparr>)"
| flags: "updatePollFlags (lk_srv l, ps) = (t, ps') \<Longrightarrow>
    link_step fd l (l\<lparr>lk_srv := t, lk_env := lk_env l @ [Flags ps]\<rparr>)"
| routing: "handleServerReadable [Ok d] (lk_app l) = Some (Inr (True, a)) \<Longrightarrow> length d \<le> READ_BUFFER_SIZE \<Longrightarrow>
    lk_down l = d @ rest \<Longrightarrow> link_step fd l (l\<lparr>lk_app := a, lk_down := rest\<rparr>)"

section \<open>A history of whole commands and whole lines\<close>

text \<open>
  The invariant: the two programs are in the states that follow from a history in which commands and lines arrive
  whole, and every byte is in one place. \<open>got\<close> and \<open>seen\<close> are the bytes the server and the client have read.
\<close>

definition history :: "fd \<Rightarrow> app \<Rightarrow> server \<Rightarrow> link \<Rightarrow> server_act list \<Rightarrow> client_act list \<Rightarrow> bool" where
  "history fd a s l xs cs \<longleftrightarrow> acts fd xs s = Inr (lk_srv l) \<and> around xs = lk_env l \<and>
     cacts cs a = Some (lk_app l) \<and> local cs = lk_user l"

definition link_inv :: "fd \<Rightarrow> app \<Rightarrow> server \<Rightarrow> link \<Rightarrow> server_act list \<Rightarrow> client_act list \<Rightarrow> string \<Rightarrow> string \<Rightarrow> bool" where
  "link_inv fd a s l xs cs got seen \<longleftrightarrow> history fd a s l xs cs \<and>
     tcp_ok (app_client (lk_app l)) \<and> fd \<in> set (fds (lk_srv l)) \<and> distinct (fds (lk_srv l)) \<and>
     (\<forall>f \<in> set (commands_of (lk_user l)). LF \<notin> set f \<and> f \<noteq> []) \<and>
     got @ lk_up l @ unsent (app_client (lk_app l)) = wire (commands_of (lk_user l)) \<and>
     (map (\<lambda>c. c @ [CR]) (commands_run xs), cl_readBuffer (clientAt (lk_srv l) fd)) = split_lf got \<and>
     said fd xs s = seen @ lk_down l @ writeBufferAt (lk_srv l) fd \<and>
     (routed cs, app_serverReadBuffer (lk_app l)) = split_lf seen"

lemma split_lf_extend: "(ls, r) = split_lf x \<Longrightarrow> (ls @ fst (split_lf (r @ d)), snd (split_lf (r @ d))) = split_lf (x @ d)"
  using split_lf_append [of x d] by (metis fst_conv snd_conv)

lemma handed_unsent:
  assumes "bytes a' = bytes a @ x" and "prefix (tc_sent (app_client a)) (tc_sent (app_client a'))"
  shows "handed a a' @ unsent (app_client a') = unsent (app_client a) @ x"
  using assms by (auto simp: bytes_def handed_def elim!: prefixE)

lemma queued_prefix: "prefix (writeBufferAt s fd) (writeBufferAt t fd) \<Longrightarrow> writeBufferAt t fd = writeBufferAt s fd @ queued fd s t"
  by (auto simp: queued_def elim!: prefixE)

lemma wire_append: "wire (fs @ gs) = wire fs @ wire gs"
  by (simp add: wire_def)

lemma frame_ok: "LF \<notin> set line \<Longrightarrow> f \<in> set (frame_of line) \<Longrightarrow> LF \<notin> set f \<and> f \<noteq> []"
  by (auto simp: frame_of_def Let_def trimLeft_def dest: set_dropWhileD split: option.splits if_splits)

lemma split_lf_wire: "(\<And>f. f \<in> set fs \<Longrightarrow> LF \<notin> set f) \<Longrightarrow> split_lf (wire fs) = (map (\<lambda>f. f @ [CR]) fs, [])"
proof (induction fs)
  case (Cons f fs)
  have w: "wire (f # fs) = (f @ [CR]) @ LF # wire fs" by (simp add: wire_def CRLF_def)
  have lf: "LF \<notin> set (f @ [CR])" using Cons.prems [of f] by simp
  have "split_lf (wire fs) = (map (\<lambda>f. f @ [CR]) fs, [])" using Cons by simp
  then show ?case unfolding w split_lf_line [OF lf] by simp
qed (simp add: wire_def)

lemma prefix_split_lf: "prefix (fst (split_lf x)) (fst (split_lf (x @ y)))"
  by (simp add: split_lf_append [of x y])

lemma split_lf_bytes: "concat (map (\<lambda>l. l @ [LF]) (fst (split_lf x))) @ snd (split_lf x) = x"
  by (induction x) (auto split: prod.splits list.splits)

subsection \<open>The server's side\<close>

lemma writeBufferAt_keeping:
  "writeBufferAt (setReadBuffer k x s) j = writeBufferAt s j" "writeBufferAt (setArgs k as s) j = writeBufferAt s j"
  unfolding setReadBuffer_def setArgs_def by (simp_all add: writeBufferAt_modify)

lemma command_appends: "handleCommand e c k s = Inr t \<Longrightarrow> prefix (writeBufferAt s fd) (writeBufferAt t fd)"
proof -
  assume "handleCommand e c k s = Inr t"
  then show "prefix (writeBufferAt s fd) (writeBufferAt t fd)"
proof (cases rule: handleCommand_cases)
  case (known args f)
  then have "icommand f" using command_dispatch by blast
  from icommand.only_appends [OF this, of e k "setArgs k args s" fd] known
  show ?thesis by (auto simp: writeBufferAt_keeping)
qed (simp_all add: writeBufferAt_keeping)
qed

text \<open>The lines of a chunk, as commands that run.\<close>

fun runs :: "(nat \<Rightarrow> env) \<Rightarrow> string list \<Rightarrow> server_act list" where
  "runs es [] = []"
| "runs es (l # ls) = Runs (es 0) (strip_cr l) # runs (\<lambda>i. es (Suc i)) ls"

lemma runs_lists [simp]: "commands_run (runs es ls) = map strip_cr ls" "around (runs es ls) = []"
  by (induction es ls rule: runs.induct) simp_all

lemma runs_lines: "list_all (\<lambda>l. strip_cr l \<noteq> []) ls \<Longrightarrow> acts fd (runs es ls) s = run_lines es ls fd s"
  by (induction ls arbitrary: es s) (simp_all add: dispatch_line_def Let_def split: sum.split)

lemma runs_said:
  "acts fd (runs es ls) s = Inr t \<Longrightarrow> writeBufferAt t fd = writeBufferAt s fd @ said fd (runs es ls) s"
proof (induction ls arbitrary: es s)
  case (Cons l ls)
  then obtain u where u: "handleCommand (es 0) (strip_cr l) fd s = Inr u" "acts fd (runs (\<lambda>i. es (Suc i)) ls) u = Inr t"
    by (auto split: sum.splits)
  from queued_prefix [OF command_appends [OF u(1)]] Cons.IH [OF u(2)] u(1) show ?case by simp
qed simp

lemma read_acts:
  assumes "handleRead es (Ok d) fd s = Inr t" and "d \<noteq> []" and "length d \<le> readBufferSize"
    and "fd \<in> set (fds s)" and "distinct (fds s)" and "split_lf (cl_readBuffer (clientAt s fd) @ d) = (ls, r)"
    and "list_all (\<lambda>l. strip_cr l \<noteq> []) ls"
  shows "acts fd (runs es ls @ [Buffers r]) s = Inr t \<and> fds t = fds s \<and> cl_readBuffer (clientAt t fd) = r \<and>
    writeBufferAt t fd = writeBufferAt s fd @ said fd (runs es ls @ [Buffers r]) s"
proof -
  have "take 4096 d = d" using assms(3) by (simp add: readBufferSize_def)
  with assms(1,2) have "receive es d fd s = Inr t" by (simp add: handleRead_receive)
  then obtain u where u: "run_lines es ls fd s = Inr u" "t = setReadBuffer fd r u"
    using receive_lines [OF assms(4,5), of es d] assms(6) by (auto simp: Let_def)
  have a: "acts fd (runs es ls) s = Inr u" using u(1) runs_lines [OF assms(7)] by simp
  from readBuffer_run_lines [OF u(1)] runs_said [OF a] said_append [OF a, of "[Buffers r]"] a assms(4) show ?thesis
    by (simp add: u(2) readBuffer_setReadBuffer writeBufferAt_keeping input_simps queued_def)
qed

lemma link_inv_srv:
  assumes "link_inv fd a s l xs cs got seen" and "act fd x (lk_srv l) = Inr t" and "undisturbed fd (lk_srv l) t"
    and "commands_run [x] = []" and "around [x] = [x]"
  shows "link_inv fd a s (l\<lparr>lk_srv := t, lk_env := lk_env l @ [x]\<rparr>) (xs @ [x]) cs got seen"
proof -
  have h: "acts fd xs s = Inr (lk_srv l)" using assms(1) by (simp add: link_inv_def history_def)
  have "writeBufferAt t fd = writeBufferAt (lk_srv l) fd @ queued fd (lk_srv l) t"
    using assms(3) by (intro queued_prefix) (simp add: undisturbed_def)
  then have "said fd (xs @ [x]) s = seen @ lk_down l @ writeBufferAt t fd"
    using assms(1,2) said_append [OF h, of "[x]"] by (simp add: link_inv_def)
  with assms h show ?thesis by (auto simp: link_inv_def history_def undisturbed_def)
qed

lemma link_inv_reading:
  assumes "link_inv fd a s l xs cs got seen" and "handleRead es (Ok d) fd (lk_srv l) = Inr t" and "d \<noteq> []"
    and "length d \<le> readBufferSize" and "lk_up l = d @ rest"
  shows "\<exists>xs' got'. link_inv fd a s (l\<lparr>lk_srv := t, lk_up := rest\<rparr>) xs' cs got' seen"
proof -
  obtain ls r where sp: "split_lf (cl_readBuffer (clientAt (lk_srv l) fd) @ d) = (ls, r)" by fastforce
  from assms(1) have h: "acts fd xs s = Inr (lk_srv l)" and fd: "fd \<in> set (fds (lk_srv l))" "distinct (fds (lk_srv l))"
    and cmds: "\<And>f. f \<in> set (commands_of (lk_user l)) \<Longrightarrow> LF \<notin> set f \<and> f \<noteq> []"
    and got: "got @ lk_up l @ unsent (app_client (lk_app l)) = wire (commands_of (lk_user l))"
    and rn: "(map (\<lambda>c. c @ [CR]) (commands_run xs), cl_readBuffer (clientAt (lk_srv l) fd)) = split_lf got"
    by (simp_all add: link_inv_def history_def)
  have sp': "(map (\<lambda>c. c @ [CR]) (commands_run xs) @ ls, r) = split_lf (got @ d)"
    using split_lf_extend [OF rn, of d] by (simp add: sp)
  have "prefix (fst (split_lf (got @ d))) (fst (split_lf ((got @ d) @ rest @ unsent (app_client (lk_app l)))))"
    by (rule prefix_split_lf)
  moreover have "split_lf ((got @ d) @ rest @ unsent (app_client (lk_app l))) = (map (\<lambda>f. f @ [CR]) (commands_of (lk_user l)), [])"
    using got cmds assms(5) by (subst split_lf_wire [symmetric]) simp_all
  ultimately have "prefix (fst (split_lf (got @ d))) (map (\<lambda>f. f @ [CR]) (commands_of (lk_user l)))" by simp
  then have "set (fst (split_lf (got @ d))) \<subseteq> (\<lambda>f. f @ [CR]) ` set (commands_of (lk_user l))"
    by (auto dest!: set_mono_prefix)
  moreover have "set ls \<subseteq> set (fst (split_lf (got @ d)))" by (simp flip: sp')
  ultimately have "set ls \<subseteq> (\<lambda>f. f @ [CR]) ` set (commands_of (lk_user l))" by blast
  then have ls: "ls = map (\<lambda>c. c @ [CR]) (map strip_cr ls)" "list_all (\<lambda>l. strip_cr l \<noteq> []) ls"
    using cmds by (auto simp: list_all_iff strip_cr_def intro!: map_idI [symmetric])
  from read_acts [OF assms(2-4) fd sp ls(2)]
  have t: "acts fd (runs es ls @ [Buffers r]) (lk_srv l) = Inr t" "fds t = fds (lk_srv l)" "cl_readBuffer (clientAt t fd) = r"
    "writeBufferAt t fd = writeBufferAt (lk_srv l) fd @ said fd (runs es ls @ [Buffers r]) (lk_srv l)" by blast+
  have "said fd (xs @ runs es ls @ [Buffers r]) s = seen @ lk_down l @ writeBufferAt t fd"
    using assms(1) t(4) said_append [OF h] by (simp add: link_inv_def)
  moreover have "map (\<lambda>c. c @ [CR]) (commands_run (xs @ runs es ls @ [Buffers r])) = map (\<lambda>c. c @ [CR]) (commands_run xs) @ ls"
    using ls(1) by simp
  ultimately have "link_inv fd a s (l\<lparr>lk_srv := t, lk_up := rest\<rparr>) (xs @ runs es ls @ [Buffers r]) cs (got @ d) seen"
    using assms(1,5) t(1-3) sp' h by (simp add: link_inv_def history_def)
  then show ?thesis by blast
qed

subsection \<open>The client's side\<close>

lemma link_inv_app:
  assumes "link_inv fd a s l xs cs got seen" and "cact x (lk_app l) = Some b" and "local [x] = [x]" and "routed [x] = []"
    and "bytes b = bytes (lk_app l) @ wire (commands_of [x])" and "tcp_ok (app_client b)"
    and "app_serverReadBuffer b = app_serverReadBuffer (lk_app l)"
    and "prefix (tc_sent (app_client (lk_app l))) (tc_sent (app_client b))"
    and "\<And>f. f \<in> set (commands_of [x]) \<Longrightarrow> LF \<notin> set f \<and> f \<noteq> []"
  shows "link_inv fd a s (l\<lparr>lk_app := b, lk_up := lk_up l @ handed (lk_app l) b, lk_user := lk_user l @ [x]\<rparr>) xs (cs @ [x]) got seen"
proof -
  have "got @ lk_up l @ handed (lk_app l) b @ unsent (app_client b) = wire (commands_of (lk_user l @ [x]))"
    using assms(1) by (simp add: handed_unsent [OF assms(5,8)] wire_append link_inv_def)
  with assms show ?thesis by (auto simp: link_inv_def history_def)
qed

lemma routes_acts:
  "route_lines ls (app_router b) = Inr (False, r) \<Longrightarrow> cacts (map Routes ls) b = Some (b\<lparr>app_router := r\<rparr>)"
  by (induction ls arbitrary: b) (auto simp: Let_def split: if_splits)

lemma routes_lists [simp]: "routed (map Routes ls) = ls" "local (map Routes ls) = []"
  by (induction ls) simp_all

lemma link_inv_routing:
  assumes "link_inv fd a s l xs cs got seen" and "handleServerReadable [Ok d] (lk_app l) = Some (Inr (True, b))"
    and "length d \<le> READ_BUFFER_SIZE" and "lk_down l = d @ rest"
  shows "\<exists>cs' seen'. link_inv fd a s (l\<lparr>lk_app := b, lk_down := rest\<rparr>) xs cs' got seen'"
proof -
  obtain ls q where sp: "split_lf (app_serverReadBuffer (lk_app l) @ d) = (ls, q)" by fastforce
  from assms(2) handleServerReadable_spec [OF assms(3)] obtain r where r: "route_lines ls (app_router (lk_app l)) = Inr (False, r)"
    and b: "b = (lk_app l)\<lparr>app_serverReadBuffer := q, app_router := r\<rparr>" by (auto simp: sp)
  have "cacts (map Routes ls @ [Keeps q]) (lk_app l) = Some b" using routes_acts [OF r] by (simp add: b)
  moreover have "(routed cs, app_serverReadBuffer (lk_app l)) = split_lf seen" using assms(1) by (simp add: link_inv_def)
  from split_lf_extend [OF this, of d] have "(routed (cs @ map Routes ls @ [Keeps q]), q) = split_lf (seen @ d)" by (simp add: sp)
  ultimately have "link_inv fd a s (l\<lparr>lk_app := b, lk_down := rest\<rparr>) xs (cs @ map Routes ls @ [Keeps q]) got (seen @ d)"
    using assms(1,4) by (simp add: link_inv_def history_def b)
  then show ?thesis by blast
qed

lemma link_inv_step:
  assumes "link_step fd l l'" and i: "link_inv fd a s l xs cs got seen"
  shows "\<exists>xs' cs' got' seen'. link_inv fd a s l' xs' cs' got' seen'"
  using assms(1)
proof cases
  case (typing ws line b)
  have "tcp_ok (app_client (lk_app l))" using i by (simp add: link_inv_def)
  from dispatch_bytes [OF typing(2) this] frame_ok [OF typing(3)] typing(2)
  have "link_inv fd a s l' xs (cs @ [Types ws line]) got seen"
    unfolding typing(1) by (intro link_inv_app [OF i]) simp_all
  then show ?thesis by blast
next
  case (flushing ws b)
  have "tcp_ok (app_client (lk_app l))" using i by (simp add: link_inv_def)
  from flush_app_bytes [OF flushing(2) this] flushing(2)
  have "link_inv fd a s l' xs (cs @ [Flushes ws]) got seen"
    unfolding flushing(1) by (intro link_inv_app [OF i]) (simp_all add: wire_def)
  then show ?thesis by blast
next
  case (reading es d t rest)
  from link_inv_reading [OF i reading(2-5)] show ?thesis unfolding reading(1) by blast
next
  case (writing n t)
  have ok: "fd \<in> set (fds (lk_srv l))" and h: "acts fd xs s = Inr (lk_srv l)" using i by (simp_all add: link_inv_def history_def)
  from handleWrite_effect [OF writing(2) ok]
  have w: "take n (writeBufferAt (lk_srv l) fd) @ writeBufferAt t fd = writeBufferAt (lk_srv l) fd" by simp
  then have "queued fd (lk_srv l) t = []" by (simp add: queued_def) (metis le_add2 length_append)
  then have "said fd (xs @ [Writes n]) s = said fd xs s" using said_append [OF h, of "[Writes n]"] writing(2) by simp
  moreover have "fds t = fds (lk_srv l) \<and> cl_readBuffer (clientAt t fd) = cl_readBuffer (clientAt (lk_srv l) fd)"
    using writing(2) ok
    by (auto simp: handleWrite_def Let_def consumeFromWriteBuffer_def clientAt_modify_same frame_simps split: if_splits sum.splits)
  ultimately have "link_inv fd a s l' (xs @ [Writes n]) cs got seen"
    using i w writing(2) unfolding writing(1) by (simp add: link_inv_def history_def)
  then show ?thesis by blast
next
  case (other es k ev ps t ps')
  have "fd \<in> set (fds (lk_srv l))" using i by (simp add: link_inv_def)
  from link_inv_srv [OF i _ undisturbed_event [OF other(2,3) this], of "Handles es k ev ps"] other(2) show ?thesis
    unfolding other(1) by auto
next
  case (flags ps t ps')
  from link_inv_srv [OF i _ undisturbed_flags [OF flags(2)], of "Flags ps"] flags(2) show ?thesis unfolding flags(1) by auto
next
  case (routing d b rest)
  from link_inv_routing [OF i routing(2-4)] show ?thesis unfolding routing(1) by blast
qed

section \<open>In order, complete, once\<close>

definition link_fresh :: "fd \<Rightarrow> app \<Rightarrow> server \<Rightarrow> bool" where
  "link_fresh fd a s \<longleftrightarrow> tcp_ok (app_client a) \<and> bytes a = [] \<and> app_serverReadBuffer a = [] \<and> fd \<in> set (fds s) \<and>
     distinct (fds s) \<and> cl_readBuffer (clientAt s fd) = [] \<and> writeBufferAt s fd = []"

lemma link_steps_inv:
  assumes "(link_step fd)\<^sup>*\<^sup>* (link_start a s) l" and "link_fresh fd a s"
  obtains xs cs got seen where "link_inv fd a s l xs cs got seen"
proof -
  have "\<exists>xs cs got seen. link_inv fd a s l xs cs got seen"
    using assms
  proof (induction rule: rtranclp_induct)
    case base
    then have "link_inv fd a s (link_start a s) [] [] [] []"
      by (auto simp: link_inv_def history_def link_start_def link_fresh_def bytes_def wire_def)
    then show ?case by blast
  qed (use link_inv_step in blast)
  with that show thesis by blast
qed

text \<open>What the invariant says once the bytes are forgotten.\<close>

lemma link_ran:
  assumes "link_inv fd a s l xs cs got seen"
  shows "prefix (commands_run xs) (commands_of (lk_user l)) \<and>
    (lk_up l = [] \<and> unsent (app_client (lk_app l)) = [] \<longrightarrow> commands_run xs = commands_of (lk_user l))"
proof -
  let ?flight = "lk_up l @ unsent (app_client (lk_app l))" and ?cs = "commands_of (lk_user l)"
  have split: "split_lf (got @ ?flight) = (map (\<lambda>f. f @ [CR]) ?cs, [])"
    using assms by (subst split_lf_wire [symmetric]) (auto simp: link_inv_def)
  have rn: "map (\<lambda>c. c @ [CR]) (commands_run xs) = fst (split_lf got)" using assms by (simp add: link_inv_def) (metis fst_conv)
  have inj: "inj (\<lambda>c :: string. c @ [CR])" by (simp add: inj_def)
  have "prefix (map (\<lambda>c. c @ [CR]) (commands_run xs)) (map (\<lambda>f. f @ [CR]) ?cs)"
    using prefix_split_lf [of got ?flight] by (simp add: split rn)
  then obtain zs where "map (\<lambda>f. f @ [CR]) ?cs = map (\<lambda>c. c @ [CR]) (commands_run xs) @ zs" by (auto elim: prefixE)
  from arg_cong [OF this, of "take (length (commands_run xs))"] have "take (length (commands_run xs)) ?cs = commands_run xs"
    using inj by (simp add: take_map inj_map_eq_map)
  then have "prefix (commands_run xs) ?cs" by (metis take_is_prefix)
  moreover have "commands_run xs = ?cs" if "?flight = []"
  proof -
    have "map (\<lambda>c. c @ [CR]) (commands_run xs) = map (\<lambda>f. f @ [CR]) ?cs"
      unfolding rn using split that by (metis append_Nil2 fst_conv)
    then show ?thesis using inj by (simp only: inj_map_eq_map)
  qed
  ultimately show ?thesis by simp
qed

lemma link_heard:
  assumes "link_inv fd a s l xs cs got seen"
  shows "said fd xs s = concat (map (\<lambda>f. f @ [LF]) (routed cs)) @ app_serverReadBuffer (lk_app l) @ lk_down l @ writeBufferAt (lk_srv l) fd"
    and "LF \<notin> set (app_serverReadBuffer (lk_app l))"
proof -
  have r: "(routed cs, app_serverReadBuffer (lk_app l)) = split_lf seen" using assms by (simp add: link_inv_def)
  have "seen = concat (map (\<lambda>f. f @ [LF]) (routed cs)) @ app_serverReadBuffer (lk_app l)"
    using split_lf_bytes [of seen] by (simp add: r [symmetric])
  then show "said fd xs s = concat (map (\<lambda>f. f @ [LF]) (routed cs)) @ app_serverReadBuffer (lk_app l) @ lk_down l @ writeBufferAt (lk_srv l) fd"
    using assms by (simp add: link_inv_def)
  have "LF \<notin> set (snd (split_lf x))" for x by (induction x) (auto split: prod.splits list.splits)
  then show "LF \<notin> set (app_serverReadBuffer (lk_app l))" by (metis r snd_conv)
qed

text \<open>C8. Between a client and the server no command and no line of an answer is lost, repeated or reordered,
  however both kernels cut the bytes and whatever the other connections do meanwhile. The server is in exactly the
  state that \<open>handleCommand\<close> on whole commands leads to, interleaved with the same events of the others: it has run the commands
  the user typed, in order, from the first on, and all of them once nothing is in flight. The client is in exactly the
  state that \<open>routeFrame\<close> on whole lines leads to, interleaved with the same typed lines: the bytes all this has put into the
  output of the connection are the lines routed, in order and from the first on, what the client keeps of an incomplete
  line, and what is in flight or still queued.\<close>

theorem link_in_order:
  assumes "(link_step fd)\<^sup>*\<^sup>* (link_start a s) l" and "link_fresh fd a s"
  shows "\<exists>xs cs. acts fd xs s = Inr (lk_srv l) \<and> around xs = lk_env l \<and>
    cacts cs a = Some (lk_app l) \<and> local cs = lk_user l \<and>
    prefix (commands_run xs) (commands_of (lk_user l)) \<and>
    (lk_up l = [] \<and> unsent (app_client (lk_app l)) = [] \<longrightarrow> commands_run xs = commands_of (lk_user l)) \<and>
    said fd xs s = concat (map (\<lambda>f. f @ [LF]) (routed cs)) @ app_serverReadBuffer (lk_app l) @ lk_down l @ writeBufferAt (lk_srv l) fd \<and>
    LF \<notin> set (app_serverReadBuffer (lk_app l))"
proof -
  obtain xs cs got seen where i: "link_inv fd a s l xs cs got seen" using link_steps_inv [OF assms] .
  then have "history fd a s l xs cs" by (simp add: link_inv_def)
  with link_ran [OF i] link_heard [OF i] show ?thesis
    by (intro exI [of _ xs] exI [of _ cs]) (simp add: history_def)
qed

theorem link_in_order_witness:
  "\<exists>l xs cs. (link_step 6)\<^sup>*\<^sup>* (link_start demo_app (demo emptyCtx [])) l \<and>
     acts 6 xs (demo emptyCtx []) = Inr (lk_srv l) \<and> commands_run xs = [''/login '' @ dq ''alice''] \<and>
     cacts cs demo_app = Some (lk_app l) \<and> said 6 xs (demo emptyCtx []) = concat (map (\<lambda>f. f @ [LF]) (routed cs)) @ app_serverReadBuffer (lk_app l)"
proof -
  let ?s = "demo emptyCtx []" and ?d = "''/login '' @ dq ''alice'' @ CRLF"
  define x where "x = dispatchCommandLine [[Ok 16]] demo_line demo_app"
  have "case x of Some (Inr (b, a)) \<Rightarrow> b \<and> handed demo_app a = ?d \<and> unsent (app_client a) = [] \<and>
      (case handleRead demo_envs (Ok ?d) 6 ?s of
         Inr t \<Rightarrow>
           (case handleWrite (Ok 99) 6 t of
              Inr u \<Rightarrow> take 99 (writeBufferAt t 6) = writeBufferAt t 6 \<and> writeBufferAt u 6 = [] \<and> length (writeBufferAt t 6) \<le> 99 \<and>
                (case handleServerReadable [Ok (writeBufferAt t 6)] a of Some (Inr (c, b)) \<Rightarrow> c \<and> unsent (app_client b) = [] | _ \<Rightarrow> False)
            | Inl e \<Rightarrow> False)
       | Inl e \<Rightarrow> False) | _ \<Rightarrow> False"
    unfolding x_def by code_simp
  then obtain a where a: "x = Some (Inr (True, a))" "handed demo_app a = ?d" "unsent (app_client a) = []"
    and rest: "case handleRead demo_envs (Ok ?d) 6 ?s of
         Inr t \<Rightarrow>
           (case handleWrite (Ok 99) 6 t of
              Inr u \<Rightarrow> take 99 (writeBufferAt t 6) = writeBufferAt t 6 \<and> writeBufferAt u 6 = [] \<and> length (writeBufferAt t 6) \<le> 99 \<and>
                (case handleServerReadable [Ok (writeBufferAt t 6)] a of Some (Inr (c, b)) \<Rightarrow> c \<and> unsent (app_client b) = [] | _ \<Rightarrow> False)
            | Inl e \<Rightarrow> False)
       | Inl e \<Rightarrow> False"
    unfolding running_iff by blast
  have split: "(case r of Inl e \<Rightarrow> False | Inr v \<Rightarrow> P v) \<longleftrightarrow> (\<exists>v. r = Inr v \<and> P v)" for r :: "exn + server" and P
    by (cases r) simp_all
  from rest obtain t u b where t: "handleRead demo_envs (Ok ?d) 6 ?s = Inr t"
    and u: "handleWrite (Ok 99) 6 t = Inr u" "take 99 (writeBufferAt t 6) = writeBufferAt t 6" "writeBufferAt u 6 = []"
      "length (writeBufferAt t 6) \<le> 99"
    and b: "handleServerReadable [Ok (writeBufferAt t 6)] a = Some (Inr (True, b))" "unsent (app_client b) = []"
    unfolding split running_iff by blast
  have f: "link_fresh 6 demo_app ?s" unfolding link_fresh_def tcp_ok_def by code_simp
  have fr: "frame_of demo_line = [''/login '' @ dq ''alice'']" by code_simp
  let ?l = "link_start demo_app ?s" and ?u = "[Types [[Ok 16]] demo_line]"
  have "LF \<notin> set demo_line" by code_simp
  from link_step.typing [of "[[Ok 16]]" demo_line ?l a 6, OF _ this] a(1) x_def
  have s1: "link_step 6 ?l (?l\<lparr>lk_app := a, lk_up := ?d, lk_user := ?u\<rparr>)" (is "link_step _ _ ?l1")
    by (simp add: link_start_def a(2))
  have "length ?d \<le> readBufferSize" "?d \<noteq> []" by (simp_all add: readBufferSize_def CRLF_def dq_def)
  with link_step.reading [of demo_envs ?d 6 ?l1 t "[]"] t
  have s2: "link_step 6 ?l1 (?l1\<lparr>lk_srv := t, lk_up := []\<rparr>)" (is "link_step _ _ ?l2") by (simp add: link_start_def)
  from link_step.writing [of 99 6 ?l2 u] u(1,2)
  have s3: "link_step 6 ?l2 (?l2\<lparr>lk_srv := u, lk_down := writeBufferAt t 6, lk_env := [Writes 99]\<rparr>)" (is "link_step _ _ ?l3")
    by (simp add: link_start_def)
  have "length (writeBufferAt t 6) \<le> READ_BUFFER_SIZE" using u(4) by (simp add: READ_BUFFER_SIZE_def)
  from link_step.routing [of "writeBufferAt t 6" ?l3 b "[]" 6] b(1) this
  obtain l where s4: "link_step 6 ?l3 l" "lk_app l = b" "lk_srv l = u" "lk_up l = []" "lk_down l = []" "lk_user l = ?u"
    by (simp add: link_start_def)
  note step = rtranclp.rtrancl_into_rtrancl [of "link_step 6"]
  have reach: "(link_step 6)\<^sup>*\<^sup>* ?l l" by (rule step [OF step [OF step [OF r_into_rtranclp [of "link_step 6", OF s1] s2] s3] s4(1)])
  have c: "commands_of ?u = [''/login '' @ dq ''alice'']" by (simp add: fr)
  have up: "lk_up l = [] \<and> unsent (app_client (lk_app l)) = []" by (simp only: s4(2,4) b(2))
  have down: "lk_down l = []" "writeBufferAt (lk_srv l) 6 = []" by (simp_all only: s4(3,5) u(3))
  obtain xs cs where "acts 6 xs ?s = Inr (lk_srv l)" "cacts cs demo_app = Some (lk_app l)" "commands_run xs = commands_of (lk_user l)"
    "said 6 xs ?s = concat (map (\<lambda>f. f @ [LF]) (routed cs)) @ app_serverReadBuffer (lk_app l)"
    using link_in_order [OF reach f] up down by auto
  with reach show ?thesis unfolding s4(6) c by blast
qed

end
