(* ===== verification/Link_Progress.thy ===== *)
theory Link_Progress
  imports Link
begin

text \<open>
  The joined client and server can always finish: from every state they reach, steps of the relation of \<open>Link\<close>
  lead to one where everything typed has run and every answer is on its way, unless a typed line
  makes the server's argument parser fail.
\<close>

section \<open>Each handler can go on\<close>

lemma flush_drains:
  assumes "tcp_ok (app_client a)"
  shows "\<exists>ws a'. flush_app ws a = Some (Inr a') \<and> unsent (app_client a') = []"
proof -
  let ?c = "app_client a"
  have "\<exists>ws left c'. flushPendingWrites ws ?c = Some (Inr (left, c')) \<and> unsent c' = []"
  proof (cases "tc_pendingOffset ?c < length (tc_pendingWrites ?c)")
    case False
    then have "flushPendingWrites [] ?c = Some (Inr (False, ?c\<lparr>tc_pendingWrites := [], tc_pendingOffset := 0\<rparr>))"
      by (simp add: flushPendingWrites.simps [of "[]" ?c])
    then show ?thesis by (intro exI conjI) (assumption, simp add: unsent_def)
  next
    case True
    let ?n = "length (tc_pendingWrites ?c) - tc_pendingOffset ?c"
    have "flushPendingWrites [[Ok ?n]] ?c =
        Some (Inr (False, ?c\<lparr>tc_pendingWrites := [], tc_pendingOffset := 0, tc_sent := tc_sent ?c @ unsent ?c\<rparr>))"
      using True by (simp add: flushPendingWrites.simps unsent_def)
    then show ?thesis by (intro exI conjI) (assumption, simp add: unsent_def)
  qed
  then obtain ws left c' where "flushPendingWrites ws ?c = Some (Inr (left, c'))" "unsent c' = []" by blast
  then show ?thesis by (intro exI [of _ ws] exI [of _ "a\<lparr>app_client := c'\<rparr>"]) (simp add: flush_app_def)
qed

text \<open>The lines the server takes are among the frames typed.\<close>

lemma lines_typed:
  assumes "link_inv fd a s l xs cs got seen" and "lk_up l = d @ rest"
    and "line \<in> set (fst (split_lf (cl_readBuffer (clientAt (lk_srv l) fd) @ d)))"
  shows "strip_cr line \<in> set (commands_of (lk_user l))"
proof -
  let ?ls = "fst (split_lf (cl_readBuffer (clientAt (lk_srv l) fd) @ d))"
  let ?rest = "rest @ unsent (app_client (lk_app l))"
  have r: "(map (\<lambda>c. c @ [CR]) (commands_run xs), cl_readBuffer (clientAt (lk_srv l) fd)) = split_lf got"
    and w: "(got @ d) @ ?rest = wire (commands_of (lk_user l))"
    and t: "\<And>f. f \<in> set (commands_of (lk_user l)) \<Longrightarrow> LF \<notin> set f" using assms(1,2) by (simp_all add: link_inv_def)
  have "fst (split_lf (got @ d)) = map (\<lambda>c. c @ [CR]) (commands_run xs) @ ?ls" using split_lf_extend [OF r, of d] by (metis fst_conv)
  then have "set ?ls \<subseteq> set (fst (split_lf ((got @ d) @ ?rest)))"
    unfolding split_lf_append [of "got @ d"] by auto
  also have "\<dots> = set (map (\<lambda>f. f @ [CR]) (commands_of (lk_user l)))" using split_lf_wire [OF t] unfolding w by simp
  finally obtain f where "f \<in> set (commands_of (lk_user l))" "line = f @ [CR]" using assms(3) by auto
  then show ?thesis by (simp add: strip_cr_def)
qed

text \<open>Lines the server's argument parser survives.\<close>

definition all_parsable :: "string list \<Rightarrow> bool" where
  "all_parsable ls \<longleftrightarrow> list_all (\<lambda>f. parseArgs f \<noteq> Inl Undefined_behaviour) ls"

lemma read_goes_on:
  assumes "link_inv fd a s l xs cs got seen" and "lk_up l = d @ rest" and "d \<noteq> []" and "length d \<le> readBufferSize"
    and "all_parsable (commands_of (lk_user l))"
  shows "\<exists>t. handleRead es (Ok d) fd (lk_srv l) = Inr t"
proof -
  let ?ls = "fst (split_lf (cl_readBuffer (clientAt (lk_srv l) fd) @ d))"
  have "list_all (\<lambda>l. parseArgs (strip_cr l) \<noteq> Inl Undefined_behaviour) ?ls"
    using assms(5) lines_typed [OF assms(1,2)] by (auto simp: all_parsable_def list_all_iff)
  then obtain t where "run_lines es ?ls fd (lk_srv l) = Inr t" using run_lines_total by blast
  moreover have "take 4096 d = d" using assms(4) by (simp add: readBufferSize_def)
  moreover have "fd \<in> set (fds (lk_srv l))" "distinct (fds (lk_srv l))" using assms(1) by (simp_all add: link_inv_def)
  ultimately show ?thesis using assms(3) by (simp add: handleRead_receive receive_lines Let_def)
qed

section \<open>Together they finish\<close>

lemma reads_all:
  assumes "link_inv fd a s l xs cs got seen" and "all_parsable (commands_of (lk_user l))"
  shows "\<exists>l'. (link_step fd)\<^sup>*\<^sup>* l l' \<and> lk_up l' = [] \<and> lk_user l' = lk_user l \<and> lk_app l' = lk_app l"
  using assms
proof (induction "length (lk_up l)" arbitrary: l xs cs got seen rule: less_induct)
  case less
  show ?case
  proof (cases "lk_up l = []")
    case False
    let ?d = "take readBufferSize (lk_up l)" and ?rest = "drop readBufferSize (lk_up l)"
    have d: "lk_up l = ?d @ ?rest" "?d \<noteq> []" "length ?d \<le> readBufferSize"
      using False by (simp_all add: readBufferSize_def)
    obtain t where t: "handleRead demo_envs (Ok ?d) fd (lk_srv l) = Inr t"
      using read_goes_on [OF less.prems(1) d less.prems(2)] by blast
    obtain m where m: "link_step fd l m" "lk_up m = ?rest" "lk_user m = lk_user l" "lk_app m = lk_app l"
      using link_step.reading [OF t d(2,3,1)] by fastforce
    obtain xs' cs' got' seen' where i: "link_inv fd a s m xs' cs' got' seen'"
      using link_inv_step [OF m(1) less.prems(1)] by blast
    have "length (lk_up m) < length (lk_up l)" using False by (simp add: m(2) readBufferSize_def)
    from less.hyps [OF this i] less.prems(2) m(3,4)
    obtain l' where "(link_step fd)\<^sup>*\<^sup>* m l'" "lk_up l' = []" "lk_user l' = lk_user l" "lk_app l' = lk_app l" by auto
    with m(1) show ?thesis by (blast intro: converse_rtranclp_into_rtranclp)
  qed blast
qed

lemma writes_all:
  assumes "fd \<in> set (fds (lk_srv l))"
  shows "\<exists>l'. link_step fd l l' \<and> writeBufferAt (lk_srv l') fd = [] \<and> lk_up l' = lk_up l \<and> lk_user l' = lk_user l \<and>
    lk_app l' = lk_app l"
proof -
  let ?n = "length (writeBufferAt (lk_srv l) fd)"
  have "\<exists>t. handleWrite (Ok ?n) fd (lk_srv l) = Inr t"
    by (cases "cl_writeBuffer (clientAt (lk_srv l) fd) = []") (simp_all add: handleWrite_def Posix_write_def)
  then obtain t where t: "handleWrite (Ok ?n) fd (lk_srv l) = Inr t" by blast
  from handleWrite_effect [OF t assms] have "writeBufferAt t fd = []" by simp
  with link_step.writing [OF t] show ?thesis by fastforce
qed

text \<open>C9. Whatever has happened on a connection, client and server can bring it to its end, provided no command
  typed makes the server's argument parser fail: from every state they reach there are steps, without anything more
  being typed, to one whose server is in the state that \<open>handleCommand\<close> on every typed command leads to, in order and
  interleaved with the events of the others, and whose output queue is empty: everything the server said on the way has
  been routed by the client, is kept by it, or is on its way to it. Neither side waits for the other for ever.\<close>

theorem link_delivers:
  assumes "(link_step fd)\<^sup>*\<^sup>* (link_start a s) l" and "link_fresh fd a s" and "all_parsable (commands_of (lk_user l))"
  shows "\<exists>l' xs cs. (link_step fd)\<^sup>*\<^sup>* l l' \<and> commands_of (lk_user l') = commands_of (lk_user l) \<and>
    acts fd xs s = Inr (lk_srv l') \<and> around xs = lk_env l' \<and> commands_run xs = commands_of (lk_user l) \<and>
    cacts cs a = Some (lk_app l') \<and> local cs = lk_user l' \<and>
    said fd xs s = concat (map (\<lambda>f. f @ [LF]) (routed cs)) @ app_serverReadBuffer (lk_app l') @ lk_down l'"
proof -
  obtain xs cs got seen where i: "link_inv fd a s l xs cs got seen" using link_steps_inv [OF assms(1,2)] .
  then have "tcp_ok (app_client (lk_app l))" by (simp add: link_inv_def)
  from flush_drains [OF this] obtain ws a1 where a1: "flush_app ws (lk_app l) = Some (Inr a1)" "unsent (app_client a1) = []"
    by blast
  obtain l1 where l1: "link_step fd l l1" "lk_app l1 = a1" "commands_of (lk_user l1) = commands_of (lk_user l)"
    using link_step.flushing [OF a1(1)] by fastforce
  obtain xs1 cs1 got1 seen1 where i1: "link_inv fd a s l1 xs1 cs1 got1 seen1" using link_inv_step [OF l1(1) i] by blast
  obtain l2 where l2: "(link_step fd)\<^sup>*\<^sup>* l1 l2" "lk_up l2 = []" "lk_user l2 = lk_user l1" "lk_app l2 = a1"
    using reads_all [OF i1] assms(3) l1 by auto
  have to2: "(link_step fd)\<^sup>*\<^sup>* (link_start a s) l2" using assms(1) l1(1) l2(1) by auto
  obtain xs2 cs2 got2 seen2 where "link_inv fd a s l2 xs2 cs2 got2 seen2" using link_steps_inv [OF to2 assms(2)] .
  then have "fd \<in> set (fds (lk_srv l2))" by (simp add: link_inv_def)
  from writes_all [of fd l2, OF this] obtain l3 where l3: "link_step fd l2 l3" "writeBufferAt (lk_srv l3) fd = []" "lk_up l3 = []"
    "lk_user l3 = lk_user l1" "lk_app l3 = a1" using l2 by auto
  have on: "(link_step fd)\<^sup>*\<^sup>* l l3"
    using l1(1) l2(1) l3(1) by (meson converse_rtranclp_into_rtranclp rtranclp.rtrancl_into_rtrancl)
  with assms(1) have "(link_step fd)\<^sup>*\<^sup>* (link_start a s) l3" by (rule rtranclp_trans)
  from link_steps_inv [OF this assms(2)] obtain xs3 cs3 got3 seen3 where i3: "link_inv fd a s l3 xs3 cs3 got3 seen3" .
  then have h: "history fd a s l3 xs3 cs3" by (simp add: link_inv_def)
  have "lk_up l3 = [] \<and> unsent (app_client (lk_app l3)) = []" by (simp only: l3(3,5) a1(2))
  with link_ran [OF i3] have "commands_run xs3 = commands_of (lk_user l)" by (simp only: l3(4) l1(3))
  then show ?thesis using on h link_heard(1) [OF i3] l3(2,4) l1(3)
    by (intro exI [of _ l3] exI [of _ xs3] exI [of _ cs3]) (simp add: history_def)
qed

text \<open>The line is typed while the socket takes only seven bytes; the rest waits in the client.\<close>

theorem link_delivers_witness:
  "\<exists>l l' xs. (link_step 6)\<^sup>*\<^sup>* (link_start demo_app (demo emptyCtx [])) l \<and> lk_up l = ''/login '' \<and>
     (link_step 6)\<^sup>*\<^sup>* l l' \<and> acts 6 xs (demo emptyCtx []) = Inr (lk_srv l') \<and> commands_run xs = [''/login '' @ dq ''alice'']"
proof -
  let ?s = "demo emptyCtx []"
  define x where "x = dispatchCommandLine [[Errno 4, Ok 7], [Errno 11]] demo_line demo_app"
  have "case x of Some (Inr (b, a)) \<Rightarrow> b \<and> handed demo_app a = ''/login '' | _ \<Rightarrow> False"
    unfolding x_def by code_simp
  then obtain a where a: "x = Some (Inr (True, a))" "handed demo_app a = ''/login ''" unfolding running_iff by blast
  have f: "link_fresh 6 demo_app ?s" unfolding link_fresh_def tcp_ok_def by code_simp
  have fr: "frame_of demo_line = [''/login '' @ dq ''alice'']" by code_simp
  let ?l = "link_start demo_app ?s" and ?u = "[Types [[Errno 4, Ok 7], [Errno 11]] demo_line]"
  have "LF \<notin> set demo_line" by code_simp
  from link_step.typing [of "[[Errno 4, Ok 7], [Errno 11]]" demo_line ?l a 6, OF _ this] a(1) x_def
  have s0: "link_step 6 ?l (?l\<lparr>lk_app := a, lk_up := ''/login '', lk_user := ?u\<rparr>)" (is "link_step _ _ ?m")
    by (simp add: link_start_def a(2))
  obtain l where m: "l = ?m" by blast
  have s1: "link_step 6 ?l l" unfolding m by (rule s0)
  have l: "commands_of (lk_user l) = [''/login '' @ dq ''alice'']" "lk_up l = ''/login ''" by (simp_all add: m fr)
  have r: "(link_step 6)\<^sup>*\<^sup>* ?l l" by (rule r_into_rtranclp [of "link_step 6", OF s1])
  have "all_parsable (commands_of (lk_user l))" unfolding l(1) by code_simp
  from link_delivers [OF r f this] obtain l' xs where "(link_step 6)\<^sup>*\<^sup>* l l'" "acts 6 xs ?s = Inr (lk_srv l')"
    "commands_run xs = commands_of (lk_user l)" by blast
  with r l show ?thesis by (intro exI [of _ l] exI [of _ l'] exI [of _ xs]) simp
qed

end
