(* ===== verification/Spec2Isabelle.thy ===== *)
theory Spec2Isabelle
  imports Server_Lives Creations Link_Progress
begin

text \<open>
  Verification of the \<^emph>\<open>myteams\<close> chat system: a single-threaded server (\<open>src/server\<close>) that keeps users, teams,
  channels, threads, replies and private conversations, and a command line client (\<open>src/client\<close>), which talk
  over TCP in lines of text.

  \<^bold>\<open>How the parts interact.\<close> The server's loop (\<open>Server::run\<close>) updates the poll flags, waits for events and handles
  them one by one: it accepts connections, reads bytes, cuts them into lines, hands each line to the command
  table, writes queued output, and drops connections. A command checks the session, the context and the
  arguments of its connection, changes the database, and appends replies to its own write buffer and events to
  those of other connections. At start the database is read from a JSON file, at the end of \<open>run\<close> it is written there.
  The client checks a typed line against a table of commands, sends it, and routes every received line to
  a handler that calls the logging library.

  \<^bold>\<open>Theories.\<close> Each operation keeps the name of the function it translates, with the class as a prefix where needed.
  \<^item> \<open>Prelude\<close>, \<open>Lines\<close>, \<open>Decimal\<close>: bytes, the pieces of the standard library the sources call, ordered maps, lines, numbers.
  \<^item> \<open>Models\<close>, \<open>Database\<close>: \<open>src/server/models\<close>, \<open>Context.hpp\<close>, \<open>database/Database.cpp\<close>; a class is a record, a lookup an option,
    a write through a returned pointer a \<open>modify\<close> operation (locales \<open>keyed_table\<close>, \<open>growing_table\<close>).
  \<^item> \<open>Wire\<close>: \<open>quoteProtocolField\<close>, the server's \<open>parseArgs\<close> and the client's \<open>TokenParser\<close> (locale \<open>tokenizer\<close>).
  \<^item> \<open>Server_State\<close>: \<open>client/client.hpp\<close>, the members of \<open>Server\<close>, and the delivery functions.
  \<^item> \<open>Cmd_Session\<close>, \<open>Cmd_Messaging\<close>, \<open>Cmd_Subscription\<close>, \<open>Cmd_Context\<close>, \<open>Cmd_Create\<close>: the thirteen commands of \<open>src/server/commands\<close>.
  \<^item> \<open>Command_Contract\<close>, \<open>Command_Handling\<close>: what every command promises (locales \<open>icommand\<close>, \<open>authenticated_command\<close>), and
    \<open>commandHandling.cpp\<close>.
  \<^item> \<open>Posix\<close>, \<open>Event_Loop\<close>, \<open>Framing\<close>: \<open>sys/Posix.cpp\<close>, \<open>net/Poller.cpp\<close>, the loop of \<open>server.cpp\<close>, framing against a reference.
  \<^item> \<open>Json_Parser\<close>, \<open>Save_Manager\<close>, \<open>Json_Roundtrip\<close>: \<open>saveManager/*\<close> and the proof that loading undoes saving.
  \<^item> \<open>Server_Main\<close>: \<open>Server::init\<close>, \<open>Server::run\<close>, \<open>src/server/main.cpp\<close>; \<open>Server_Lives\<close>: what a run keeps and how stops
    and starts follow each other.
  \<^item> \<open>Client_Commands\<close>, \<open>Client_Router\<close>, \<open>Client_Net\<close>, \<open>Client_App\<close>: \<open>src/client/protocol\<close>, \<open>User.cpp\<close>, \<open>network/TcpClient.cpp\<close>,
    \<open>sys/Posix.cpp\<close>, \<open>ClientApplication.cpp\<close>, \<open>main.cpp\<close>; \<open>Client_Poller\<close>: its copy of the poller (\<open>network/Poller.cpp\<close>).
  \<^item> \<open>Db_Inv\<close>, \<open>Session_Inv\<close>, \<open>Loop_Inv\<close>: the invariant of the database, of the sessions, of the loop, and reachability
    (\<open>loop_step\<close>); \<open>Command_Specs\<close>, \<open>Client_Specs\<close>: the behaviour of the commands and of the client;
    \<open>End_To_End\<close>: what the user of a client sees of the server's state (locale \<open>listing\<close>); \<open>Fixtures\<close>: small
    states for the concrete instances.
  \<^item> \<open>Chat_Spec\<close>: the server seen from outside, a chat with ten kinds of steps and no sockets, buffers, lists or
    sessions; \<open>Chat_View\<close>: how a state of the server is read as a chat; \<open>Chat_Refinement\<close>: every command is one of
    the steps or none (locale \<open>chat_command\<close>), and so is every event (locale \<open>line_effects\<close> of \<open>Loop_Inv\<close>).
  \<^item> \<open>Announcements\<close>: every event line and every answer to \<open>/create\<close> against the handler of the client (locale
    \<open>announcement\<close>), and who is shown what after \<open>/send\<close>, \<open>/login\<close> and \<open>/subscribe\<close>; \<open>Creations\<close>: what
    \<open>/create\<close> stores is what it announces, and what it answers.
  \<^item> \<open>Link\<close>: a client and the server joined by two streams of bytes (\<open>link_step\<close>). Both are always in the states that a
    history of whole commands (\<open>handleCommand\<close>) and whole lines (\<open>routeFrame\<close>) leads to, which contains the events of the
    others and what was typed as they happened (\<open>acts\<close>, \<open>cacts\<close>). \<open>Link_Progress\<close>: they can always finish.

  \<^bold>\<open>State, errors, environment.\<close> State is passed explicitly. An exception is \<open>Inl\<close> of an \<open>exn\<close>; undefined behaviour is a
  value of it, so that it cannot be mistaken for a result. What comes from outside is an argument: the kernel's
  answers to system calls (\<open>sys\<close>), identifiers and clock (\<open>env\<close>), the save file, the typed lines, the addresses. The named
  assumptions on it are \<open>uuid_supply\<close> (generated identifiers are new and not empty), \<open>answers_ok\<close> (\<open>accept\<close> returns an
  \<open>int\<close> descriptor that is not in use) and \<open>clock_ok\<close> (the clock shows times that a \<open>double\<close> holds exactly).

  \<^bold>\<open>Fuel and bounds.\<close> Only the JSON parser takes fuel, because its array loop may not end; the round trip proves that some
  amount is enough for every saved file, and \<open>json_array_diverges\<close> that none is for a file with an array element the parser cannot pass. The \<open>poll\<close> loop and the calls the
  client repeats consume the list of answers they are given; \<open>flushPendingWrites_returns\<close> bounds that list. Poll flags are
  16-bit words, ports 16-bit, statuses and times are checked against 32 and 64 bits; the counter of connections
  of a user is an integer, which equals the number of open descriptors and so stays below \<open>2 ^ 31\<close> (\<open>reachable_types\<close>).

  \<^bold>\<open>What is shown.\<close> Invariants of every reachable state (well-formed database, exact counters, live contexts, mirrored
  conversations, a poller that matches the connections); independence of both ends from how the stream is cut; only
  subscribers write; effects of the commands on every branch; conservation of output; save and restart. Over all lives
  of an installation the server refines the abstract chat, nothing said is lost or altered, and every integer fits its type.
  End to end, commands and answers cross the connection in order, complete and once, both sides can always finish, and
  lists, announcements, private messages and logins reach the right clients and are shown there. The server stops
  exactly by a signal, and saves. A restart goes on with the chat the last run saved. Some lemmas pin down
  defects: an argument that begins with a blank reaches undefined behaviour, escaping is not undone, some damaged save
  files hang the parser, the 404 branches of \<open>/create\<close> are dead, members are not told who joins.

  \<^bold>\<open>Not modelled.\<close> The binary logging library (its calls are recorded), texts of usage messages and of system errors
  (an exception is a value with the name of the failing call; \<open>ClientError\<close> and \<open>std::system_error\<close> are not told
  apart), the closing of sockets by destructors, a signal before its handler is installed, memory exhaustion, tests and build files.
\<close>

section \<open>Every state a run of the server can reach\<close>

text \<open>C1. In every state the event loop can reach from a started server, whatever the clients send and
  the kernel answers, the database is well-formed (unique identifiers and names, lengths within the
  limits, subscribers are users, conversations mirrored), every session and context is backed by it,
  and the poller watches exactly the listening socket and the open connections.\<close>

theorem reachable_invariant:
  assumes "started s" and "loop_step\<^sup>*\<^sup>* (run_start s) (t, ps)"
  shows "server_inv t \<and> poll_ok t ps"
  using loop_steps_inv [OF assms(2) loop_inv_start [OF assms(1)]] by (simp add: loop_inv_def)

theorem reachable_invariant_witness:
  "started demo_idle \<and> loop_step\<^sup>*\<^sup>* (run_start demo_idle) (fst demo_after, snd demo_after) \<and>
   server_inv (fst demo_after) \<and> poll_ok (fst demo_after) (snd demo_after)"
proof -
  have r: "loop_step\<^sup>*\<^sup>* (run_start demo_idle) (fst demo_after, snd demo_after)" using demo_reached by simp
  from demo_started r reachable_invariant [OF demo_started r] show ?thesis by blast
qed

text \<open>C2. In every reachable state the connection counter of a user is the number of open connections
  logged in as that user, so \<open>isConnected\<close> answers whether there is one: no login, logout,
  disconnection or end of file leaks or loses a connection.\<close>

theorem reachable_counters:
  assumes "started s" and "loop_step\<^sup>*\<^sup>* (run_start s) (t, ps)" and "u \<in> set (db_users (srv_db t))"
  shows "usr_connectedCount u = int (length (filter (\<lambda>(k, c). cl_userUuid c = usr_uuid u) (srv_clients t))) \<and>
    (isConnected u \<longleftrightarrow> (\<exists>(k, c) \<in> set (srv_clients t). cl_userUuid c = usr_uuid u))"
proof -
  have "server_inv t" using loop_steps_inv [OF assms(2) loop_inv_start [OF assms(1)]] by (simp add: loop_inv_def)
  from user_facts(2) [OF this assms(3)]
  have n: "usr_connectedCount u = int (length (filter (\<lambda>(k, c). cl_userUuid c = usr_uuid u) (srv_clients t)))"
    by (simp add: session_count_def sessions_def filter_map o_def split_def)
  then have "isConnected u \<longleftrightarrow> filter (\<lambda>(k, c). cl_userUuid c = usr_uuid u) (srv_clients t) \<noteq> []"
    by (simp add: isConnected_def)
  also have "\<dots> \<longleftrightarrow> (\<exists>(k, c) \<in> set (srv_clients t). cl_userUuid c = usr_uuid u)"
    by (auto simp: filter_empty_conv)
  finally show ?thesis using n by simp
qed

theorem reachable_counters_witness:
  "demo_user ''u1'' ''alice'' 1 \<in> set (db_users (srv_db (fst demo_after))) \<and> isConnected (demo_user ''u1'' ''alice'' 1) \<and>
   (\<exists>(k, c) \<in> set (srv_clients (fst demo_after)). cl_userUuid c = ''u1'')"
proof -
  have r: "loop_step\<^sup>*\<^sup>* (run_start demo_idle) (fst demo_after, snd demo_after)" using demo_reached by simp
  have m: "demo_user ''u1'' ''alice'' 1 \<in> set (db_users (srv_db (fst demo_after)))" by code_simp
  have i: "isConnected (demo_user ''u1'' ''alice'' 1)" by code_simp
  have u: "usr_uuid (demo_user ''u1'' ''alice'' 1) = ''u1''" by (simp add: demo_user_def)
  from m i reachable_counters [OF demo_started r m] show ?thesis unfolding u by blast
qed

text \<open>C23. In every reachable state the context of a connection never dangles: a team, channel or thread
  it names exists under that path, and a channel is set only inside a team, a thread only inside a
  channel. \<open>/list\<close> and \<open>/info\<close> therefore never answer 404 for a context that \<open>/use\<close> accepted.\<close>

theorem reachable_contexts:
  assumes "started s" and "loop_step\<^sup>*\<^sup>* (run_start s) (t, ps)" and "cl_context (clientAt t fd) = x"
  shows "(ctx_teamUuid x \<noteq> [] \<longrightarrow> findTeam (srv_db t) (ctx_teamUuid x) \<noteq> None) \<and>
    (ctx_channelUuid x \<noteq> [] \<longrightarrow> ctx_teamUuid x \<noteq> [] \<and> findChannel (srv_db t) (ctx_teamUuid x) (ctx_channelUuid x) \<noteq> None) \<and>
    (ctx_threadUuid x \<noteq> [] \<longrightarrow> ctx_channelUuid x \<noteq> [] \<and> findThread (srv_db t) (ctx_channelUuid x) (ctx_threadUuid x) \<noteq> None)"
proof -
  have "server_inv t" using loop_steps_inv [OF assms(2) loop_inv_start [OF assms(1)]] by (simp add: loop_inv_def)
  from context_exists [OF this, of fd] assms(3) show ?thesis by (simp add: ctx_ok_def)
qed

theorem reachable_contexts_witness:
  "loop_step\<^sup>*\<^sup>* (run_start demo_idle) (fst demo_after, snd demo_after) \<and>
   cl_context (clientAt (fst demo_after) 4) = demo_ctx ''t1'' ''c1'' ''h1'' \<and>
   findTeam (srv_db (fst demo_after)) ''t1'' \<noteq> None \<and> findThread (srv_db (fst demo_after)) ''c1'' ''h1'' \<noteq> None"
proof -
  have r: "loop_step\<^sup>*\<^sup>* (run_start demo_idle) (fst demo_after, snd demo_after)" using demo_reached by simp
  have x: "cl_context (clientAt (fst demo_after) 4) = demo_ctx ''t1'' ''c1'' ''h1''" by code_simp
  from r x reachable_contexts [OF demo_started r x] show ?thesis by (simp add: demo_ctx_def)
qed

text \<open>C37. In every reachable state \<open>/create\<close> either is refused with one line, 400, 401, 403 or 409, and changes nothing
  else, or stores something new and answers 201. It never answers 404: the replies for a team, channel or thread that does
  not exist, which the protocol lists and the lookups of \<open>create.cpp\<close> write, do not occur in any run.\<close>

theorem create_never_not_found:
  assumes "started s" and "loop_step\<^sup>*\<^sup>* (run_start s) (t, ps)" and "fd \<in> set (fds t)"
  shows "(\<exists>r \<in> {R400, R401, R403, R409}. Create_execute e fd t = sendToClient r fd t) \<or>
    srv_db (Create_execute e fd t) \<noteq> srv_db t \<and>
      (\<exists>text. writeBufferAt (Create_execute e fd t) fd = writeBufferAt t fd @ ''201 CREATED '' @ text)"
proof -
  have "server_inv t" using loop_steps_inv [OF assms(2) loop_inv_start [OF assms(1)]] by (simp add: loop_inv_def)
  from context_exists [OF this, of fd] create_outcome [OF assms(3) refl, of e] show ?thesis
    unfolding refuses_def creates_def by (simp add: ctx_ok_def)
qed

text \<open>Alice's connection, in the thread, runs \<open>/create\<close> with what her last line left in its arguments.\<close>

theorem create_never_not_found_witness:
  "let t = fst demo_after; t' = Create_execute (demo_env\<lparr>env_time := 42\<rparr>) 4 t in
   srv_db t' \<noteq> srv_db t \<and> (\<exists>text. writeBufferAt t' 4 = writeBufferAt t 4 @ ''201 CREATED '' @ text)"
proof -
  have r: "loop_step\<^sup>*\<^sup>* (run_start demo_idle) (fst demo_after, snd demo_after)" using demo_reached by simp
  have m: "4 \<in> set (fds (fst demo_after))" by code_simp
  have d: "srv_db (Create_execute (demo_env\<lparr>env_time := 42\<rparr>) 4 (fst demo_after)) \<noteq> srv_db (fst demo_after)" by code_simp
  have f: "srv_db (sendToClient q 4 t) = srv_db t" for q t by (simp add: frame_simps)
  from create_never_not_found [OF demo_started r m, of "demo_env\<lparr>env_time := 42\<rparr>"] d f show ?thesis
    unfolding Let_def by metis
qed

text \<open>C24. In every reachable state private conversations are mirrored: what one user's map holds for the
  other is, message for message, what the other's map holds for the first.\<close>

theorem reachable_mirrored:
  assumes "started s" and "loop_step\<^sup>*\<^sup>* (run_start s) (t, ps)" and "a \<noteq> b"
    and "findUser (srv_db t) a \<noteq> None" and "findUser (srv_db t) b \<noteq> None"
  shows "conv (srv_db t) a b = conv (srv_db t) b a"
proof -
  have "server_inv t" using loop_steps_inv [OF assms(2) loop_inv_start [OF assms(1)]] by (simp add: loop_inv_def)
  then have ok: "db_ok (srv_db t)" by (rule inv_db_ok)
  from assms(4,5) obtain x y where "findUser (srv_db t) a = Some x" "findUser (srv_db t) b = Some y" by blast
  moreover from this have "x \<in> set (db_users (srv_db t))" "usr_uuid x = a" "y \<in> set (db_users (srv_db t))" "usr_uuid y = b"
    using findUser_iff [OF ok] by auto
  ultimately show ?thesis
    using ok assms(3) by (auto simp: conv_def db_ok_def users_ok_def mirrored_def list_all_iff)
qed

theorem reachable_mirrored_witness:
  "conv (srv_db (fst demo_after)) ''u1'' ''u2'' = conv (srv_db (fst demo_after)) ''u2'' ''u1''"
proof -
  have r: "loop_step\<^sup>*\<^sup>* (run_start demo_idle) (fst demo_after, snd demo_after)" using demo_reached by simp
  have f: "findUser (srv_db (fst demo_after)) ''u1'' \<noteq> None" "findUser (srv_db (fst demo_after)) ''u2'' \<noteq> None"
    by code_simp+
  show ?thesis by (rule reachable_mirrored [OF demo_started r _ f]) simp
qed

text \<open>C19. \<open>run\<close> only makes the steps of the relation: a sequence of turns of the loop that ends normally
  leads from its start to a reachable state, when the outside keeps its promises along the way.\<close>

theorem run_loop_refines:
  assumes "run_loop ts True st = Some (Inr st')" and "turns_ok ts st"
  shows "loop_step\<^sup>*\<^sup>* st st'"
  using assms by (rule run_loop_steps)

theorem run_loop_refines_witness:
  "\<exists>st'. run_loop [demo_turn] True (run_start demo_idle) = Some (Inr st') \<and> fds (fst st') = [4] \<and>
     loop_step\<^sup>*\<^sup>* (run_start demo_idle) st'"
proof -
  define r where "r = run_loop [demo_turn] True (run_start demo_idle)"
  have "case r of Some (Inr st') \<Rightarrow> fds (fst st') = [4] | _ \<Rightarrow> False" unfolding r_def by code_simp
  then obtain st' where st': "run_loop [demo_turn] True (run_start demo_idle) = Some (Inr st')" "fds (fst st') = [4]"
    unfolding r_def [symmetric] by (auto split: option.splits sum.splits)
  from run_loop_refines [OF st'(1) demo_turn_ok] st' show ?thesis by blast
qed

section \<open>Input\<close>

text \<open>C30. \<open>_parseCommands\<close> is the reference framing: it runs, in order, the complete lines of the read
  buffer and leaves exactly the text after the last line feed.\<close>

theorem parseCommands_reference:
  assumes "distinct (fds s)"
  shows "parseCommands es fd s =
    (case run_lines es (fst (split_lf (cl_readBuffer (clientAt s fd)))) fd s of
       Inl x \<Rightarrow> Inl x
     | Inr t \<Rightarrow> Inr (setReadBuffer fd (snd (split_lf (cl_readBuffer (clientAt s fd)))) t))"
  using assms by (rule parseCommands_lines)

theorem parseCommands_reference_witness:
  "let s = setReadBuffer 6 (''/foo'' @ [LF, CR, LF] @ ''/lo'') (demo emptyCtx []) in distinct (fds s) \<and>
     parseCommands demo_envs 6 s = Inr (setReadBuffer 6 ''/lo'' (setArgs 6 [''/foo''] s))"
proof -
  define s where "s = setReadBuffer 6 (''/foo'' @ [LF, CR, LF] @ ''/lo'') (demo emptyCtx [])"
  have d: "distinct (fds s)" unfolding s_def by code_simp
  have l: "split_lf (cl_readBuffer (clientAt s 6)) = ([''/foo'', [CR]], ''/lo'')" unfolding s_def by code_simp
  have a: "dispatch_line (demo_envs 0) ''/foo'' 6 s = Inr (setArgs 6 [''/foo''] s)"
  proof -
    have "parseArgs ''/foo'' = Inr [''/foo'']" "strip_cr ''/foo'' = ''/foo''" by code_simp+
    then show ?thesis by (simp add: dispatch_line_def handleCommand_def commands_def)
  qed
  have "strip_cr [CR] = []" by code_simp
  then have b: "dispatch_line e [CR] 6 t = Inr t" for e t by (simp add: dispatch_line_def)
  have "parseCommands demo_envs 6 s = Inr (setReadBuffer 6 ''/lo'' (setArgs 6 [''/foo''] s))"
    using parseCommands_reference [OF d, of demo_envs 6] by (simp add: l a b)
  with d show ?thesis unfolding Let_def s_def by blast
qed

text \<open>C31. An event ends the server only through a failing system call or a line with a lone quote: when the
  kernel's answers are results or \<open>EAGAIN\<close> and every complete line of the input parses, handling the
  event returns.\<close>

theorem processEvent_returns:
  assumes "loop_inv st" and "calm a"
    and "\<And>d. ans_read a = Ok d \<Longrightarrow> parsable (cl_readBuffer (clientAt (fst st) (ev_fd ev)) @ take 4096 d)"
  shows "\<exists>st'. processEvent es a ev st = Inr st'"
proof -
  have d: "distinct (fds (fst st))" using assms(1) by (simp add: loop_inv_def distinct_fds)
  have "\<exists>st'. acceptClient a st = Inr st'"
    using assms(2) by (auto simp: calm_def acceptClient_def Posix_accept_def Posix_setNonBlocking_def checked_def)
  moreover have "\<exists>st'. processClientEvent es a ev st = Inr st'" if "getClient (fst st) (ev_fd ev) \<noteq> None"
    using that getClient_Some assms(2,3) d by (intro processClientEvent_total) blast+
  ultimately show ?thesis by (auto simp: processEvent_def)
qed

theorem processEvent_returns_witness:
  "loop_inv (run_start demo_idle) \<and> calm demo_answers \<and>
   (\<exists>st'. processEvent demo_envs demo_answers \<lparr>ev_fd = 3, ev_revents = 1\<rparr> (run_start demo_idle) = Inr st')"
proof -
  have i: "loop_inv (run_start demo_idle)" by (rule loop_inv_start [OF demo_started])
  have c: "calm demo_answers" by (simp add: calm_def demo_answers_def)
  have p: "parsable (cl_readBuffer (clientAt (fst (run_start demo_idle)) (ev_fd \<lparr>ev_fd = 3, ev_revents = 1\<rparr>)) @ take 4096 (''/login alice'' @ CRLF @ ''/use t1 c1 h1'' @ CRLF))"
    by code_simp
  have "\<exists>st'. processEvent demo_envs demo_answers \<lparr>ev_fd = 3, ev_revents = 1\<rparr> (run_start demo_idle) = Inr st'"
    by (rule processEvent_returns [OF i c]) (use p in \<open>simp add: demo_answers_def\<close>)
  with i c show ?thesis by blast
qed

section \<open>Output\<close>

text \<open>C32. After \<open>_updatePollFlags\<close> a connection is watched for writability exactly when it has output
  queued, and always for input: queued replies are neither forgotten nor polled for in vain.\<close>

theorem updatePollFlags_watches:
  assumes "loop_inv (s, ps)" and "updatePollFlags (s, ps) = (t, ps')" and "(k, c) \<in> set (srv_clients t)"
  shows "(k, if cl_writeBuffer c = [] then 1 else 5) \<in> set (watched ps') \<and> (cl_pollOutEnabled c \<longleftrightarrow> cl_writeBuffer c \<noteq> [])"
proof -
  have "poll_ok s ps" "distinct (fds s)" using assms(1) by (simp_all add: loop_inv_def distinct_fds)
  then obtain ps'' where "updatePollFlags (s, ps) = (map_clients (\<lambda>_. with_flag) s, ps'')"
    "watched ps'' = (srv_fd s, flags_of False) # map (\<lambda>(k, c). (k, flags_of (cl_writeBuffer c \<noteq> []))) (srv_clients s)"
    by (rule updatePollFlags_spec)
  with assms(2,3) show ?thesis by (force simp: map_clients_def with_flag_def flags_of_def)
qed

theorem updatePollFlags_watches_witness:
  "loop_inv demo_after \<and> (\<exists>c. (4, c) \<in> set (srv_clients (fst (updatePollFlags demo_after))) \<and> cl_writeBuffer c \<noteq> [] \<and>
     (4, 5) \<in> set (watched (snd (updatePollFlags demo_after))))"
proof -
  have i: "loop_inv (fst demo_after, snd demo_after)"
    using loop_steps_inv [OF demo_reached loop_inv_start [OF demo_started]] by simp
  have u: "updatePollFlags (fst demo_after, snd demo_after) = (fst (updatePollFlags demo_after), snd (updatePollFlags demo_after))"
    by simp
  define cs where "cs = srv_clients (fst (updatePollFlags demo_after))"
  have "list_ex (\<lambda>(k, c). k = 4 \<and> cl_writeBuffer c \<noteq> []) cs" unfolding cs_def by code_simp
  then obtain c where c: "(4, c) \<in> set (srv_clients (fst (updatePollFlags demo_after)))" "cl_writeBuffer c \<noteq> []"
    unfolding cs_def [symmetric] by (auto simp: list_ex_iff)
  from updatePollFlags_watches [OF i u c(1)] c i show ?thesis by auto
qed

text \<open>Output is neither lost, duplicated nor reordered: what \<open>_handleWrite\<close> hands to the kernel
  followed by what stays queued is what was queued, for a partial write, a full one and a socket that
  would block; no other connection's queue changes.\<close>

theorem handleWrite_conserves:
  assumes "handleWrite r fd s = Inr t" and "fd \<in> set (fds s)"
  shows "let n = (case r of Ok n \<Rightarrow> n | Errno e \<Rightarrow> 0) in
    take n (writeBufferAt s fd) @ writeBufferAt t fd = writeBufferAt s fd \<and>
    (\<forall>k. k \<noteq> fd \<longrightarrow> clientAt t k = clientAt s k)"
  using assms by (rule handleWrite_effect)

theorem handleWrite_conserves_witness:
  "let s = sendToClient R200 4 (demo emptyCtx []) in
     \<exists>t. handleWrite (Ok 3) 4 s = Inr t \<and> take 3 (writeBufferAt s 4) @ writeBufferAt t 4 = writeBufferAt s 4"
proof -
  let ?s = "sendToClient R200 4 (demo emptyCtx [])"
  have d: "4 \<in> set (fds ?s)" by code_simp
  have "cl_writeBuffer (clientAt ?s 4) \<noteq> []" by code_simp
  then obtain t where t: "handleWrite (Ok 3) 4 ?s = Inr t" by (simp add: handleWrite_def Posix_write_def Let_def)
  from t handleWrite_conserves [OF t d] show ?thesis by (auto simp: Let_def)
qed

end
